(* ===== verification/Prelude.thy ===== *)
theory Prelude
  imports Main "HOL-Library.Word" "HOL-Library.Char_ord" "HOL-Library.List_Lexorder"
begin

text \<open>
  Shared vocabulary of the development: the fixed-width integers of the C++ sources, the
  error values that stand for a failed \<^verbatim>\<open>assert\<close>, an \<^verbatim>\<open>abort\<close>, an access outside an array
  or a loop that never ends, little-endian bytes of words, masked updates, and
  \<^verbatim>\<open>std::map\<close> as an association list kept in key order, behind an interface locale.
\<close>

unbundle bit_operations_syntax

section \<open>Fixed-width integers and error values\<close>

type_synonym u8 = "8 word"
type_synonym u16 = "16 word"
type_synonym u32 = "32 word"
type_synonym u64 = "64 word"

datatype sim_error =
    AssertFailed        \<comment> \<open>\<^verbatim>\<open>assert\<close> or \<^verbatim>\<open>sc_assert\<close> with a false condition\<close>
  | Aborted             \<comment> \<open>\<^verbatim>\<open>abort()\<close> or \<^verbatim>\<open>exit(EXIT_FAILURE)\<close>\<close>
  | OutOfBounds         \<comment> \<open>an array or mapping read or written outside its extent\<close>
  | UndefinedShift      \<comment> \<open>a shift by at least the width of the promoted left operand\<close>
  | Diverges            \<comment> \<open>a loop whose exit condition can never become true\<close>
  | NullPointer         \<comment> \<open>a null pointer dereferenced\<close>
  | IntOverflow         \<comment> \<open>a signed integer incremented past its maximum\<close>
  | StackOverflow       \<comment> \<open>a local array larger than the stack\<close>

type_synonym 'a res = "sim_error + 'a"

named_theorems bitwise \<open>bit-level characterisations of the word operations of the model\<close>
named_theorems lookups \<open>what a lookup returns after an update\<close>

text \<open>Sequencing of operations that can fail: the first error ends the computation.\<close>

definition res_bind :: "'a res \<Rightarrow> ('a \<Rightarrow> 'b res) \<Rightarrow> 'b res" where
  "res_bind r f = (case r of Inl e \<Rightarrow> Inl e | Inr x \<Rightarrow> f x)"

lemma res_bind_simps [simp]:
  "res_bind (Inl e) f = Inl e"
  "res_bind (Inr x) f = f x"
  by (simp_all add: res_bind_def)

lemma res_bind_Inr_iff: "res_bind r f = Inr y \<longleftrightarrow> (\<exists>x. r = Inr x \<and> f x = Inr y)"
  by (cases r) auto

lemma res_bind_Inl_iff: "res_bind r f = Inl e \<longleftrightarrow> r = Inl e \<or> (\<exists>x. r = Inr x \<and> f x = Inl e)"
  by (cases r) auto

definition require :: "bool \<Rightarrow> sim_error \<Rightarrow> unit res" where
  "require b e = (if b then Inr () else Inl e)"

lemma require_simps [simp]:
  "require True e = Inr ()"
  "require False e = Inl e"
  "require b e = Inr u \<longleftrightarrow> b"
  by (simp_all add: require_def)

section \<open>Bytes of words, little-endian\<close>

definition byte_at :: "'a::len word \<Rightarrow> nat \<Rightarrow> u8" where
  "byte_at w i = ucast (drop_bit (8 * i) w)"

primrec le_word :: "u8 list \<Rightarrow> 'a::len word" where
  "le_word [] = 0"
| "le_word (b # bs) = ucast b OR push_bit 8 (le_word bs)"

definition le_bytes :: "nat \<Rightarrow> 'a::len word \<Rightarrow> u8 list" where
  "le_bytes n w = map (byte_at w) [0..<n]"

lemma bit_byte_at [bitwise]:
  "bit (byte_at (w :: 'a::len word) i) n \<longleftrightarrow> n < 8 \<and> bit w (8 * i + n)"
  by (auto simp: byte_at_def bit_ucast_iff bit_drop_bit_eq dest: bit_imp_le_length)

lemma bit_le_word [bitwise]:
  "bit (le_word bs :: 'a::len word) n \<longleftrightarrow>
     n < LENGTH('a) \<and> n div 8 < length bs \<and> bit (bs ! (n div 8)) (n mod 8)"
proof (induction bs arbitrary: n)
  case Nil
  show ?case by simp
next
  case (Cons b bs)
  show ?case
  proof (cases "n < 8")
    case True
    then show ?thesis
      by (auto simp: bit_or_iff bit_ucast_iff bit_push_bit_iff dest: bit_imp_le_length)
  next
    case False
    then have "\<not> bit b n"
      using bit_imp_le_length [of b n] by auto
    moreover have "n div 8 = Suc ((n - 8) div 8)" "(n - 8) mod 8 = n mod 8"
      using False by (simp_all add: le_div_geq le_mod_geq)
    ultimately show ?thesis
      using False Cons.IH [of "n - 8"] by (auto simp: bit_or_iff bit_ucast_iff bit_push_bit_iff)
  qed
qed

lemma length_le_bytes [simp]: "length (le_bytes n w) = n"
  by (simp add: le_bytes_def)

lemma nth_le_bytes [simp]: "i < n \<Longrightarrow> le_bytes n w ! i = byte_at w i"
  by (simp add: le_bytes_def)

lemma byte_at_le_word:
  assumes "8 * i + 8 \<le> LENGTH('a)" "i < length bs"
  shows "byte_at (le_word bs :: 'a::len word) i = bs ! i"
proof (rule bit_word_eqI)
  fix n assume "n < LENGTH(8)"
  then show "bit (byte_at (le_word bs :: 'a word) i) n = bit (bs ! i) n"
    using assms by (simp add: bitwise)
qed

lemma le_word_le_bytes:
  assumes "LENGTH('a) = 8 * n"
  shows "le_word (le_bytes n w) = (w :: 'a::len word)"
proof (rule bit_word_eqI)
  fix k assume "k < LENGTH('a)"
  then have "k div 8 < n" "8 * (k div 8) + k mod 8 = k"
    using assms by (simp_all add: less_mult_imp_div_less mult.commute)
  with \<open>k < LENGTH('a)\<close> show "bit (le_word (le_bytes n w) :: 'a word) k = bit w k"
    by (simp add: bitwise)
qed

lemma word_eq_by_bytes:
  assumes "LENGTH('a) = 8 * n" "\<And>i. i < n \<Longrightarrow> byte_at v i = byte_at w i"
  shows "v = (w :: 'a::len word)"
proof -
  have "le_bytes n v = le_bytes n w"
    using assms(2) by (simp add: le_bytes_def)
  then show ?thesis
    using le_word_le_bytes [OF assms(1)] by metis
qed

section \<open>Masked updates\<close>

definition merge_mask :: "'a::len word \<Rightarrow> 'a word \<Rightarrow> 'a word \<Rightarrow> 'a word" where
  "merge_mask old new m = (old AND NOT m) OR (new AND m)"

lemma bit_merge_mask [bitwise]:
  "bit (merge_mask old new m) n \<longleftrightarrow> (if bit m n then bit new n else bit (old :: 'a::len word) n)"
  by (auto simp: merge_mask_def bit_or_iff bit_and_iff bit_not_iff dest: bit_imp_le_length)

lemma merge_mask_zero [simp]: "merge_mask old new 0 = old"
  by (simp add: merge_mask_def)

lemma merge_mask_full [simp]: "merge_mask old new (- 1) = new"
  by (simp add: merge_mask_def)

lemma merge_mask_twice:
  "merge_mask (merge_mask w x m) y n = merge_mask w (merge_mask x y n) (m OR n)"
  by (rule bit_word_eqI) (auto simp: bitwise bit_or_iff)

lemma merge_mask_commute:
  "m AND n = 0 \<Longrightarrow>
     merge_mask (merge_mask w x m) y n = merge_mask (merge_mask w y n) x (m :: 'a::len word)"
  by (rule bit_word_eqI) (metis bit_and_iff bit_merge_mask bit_0_eq bot_apply bot_bool_def)

section \<open>Aligned addresses\<close>

text \<open>An address splits into its aligned base and its offset in the block of \<open>2 ^ n\<close> bytes.\<close>

lemma mask_split: "(a AND NOT (mask n)) + (a AND mask n) = (a :: 'a::len word)"
proof -
  have "(a AND NOT (mask n)) AND (a AND mask n) = 0"
    by (rule bit_word_eqI) (auto simp: bit_simps)
  then have "(a AND NOT (mask n)) + (a AND mask n) = (a AND NOT (mask n)) OR (a AND mask n)"
    by (rule disjunctive_add_eq_or)
  also have "\<dots> = a"
    by (rule bit_word_eqI) (auto simp: bit_simps)
  finally show ?thesis .
qed

lemma and_not_mask_mask: "m \<le> n \<Longrightarrow> (a AND NOT (mask n)) AND mask m = (0 :: 'a::len word)"
  by (rule bit_word_eqI) (auto simp: bit_simps)

lemma less_exp_and_mask: "n < LENGTH('a) \<Longrightarrow> unat d < 2 ^ n \<Longrightarrow> d AND mask n = (d :: 'a::len word)"
  by (metis take_bit_eq_mask take_bit_nat_eq_self unsigned_take_bit_eq word_unat_eq_iff)

lemma unat_and_mask_less: "n < LENGTH('a) \<Longrightarrow> unat (a AND mask n :: 'a::len word) < 2 ^ n"
  by (simp flip: take_bit_eq_mask add: unsigned_take_bit_eq)

lemma aligned_plus_mask:
  assumes "addr AND mask n = (0 :: 'a::len word)" "d AND mask n = d"
  shows "(addr + d) AND NOT (mask n) = addr" "(addr + d) AND mask n = d"
proof -
  have bits: "\<not> bit addr k" if "k < n" "k < LENGTH('a)" for k
    proof -
    have "\<not> bit (addr AND mask n) k" using assms(1) by simp
    then show ?thesis using that by (simp add: bit_simps)
  qed
  have bitd: "bit d k \<Longrightarrow> k < n" for k
    using assms(2) by (metis bit_and_iff bit_mask_iff)
  have "addr AND d = 0"
    by (rule bit_word_eqI) (use bits bitd in \<open>auto simp: bit_simps\<close>)
  then have "addr + d = addr OR d" by (rule disjunctive_add_eq_or)
  then show "(addr + d) AND NOT (mask n) = addr" "(addr + d) AND mask n = d"
    using bits bitd by (auto intro!: bit_word_eqI simp: bit_simps)
qed

lemma aligned_base_iff:
  assumes "addr AND mask n = (0 :: 'a::len word)" "n < LENGTH('a)"
  shows "a AND NOT (mask n) = addr \<longleftrightarrow> unat (a - addr) < 2 ^ n"
proof
  assume "a AND NOT (mask n) = addr"
  then have "a - addr = a AND mask n"
    using mask_split [of a n] by (metis add_diff_cancel_left')
  then show "unat (a - addr) < 2 ^ n"
    by (simp add: unat_and_mask_less [OF assms(2)])
next
  assume "unat (a - addr) < 2 ^ n"
  then have "(a - addr) AND mask n = a - addr"
    by (rule less_exp_and_mask [OF assms(2)])
  then show "a AND NOT (mask n) = addr"
    using aligned_plus_mask(1) [OF assms(1), of "a - addr"] by simp
qed

lemma aligned_offset:
  assumes "addr AND mask n = (0 :: 'a::len word)" "n < LENGTH('a)" "unat (a - addr) < 2 ^ n"
  shows "a AND mask n = a - addr"
  using aligned_plus_mask(2) [OF assms(1) less_exp_and_mask [OF assms(2,3)]] by simp
lemma unat_less_exp: "unat (w :: 'a::len word) < 2 ^ LENGTH('a)"
  by simp

lemma aligned_add:
  assumes "addr AND mask n = (0 :: 'a::len word)" "k AND mask n = 0" "n \<le> LENGTH('a)"
  shows "(addr + k) AND mask n = 0"
proof -
  have "2 ^ n dvd unat addr + unat k" "(2 ^ n :: nat) dvd 2 ^ LENGTH('a)"
    using assms by (simp_all add: and_mask_dvd_nat le_imp_power_dvd)
  then have "2 ^ n dvd unat (addr + k)"
    by (simp add: unat_word_ariths dvd_mod)
  then show ?thesis by (simp add: and_mask_dvd_nat)
qed

lemma and_mask_mod: "a AND mask n = (a :: 'a::len word) mod 2 ^ n"
  using take_bit_eq_mask [of n a] take_bit_eq_mod [of n a] by simp

lemma unat_diff_shift:
  fixes a addr :: "'a::len word"
  assumes "n < 2 ^ LENGTH('a)"
  shows "unat (a - (addr + of_nat n)) =
      (if n \<le> unat (a - addr) then unat (a - addr) - n else 2 ^ LENGTH('a) + unat (a - addr) - n)"
proof -
  have "unat (of_nat n :: 'a word) = n"
    using assms by (simp add: unat_of_nat)
  then have "unat (d - of_nat n) = (if n \<le> unat d then unat d - n else 2 ^ LENGTH('a) + unat d - n)"
    for d :: "'a word"
    by (simp add: unat_sub_if_size word_size add.commute)
  moreover have "a - (addr + of_nat n) = (a - addr) - of_nat n"
    by simp
  ultimately show ?thesis by metis
qed

lemma segment_join:
  fixes a addr :: "'a::len word"
  assumes "n1 + n2 \<le> 2 ^ LENGTH('a)"
  shows "(if unat (a - (addr + of_nat n1)) < n2 then f (n1 + unat (a - (addr + of_nat n1)))
          else if unat (a - addr) < n1 then f (unat (a - addr)) else x) =
         (if unat (a - addr) < n1 + n2 then f (unat (a - addr)) else x)"
proof (cases "n2 = 0")
  case True
  then show ?thesis by simp
next
  case False
  then have "n1 < 2 ^ LENGTH('a)" using assms by simp
  show ?thesis
    unfolding unat_diff_shift [OF \<open>n1 < 2 ^ LENGTH('a)\<close>] using assms by auto
qed

section \<open>Loops over an index range\<close>

text \<open>\<^verbatim>\<open>for (i = 0; i < n; i++) s = f(i, s)\<close>, and the same loop with a body that can fail.\<close>

definition for_upto :: "nat \<Rightarrow> (nat \<Rightarrow> 's \<Rightarrow> 's) \<Rightarrow> 's \<Rightarrow> 's" where
  "for_upto n f s = fold f [0..<n] s"

lemma for_upto_0 [simp]: "for_upto 0 f s = s"
  by (simp add: for_upto_def)

lemma for_upto_Suc [simp]: "for_upto (Suc n) f s = f n (for_upto n f s)"
  by (simp add: for_upto_def)

primrec for_res :: "(nat \<Rightarrow> 's \<Rightarrow> 's res) \<Rightarrow> nat list \<Rightarrow> 's \<Rightarrow> 's res" where
  "for_res f [] s = Inr s"
| "for_res f (i # is) s = res_bind (f i s) (for_res f is)"

lemma for_res_append: "for_res f (xs @ ys) s = res_bind (for_res f xs s) (for_res f ys)"
  by (induction xs arbitrary: s) (auto simp: res_bind_def split: sum.splits)

lemma for_res_invariant:
  assumes "\<And>i s. i \<in> set is \<Longrightarrow> P i s \<Longrightarrow> \<exists>s'. f i s = Inr s' \<and> P (Suc i) s'"
    and "is = [a..<b]" "a \<le> b" "P a s"
  shows "\<exists>s'. for_res f is s = Inr s' \<and> P b s'"
  using assms
proof (induction "is" arbitrary: a s)
  case Nil
  then have "[a..<b] = []" by simp
  then have "b \<le> a" by (auto simp: upt_eq_Nil_conv)
  with Nil have "a = b" by simp
  with Nil show ?case by simp
next
  case (Cons i "is")
  then have i: "i = a" "is = [Suc a..<b]" "a < b"
    by (metis list.inject upt_conv_Cons not_less list.distinct(1) upt_conv_Nil le_antisym)+
  obtain s1 where s1: "f a s = Inr s1" "P (Suc a) s1"
    using Cons.prems(1) [of a s] Cons.prems(4) i by auto
  have "\<exists>s'. for_res f is s1 = Inr s' \<and> P b s'"
    using Cons.prems(1) i s1 by (intro Cons.IH) auto
  then show ?case using s1 i by simp
qed

section \<open>\<^verbatim>\<open>std::map\<close>\<close>

text \<open>
  A \<^verbatim>\<open>std::map\<close> iterates in key order, so it is an association list in key order:
  \<open>map_set\<close> is \<^verbatim>\<open>m[k] = v\<close>, \<open>map_insert\<close> is \<^verbatim>\<open>m.insert\<close> (no effect on a present key),
  \<open>map_find\<close> is \<^verbatim>\<open>m.find\<close> and \<open>map_index\<close> is the value of \<^verbatim>\<open>m[k]\<close>, which first inserts
  a zero value when the key is absent.
\<close>

type_synonym ('k, 'v) std_map = "('k \<times> 'v) list"

abbreviation map_find :: "('k, 'v) std_map \<Rightarrow> 'k \<Rightarrow> 'v option" where
  "map_find \<equiv> map_of"

fun map_set :: "'k::linorder \<Rightarrow> 'v \<Rightarrow> ('k, 'v) std_map \<Rightarrow> ('k, 'v) std_map" where
  "map_set k v [] = [(k, v)]"
| "map_set k v ((k', v') # m) =
     (if k < k' then (k, v) # (k', v') # m
      else if k = k' then (k, v) # m
      else (k', v') # map_set k v m)"

definition map_insert :: "'k::linorder \<Rightarrow> 'v \<Rightarrow> ('k, 'v) std_map \<Rightarrow> ('k, 'v) std_map" where
  "map_insert k v m = (case map_find m k of None \<Rightarrow> map_set k v m | Some _ \<Rightarrow> m)"

definition map_erase :: "'k \<Rightarrow> ('k, 'v) std_map \<Rightarrow> ('k, 'v) std_map" where
  "map_erase k m = filter (\<lambda>p. fst p \<noteq> k) m"

definition map_index ::
  "'v \<Rightarrow> ('k::linorder, 'v) std_map \<Rightarrow> 'k \<Rightarrow> 'v \<times> ('k, 'v) std_map" where
  "map_index z m k = (case map_find m k of Some v \<Rightarrow> (v, m) | None \<Rightarrow> (z, map_set k z m))"

definition map_wf :: "('k::linorder, 'v) std_map \<Rightarrow> bool" where
  "map_wf m \<longleftrightarrow> sorted (map fst m) \<and> distinct (map fst m)"

lemma map_find_set [lookups, simp]:
  "map_find (map_set k v m) k' = (if k' = k then Some v else map_find m k')"
  by (induction k v m rule: map_set.induct) auto

lemma map_find_erase [lookups, simp]:
  "map_find (map_erase k m) k' = (if k' = k then None else map_find m k')"
  by (induction m) (auto simp: map_erase_def)

lemma map_find_insert [lookups]:
  "map_find (map_insert k v m) k' =
     (if k' = k \<and> map_find m k = None then Some v else map_find m k')"
  by (auto simp: map_insert_def split: option.splits)

lemma keys_map_set: "fst ` set (map_set k v m) = insert k (fst ` set m)"
  by (induction k v m rule: map_set.induct) auto

lemma map_wf_Nil [simp]: "map_wf []"
  by (simp add: map_wf_def)

lemma map_wf_Cons:
  "map_wf ((k, v) # m) \<longleftrightarrow> map_wf m \<and> (\<forall>k' \<in> fst ` set m. k < k')"
  by (auto simp: map_wf_def order.strict_iff_order image_iff)

lemma map_wf_set [intro, simp]: "map_wf m \<Longrightarrow> map_wf (map_set k v m)"
  by (induction k v m rule: map_set.induct) (fastforce simp: map_wf_Cons keys_map_set)+

lemma map_wf_insert [intro, simp]: "map_wf m \<Longrightarrow> map_wf (map_insert k v m)"
  by (simp add: map_insert_def split: option.splits)

lemma map_wf_erase [intro, simp]: "map_wf m \<Longrightarrow> map_wf (map_erase k m)"
  by (auto simp: map_wf_def map_erase_def sorted_filter distinct_map_filter)

text \<open>Maps in key order are equal as soon as their lookups agree.\<close>

lemma map_wf_ext:
  assumes "map_wf m" "map_wf m'" "map_find m = map_find m'"
  shows "m = m'"
proof -
  have "set m = set m'"
    using assms by (metis map_of_inject_set map_wf_def)
  moreover have "sorted_list_of_set (fst ` set m) = map fst m" if "map_wf m" for m :: "('a, 'b) std_map"
    using that by (metis list.set_map map_wf_def sorted_list_of_set.idem_if_sorted_distinct)
  ultimately have "map fst m = map fst m'"
    using assms by metis
  with \<open>set m = set m'\<close> show ?thesis
    using assms by (metis inj_on_map_eq_map map_wf_def distinct_map inj_on_Un sup.idem)
qed

end
