(* ===== verification/Perfect_Memory.thy ===== *)
theory Perfect_Memory
  imports Prelude
begin

text \<open>
  The simulator's memory, \<^verbatim>\<open>simulator/models/cxx/dpi_perfect_memory.cpp\<close>: the class
  \<^verbatim>\<open>Memory32\<close> of 32-bit words in a \<^verbatim>\<open>std::map\<close>, and the DPI calls the design makes on the
  global memory: reads and writes of a 512-bit bus line, atomic operations and symbol lookups.
  The warnings printed under \<^verbatim>\<open>debug_read\<close> are not modelled.
\<close>

section \<open>The class \<^verbatim>\<open>Memory32\<close>\<close>

record memory32 =
  mem :: "(u32, u32) std_map"
  addr_max :: u32

definition Memory32_bounded :: "u32 \<Rightarrow> memory32" where
  "Memory32_bounded amax = \<lparr>mem = [], addr_max = amax\<rparr>"

definition Memory32 :: memory32 where
  "Memory32 = \<lparr>mem = [], addr_max = 0\<rparr>"

definition memory32_init :: "memory32 \<Rightarrow> u32 \<Rightarrow> u32 \<Rightarrow> memory32" where
  "memory32_init m addr data = m\<lparr>mem := map_set addr data (mem m)\<rparr>"

definition mem_word :: "memory32 \<Rightarrow> u32 \<Rightarrow> u32" where
  "mem_word m addr = (case map_find (mem m) addr of Some d \<Rightarrow> d | None \<Rightarrow> 0)"

definition write_lane :: "u32 \<Rightarrow> u32 \<Rightarrow> nat \<Rightarrow> u32 \<Rightarrow> u32" where
  "write_lane data msk i data_m =
     (if msk AND push_bit i 1 \<noteq> 0
      then (data_m AND NOT (push_bit (i * 8) 0xff)) OR (data AND push_bit (i * 8) 0xff)
      else data_m)"

definition memory32_write :: "memory32 \<Rightarrow> u32 \<Rightarrow> u32 \<Rightarrow> u32 \<Rightarrow> (bool \<times> memory32) res" where
  "memory32_write m addr data msk =
     (if addr AND 0x3 \<noteq> 0 then Inl AssertFailed
      else if addr_max m \<noteq> 0 \<and> addr_max m \<le> addr then Inr (False, m)
      else Inr (True, m\<lparr>mem := map_set addr
             (for_upto 4 (write_lane data msk) (mem_word m addr)) (mem m)\<rparr>))"

definition memory32_read :: "memory32 \<Rightarrow> u32 \<Rightarrow> (bool \<times> u32) res" where
  "memory32_read m addr =
     (if addr AND 0x3 \<noteq> 0 then Inl AssertFailed
      else if addr_max m \<noteq> 0 \<and> addr_max m \<le> addr \<or> map_find (mem m) addr = None
      then Inr (False, 0)
      else Inr (True, mem_word m addr))"

definition max_addr :: "memory32 \<Rightarrow> u32" where
  "max_addr m = addr_max m"

text \<open>
  The buffer of a block write is a pointer into the mapped file: \<open>buf p\<close> is the byte at
  displacement \<open>p\<close>, and \<open>load32\<close> the unaligned 32-bit load the code makes through a cast.
  The displacement may be negative or past the end of the block; \<open>write_block_bytes\<close> below
  shows that no such byte reaches the memory.
\<close>

definition load32 :: "(int \<Rightarrow> u8) \<Rightarrow> int \<Rightarrow> u32" where
  "load32 buf p = le_word [buf p, buf (p + 1), buf (p + 2), buf (p + 3)]"

definition write_block_prologue ::
  "memory32 \<Rightarrow> u32 \<Rightarrow> u32 \<Rightarrow> (int \<Rightarrow> u8) \<Rightarrow> (memory32 \<times> u32 \<times> u32 \<times> int) res" where
  "write_block_prologue m addr sz buf =
     (let offset = addr mod 4 in
      if offset = 0 then Inr (m, addr, sz, 0)
      else
        let m_size = 4 - offset;
            msk = drop_bit (if sz < m_size then unat (m_size - sz) else 0) 0xf;
            m_size = (if sz < m_size then sz else m_size);
            msk = push_bit (unat offset) msk
        in res_bind (memory32_write m (addr - offset) (load32 buf (- int (unat offset))) msk)
             (\<lambda>(_, m'). Inr (m', addr + m_size, sz - m_size, int (unat m_size))))"

function write_block_loop ::
  "memory32 \<Rightarrow> u32 \<Rightarrow> u32 \<Rightarrow> (int \<Rightarrow> u8) \<Rightarrow> int \<Rightarrow> (memory32 \<times> u32 \<times> u32 \<times> int) res" where
  "write_block_loop m addr sz buf p =
     (if 4 \<le> sz
      then res_bind (memory32_write m addr (load32 buf p) 0xf)
             (\<lambda>(_, m'). write_block_loop m' (addr + 4) (sz - 4) buf (p + 4))
      else Inr (m, addr, sz, p))"
  by pat_completeness auto
termination
  by (relation "measure (\<lambda>(m, addr, sz, buf, p). unat sz)")
    (auto simp: word_le_nat_alt unat_sub)

declare write_block_loop.simps [simp del]

definition write_block_epilogue ::
  "memory32 \<Rightarrow> u32 \<Rightarrow> u32 \<Rightarrow> (int \<Rightarrow> u8) \<Rightarrow> int \<Rightarrow> memory32 res" where
  "write_block_epilogue m addr sz buf p =
     (if sz \<noteq> 0
      then res_bind (memory32_write m addr (load32 buf p) (push_bit (unat sz) 1 - 1))
             (\<lambda>(_, m'). Inr m')
      else Inr m)"

definition write_block :: "memory32 \<Rightarrow> u32 \<Rightarrow> u32 \<Rightarrow> (int \<Rightarrow> u8) \<Rightarrow> memory32 res" where
  "write_block m addr sz buf =
     res_bind (write_block_prologue m addr sz buf) (\<lambda>(m, addr, sz, p).
     res_bind (write_block_loop m addr sz buf p) (\<lambda>(m, addr, sz, p).
     write_block_epilogue m addr sz buf p))"

section \<open>The byte view of the memory\<close>

text \<open>The byte the design sees at byte address \<open>a\<close>; memory that was never written reads 0.\<close>

definition mem_byte :: "memory32 \<Rightarrow> u32 \<Rightarrow> u8" where
  "mem_byte m a = byte_at (mem_word m (a AND NOT 3)) (unat (a AND 3))"

lemma mask2 [simp]: "mask 2 = (3 :: u32)"
  by (simp add: mask_eq_exp_minus_1)

lemma bit_write_lane:
  assumes "i < 4"
  shows "bit (write_lane data m i w) n \<longleftrightarrow> (if bit m i \<and> n div 8 = i then bit data n else bit w n)"
proof -
  have m: "m AND push_bit i 1 \<noteq> 0 \<longleftrightarrow> bit m i"
    by (rule bit_iff_and_push_bit_not_eq_0 [symmetric])
  have "n div 8 = i \<longleftrightarrow> i * 8 \<le> n \<and> n - i * 8 < 8" by auto
  then have "bit (push_bit (i * 8) (mask 8 :: u32)) n \<longleftrightarrow> n < 32 \<and> n div 8 = i"
    using assms by (auto simp: bit_simps)
  then have f: "bit (push_bit (i * 8) (0xff :: u32)) n \<longleftrightarrow> n < 32 \<and> n div 8 = i"
    by (simp add: mask_eq_exp_minus_1)
  show ?thesis
    unfolding write_lane_def m using f by (auto simp: bit_simps dest: bit_imp_le_length)
qed

lemma bit_write_lanes:
  "k \<le> 4 \<Longrightarrow> bit (for_upto k (write_lane data m) w) n \<longleftrightarrow>
     (if n div 8 < k \<and> bit m (n div 8) then bit data n else bit w n)"
  by (induction k) (auto simp: bit_write_lane less_Suc_eq)

lemma byte_at_write_lanes:
  assumes "i < 4"
  shows "byte_at (for_upto 4 (write_lane data m) w) i = (if bit m i then byte_at data i else byte_at w i)"
proof (rule bit_word_eqI)
  fix n assume "n < LENGTH(8)"
  then have "(8 * i + n) div 8 = i" by simp
  then show "bit (byte_at (for_upto 4 (write_lane data m) w) i) n =
      bit (if bit m i then byte_at data i else byte_at w i) n"
    using assms by (simp add: bitwise bit_write_lanes)
qed

lemma memory32_write_ok:
  assumes "addr AND 3 = 0" "addr_max m = 0"
  obtains m' where "memory32_write m addr data msk = Inr (True, m')"
    "addr_max m' = 0"
    "\<And>a. mem_byte m' a =
       (if unat (a - addr) < 4 \<and> bit msk (unat (a - addr)) then byte_at data (unat (a - addr)) else mem_byte m a)"
proof -
  define m' where "m' = m\<lparr>mem := map_set addr (for_upto 4 (write_lane data msk) (mem_word m addr)) (mem m)\<rparr>"
  have w: "mem_word m' b = (if b = addr then for_upto 4 (write_lane data msk) (mem_word m addr) else mem_word m b)" for b
    by (simp add: m'_def mem_word_def)
  have "mem_byte m' a =
       (if unat (a - addr) < 4 \<and> bit msk (unat (a - addr)) then byte_at data (unat (a - addr)) else mem_byte m a)" for a
    using aligned_base_iff [of addr 2 a] aligned_offset [of addr 2 a] assms(1)
    by (auto simp: mem_byte_def w byte_at_write_lanes)
  moreover have "memory32_write m addr data msk = Inr (True, m')" "addr_max m' = 0"
    using assms by (simp_all add: memory32_write_def m'_def)
  ultimately show thesis using that by blast
qed

definition stored :: "memory32 \<Rightarrow> u32 \<Rightarrow> nat \<Rightarrow> (nat \<Rightarrow> u8) \<Rightarrow> memory32 \<Rightarrow> bool" where
  "stored m addr n f m' \<longleftrightarrow> addr_max m = 0 \<and> addr_max m' = 0 \<and>
     (\<forall>a. mem_byte m' a = (if unat (a - addr) < n then f (unat (a - addr)) else mem_byte m a))"

lemma stored_none: "addr_max m = 0 \<Longrightarrow> stored m addr 0 f m"
  by (simp add: stored_def)

lemma stored_trans:
  assumes "stored m addr n1 f m1" "stored m1 (addr + of_nat n1) n2 (\<lambda>i. f (n1 + i)) m2" "n1 + n2 \<le> 2 ^ 32"
  shows "stored m addr (n1 + n2) f m2"
proof -
  have "mem_byte m2 a = (if unat (a - addr) < n1 + n2 then f (unat (a - addr)) else mem_byte m a)" for a
  proof -
    have "mem_byte m2 a = (if unat (a - (addr + of_nat n1)) < n2 then f (n1 + unat (a - (addr + of_nat n1)))
        else if unat (a - addr) < n1 then f (unat (a - addr)) else mem_byte m a)"
      using assms(1,2) unfolding stored_def by metis
    also have "\<dots> = (if unat (a - addr) < n1 + n2 then f (unat (a - addr)) else mem_byte m a)"
      by (rule segment_join) (use assms(3) in simp)
    finally show ?thesis .
  qed
  then show ?thesis
    using assms(1,2) by (simp add: stored_def)
qed

lemma byte_at_load32: "i < 4 \<Longrightarrow> byte_at (load32 buf p) i = buf (p + int i)"
  using byte_at_le_word [of i "[buf p, buf (p + 1), buf (p + 2), buf (p + 3)]", where 'a = 32]
  by (auto simp: load32_def less_Suc_eq numeral_eq_Suc)

lemma stored_write:
  assumes "(addr - of_nat k) AND 3 = 0" "addr_max m = 0" "k + n \<le> 4"
    and "\<And>i. i < 4 \<Longrightarrow> bit msk i \<longleftrightarrow> k \<le> i \<and> i < k + n"
  obtains m' where "memory32_write m (addr - of_nat k) (load32 buf p) msk = Inr (True, m')"
    "stored m addr n (\<lambda>i. buf (p + int (k + i))) m'"
proof -
  let ?b = "addr - of_nat k :: u32"
  obtain m' where w: "memory32_write m ?b (load32 buf p) msk = Inr (True, m')" and ax: "addr_max m' = 0"
    and byt: "\<And>a. mem_byte m' a = (if unat (a - ?b) < 4 \<and> bit msk (unat (a - ?b))
       then byte_at (load32 buf p) (unat (a - ?b)) else mem_byte m a)"
    using memory32_write_ok [OF assms(1,2)] by metis
  have "mem_byte m' a = (if unat (a - addr) < n then buf (p + int (k + unat (a - addr))) else mem_byte m a)" for a
  proof -
    have k: "unat (of_nat k :: u32) = k" using assms(3) by (simp add: unat_of_nat)
    have "a - ?b = (a - addr) + of_nat k" by simp
    then have "unat (a - ?b) = unat ((a - addr) + of_nat k)" by (rule arg_cong)
    then have "unat (a - ?b) = (if unat (a - addr) + k < 2 ^ 32 then unat (a - addr) + k
        else unat (a - addr) + k - 2 ^ 32)"
      using unat_plus_if_size [of "a - addr" "of_nat k :: u32"] unfolding word_size k by simp
    moreover have "unat (a - addr) < 2 ^ 32" using unat_less_exp [of "a - addr"] by simp
    ultimately have "(unat (a - ?b) < 4 \<and> k \<le> unat (a - ?b) \<and> unat (a - ?b) < k + n) = (unat (a - addr) < n)"
      "unat (a - addr) < n \<Longrightarrow> unat (a - ?b) = k + unat (a - addr)"
      using assms(3) by (auto split: if_splits)
    then show ?thesis
      unfolding byt using assms(4) byte_at_load32 [of _ buf p] by auto
  qed
  then have "stored m addr n (\<lambda>i. buf (p + int (k + i))) m'"
    using assms(2) ax by (simp add: stored_def)
  with w show thesis using that by blast
qed

lemma write_block_loop_stored:
  assumes "addr AND 3 = 0" "addr_max m = 0"
  shows "\<exists>m' addr' sz' p'. write_block_loop m addr sz buf p = Inr (m', addr', sz', p') \<and>
     unat sz' = unat sz mod 4 \<and> addr' = addr + of_nat (4 * (unat sz div 4)) \<and>
     p' = p + int (4 * (unat sz div 4)) \<and>
     stored m addr (4 * (unat sz div 4)) (\<lambda>i. buf (p + int i)) m'"
  using assms
proof (induction m addr sz buf p rule: write_block_loop.induct)
  case (1 m addr sz buf p)
  show ?case
  proof (cases "4 \<le> sz")
    case False
    then have "unat sz < 4" by (simp add: word_le_nat_alt)
    with False 1(3) show ?thesis
      by (simp add: write_block_loop.simps [of m addr sz] stored_none)
  next
    case True
    have b: "bit (0xf :: u32) i \<longleftrightarrow> i < 4" for i
      by (auto simp: less_Suc_eq numeral_eq_Suc bit_Suc dest: bit_imp_le_length) 
    obtain m1 where m1: "memory32_write m addr (load32 buf p) 0xf = Inr (True, m1)"
      "stored m addr 4 (\<lambda>i. buf (p + int i)) m1"
      using stored_write [of addr 0 m 4 "0xf" buf p] 1(2,3) b by auto
    have al: "(addr + 4) AND 3 = 0"
      using aligned_add [of addr 2 4] 1(2) by simp
    have u: "unat (sz - 4) = unat sz - 4" "4 \<le> unat sz"
      using True by (simp_all add: unat_sub word_le_nat_alt)
    obtain m' addr' sz' p' where r: "write_block_loop m1 (addr + 4) (sz - 4) buf (p + 4) = Inr (m', addr', sz', p')"
      "unat sz' = unat (sz - 4) mod 4" "addr' = addr + 4 + of_nat (4 * (unat (sz - 4) div 4))"
      "p' = p + 4 + int (4 * (unat (sz - 4) div 4))"
      "stored m1 (addr + 4) (4 * (unat (sz - 4) div 4)) (\<lambda>i. buf (p + 4 + int i)) m'"
      using 1(1) [OF True] al m1(2) unfolding stored_def by fastforce
    have n: "4 * (unat sz div 4) = 4 + 4 * (unat (sz - 4) div 4)" 
      using u by (simp add: u le_div_geq)
    have "stored m addr (4 * (unat sz div 4)) (\<lambda>i. buf (p + int i)) m'"
      unfolding n using m1(2) r(5) unat_less_exp [of sz] u
      by (intro stored_trans) (auto simp: add.assoc)
    then show ?thesis
      using True m1(1) r(1-4) u n by (simp add: write_block_loop.simps [of m addr sz] le_mod_geq)
  qed
qed

text \<open>
  The length of the block that reaches the memory. A block that starts unaligned and ends inside
  its first word is written too long: the mask is shifted by the offset after it was sized.
\<close>

definition block_len :: "u32 \<Rightarrow> u32 \<Rightarrow> nat" where
  "block_len addr sz =
     (let k = unat addr mod 4 in
      if k \<noteq> 0 \<and> unat sz < 4 - k then min (4 - k) (k + unat sz) else unat sz)"

lemma write_block_epilogue_stored:
  assumes "addr AND 3 = 0" "addr_max m = 0" "unat sz < 4"
  shows "\<exists>m'. write_block_epilogue m addr sz buf p = Inr m' \<and> stored m addr (unat sz) (\<lambda>i. buf (p + int i)) m'"
proof (cases "sz = 0")
  case True
  then show ?thesis using assms by (simp add: write_block_epilogue_def stored_none)
next
  case False
  have "bit (push_bit (unat sz) 1 - 1 :: u32) i \<longleftrightarrow> i < unat sz" if "i < 4" for i
    using assms(3) that by (simp flip: mask_eq_exp_minus_1 add: bit_mask_iff)
  then obtain m' where "memory32_write m addr (load32 buf p) (push_bit (unat sz) 1 - 1) = Inr (True, m')"
    "stored m addr (unat sz) (\<lambda>i. buf (p + int i)) m'"
    using stored_write [of addr 0 m "unat sz" "push_bit (unat sz) 1 - 1" buf p] assms by auto
  then show ?thesis using False by (simp add: write_block_epilogue_def)
qed

lemma prologue_mask_bit:
  "i < 4 \<Longrightarrow> bit (push_bit k (drop_bit j (0xf :: u32))) i \<longleftrightarrow> k \<le> i \<and> i < k + (4 - j)"
proof -
  assume "i < 4"
  have "bit (push_bit k (drop_bit j (mask 4 :: u32))) i \<longleftrightarrow> k \<le> i \<and> i < k + (4 - j)"
    using \<open>i < 4\<close> by (auto simp: bit_simps)
  then show ?thesis by (simp add: mask_eq_exp_minus_1)
qed

lemma aligned_sub: "(addr - of_nat (unat addr mod 4)) AND 3 = (0 :: u32)"
proof -
  have "of_nat (unat addr mod 4) = addr AND mask 2"
    unfolding and_mask_mod by (simp add: word_unat_eq_iff unat_of_nat unat_mod_distrib)
  then have "addr - of_nat (unat addr mod 4) = addr AND NOT (mask 2)"
    using mask_split [of addr 2] by (metis add_diff_cancel_right')
  moreover have "(addr AND NOT (mask 2)) AND mask 2 = 0"
    by (rule bit_word_eqI) (auto simp: bit_simps)
  ultimately show ?thesis by simp
qed

lemma write_block_prologue_stored:
  fixes addr sz :: u32
  assumes "addr_max m = 0" "k = unat addr mod 4" "n = (if k = 0 then 0 else min (unat sz) (4 - k))"
  shows "\<exists>m'. write_block_prologue m addr sz buf = Inr (m', addr + of_nat n, sz - of_nat n, int n) \<and>
     stored m addr (if unat sz = n then block_len addr sz else n) (\<lambda>i. buf (int i)) m'"
proof -
  have km: "unat (addr mod 4) = k" "k < 4" 
    by (simp_all add: assms(2) unat_mod_distrib)
  show ?thesis
  proof (cases "k = 0")
    case True
    then have "addr mod 4 = 0" using km by (simp add: unat_eq_zero)
    then show ?thesis using True assms
      by (auto simp: write_block_prologue_def block_len_def stored_none)
  next
    case False
    define ok where "ok = (of_nat k :: u32)"
    have o: "addr mod 4 = ok" "unat ok = k" "ok \<noteq> 0"
      using km False by (auto simp: ok_def unat_of_nat word_unat_eq_iff)
    have u4: "unat (4 - ok) = 4 - k" using km o by (simp add: unat_sub_if_size word_size)
    have al: "(addr - ok) AND 3 = 0"
      using aligned_sub [of addr] by (simp add: ok_def assms(2))
    define j where "j = (if sz < 4 - ok then unat (4 - ok - sz) else 0)"
    have j: "j = (if unat sz < 4 - k then 4 - k - unat sz else 0)"
      using u4 by (simp add: j_def word_less_nat_alt unat_sub word_le_nat_alt)
    define L where "L = (if unat sz < 4 - k then min (4 - k) (k + unat sz) else 4 - k)"
    have L: "k + L \<le> 4" "\<And>i. i < 4 \<Longrightarrow> bit (push_bit k (drop_bit j (0xf :: u32))) i \<longleftrightarrow> k \<le> i \<and> i < k + L"
      using km(2) False by (auto simp: L_def prologue_mask_bit j)
    obtain m' where m': "memory32_write m (addr - ok) (load32 buf (- int k)) (push_bit k (drop_bit j 0xf)) = Inr (True, m')"
      "stored m addr L (\<lambda>i. buf (- int k + int (k + i))) m'"
      using stored_write [of addr k m L "push_bit k (drop_bit j 0xf)" buf "- int k"] al assms(1) L
      unfolding ok_def by auto
    have L2: "L = (if unat sz = n then block_len addr sz else n)"
      using False by (auto simp: L_def assms(2,3) block_len_def Let_def)
    have nw: "(if sz < 4 - ok then sz else 4 - ok) = of_nat n" "unat (of_nat n :: u32) = n"
      using u4 False assms(3) by (auto simp: word_less_nat_alt word_unat_eq_iff unat_of_nat min_def)
    moreover from nw(2) have "uint (of_nat n :: u32) = int n" by (metis of_nat_unat)
    ultimately show ?thesis
      using m' o False unfolding L2
      by (simp add: write_block_prologue_def Let_def j_def [symmetric])
  qed
qed

lemma write_block_stored:
  assumes "addr_max m = 0"
  shows "\<exists>m'. write_block m addr sz buf = Inr m' \<and> stored m addr (block_len addr sz) (\<lambda>i. buf (int i)) m'"
proof -
  define k where "k = unat addr mod 4"
  define n where "n = (if k = 0 then 0 else min (unat sz) (4 - k))"
  obtain m1 where m1: "write_block_prologue m addr sz buf = Inr (m1, addr + of_nat n, sz - of_nat n, int n)"
    "stored m addr (if unat sz = n then block_len addr sz else n) (\<lambda>i. buf (int i)) m1"
    using write_block_prologue_stored [OF assms k_def n_def] by blast
  have ax: "addr_max m1 = 0" using m1(2) by (simp add: stored_def)
  have nsz: "n \<le> unat sz" by (simp add: n_def)
  then have usz: "unat (sz - of_nat n) = unat sz - n"
    using unat_less_exp [of sz] by (simp add: unat_sub_if_size word_size unat_of_nat)
  show ?thesis
  proof (cases "unat sz = n")
    case True
    then have "sz - of_nat n = 0" using usz by (simp add: unat_eq_zero)
    then show ?thesis
      using m1 True by (simp add: write_block_def write_block_loop.simps write_block_epilogue_def)
  next
    case False
    then have bl: "block_len addr sz = unat sz"
      by (auto simp: block_len_def n_def k_def Let_def)
    have al: "(addr + of_nat n) AND 3 = 0"
    proof (cases "k = 0")
      case True
      then show ?thesis using aligned_sub [of addr] by (simp add: n_def k_def)
    next
      case k: False
      with False have "n = 4 - k" by (auto simp: n_def)
      then have e: "addr + of_nat n = (addr - of_nat k) + 4"
        by (simp add: k_def of_nat_diff)
      show ?thesis unfolding e using aligned_sub [of addr] aligned_add [of "addr - of_nat k" 2 4]
        by (simp add: k_def)
    qed
    let ?n = "4 * (unat (sz - of_nat n) div 4)"
    obtain m2 addr2 sz2 p2 where m2: "write_block_loop m1 (addr + of_nat n) (sz - of_nat n) buf (int n) = Inr (m2, addr2, sz2, p2)"
      "unat sz2 = unat (sz - of_nat n) mod 4" "addr2 = addr + of_nat n + of_nat ?n" "p2 = int n + int ?n"
      "stored m1 (addr + of_nat n) ?n (\<lambda>i. buf (int n + int i)) m2"
      using write_block_loop_stored [OF al ax, of "sz - of_nat n" buf "int n"] by blast
    have "of_nat ?n AND mask 2 = (0 :: u32)"
      unfolding and_mask_dvd_nat [symmetric] unat_of_nat by (simp add: dvd_mod)
    then have al2: "addr2 AND 3 = 0"
      unfolding m2(3) using aligned_add [of "addr + of_nat n" 2 "of_nat ?n"] al by simp
    obtain m3 where m3: "write_block_epilogue m2 addr2 sz2 buf p2 = Inr m3" "stored m2 addr2 (unat sz2) (\<lambda>i. buf (p2 + int i)) m3"
      using write_block_epilogue_stored [OF al2, of m2 sz2 buf p2] m2(2,5) by (auto simp: stored_def)
    have tot: "n + (?n + unat sz2) = unat sz"
      using usz nsz m2(2) by simp
    have "stored m1 (addr + of_nat n) (?n + unat sz2) (\<lambda>i. buf (int (n + i))) m3"
      using m2(3-5) m3(2) tot unat_less_exp [of sz] by (intro stored_trans [of _ _ _ _ m2]) (simp_all add: add.assoc)
    moreover have "stored m addr n (\<lambda>i. buf (int i)) m1"
      using m1(2) False by simp
    ultimately have "stored m addr (n + (?n + unat sz2)) (\<lambda>i. buf (int i)) m3"
      using stored_trans [of m addr n "\<lambda>i. buf (int i)" m1 "?n + unat sz2" m3] tot unat_less_exp [of sz]
      by simp
    then show ?thesis
      using m1(1) m2(1) m3(1) bl tot by (simp add: write_block_def)
  qed
qed
section \<open>The DPI calls on the 512-bit bus\<close>

abbreviation BUS_WORDS :: nat where "BUS_WORDS \<equiv> 16" \<comment> \<open>\<^verbatim>\<open>BUS_WIDTH / 32\<close>\<close>

definition BUS_ADDR_MASK :: u32 where
  "BUS_ADDR_MASK = NOT (push_bit 6 1 - 1)"

definition memory_read :: "memory32 \<Rightarrow> u32 \<Rightarrow> u32 list res" where
  "memory_read m addr =
     (let baseAddress = addr AND BUS_ADDR_MASK in
      for_res (\<lambda>i data. res_bind (memory32_read m (baseAddress + of_nat i * 4))
                          (\<lambda>(_, dataRead). Inr (data @ [dataRead])))
        [0..<BUS_WORDS] [])"

definition memory_write :: "memory32 \<Rightarrow> u32 \<Rightarrow> u32 list \<Rightarrow> u32 list \<Rightarrow> memory32 res" where
  "memory_write m addr byte_enable data =
     (let baseAddress = addr AND BUS_ADDR_MASK in
      for_res (\<lambda>i m.
          if (byte_enable ! (i div 8)) AND push_bit ((i mod 8) * 4) 0xf \<noteq> 0
          then res_bind (memory32_write m (baseAddress + of_nat i * 4) (data ! i)
                          (drop_bit ((i mod 8) * 4) (byte_enable ! (i div 8)) AND 0xf))
                 (\<lambda>(_, m'). Inr m')
          else Inr m)
        [0..<BUS_WORDS] m)"

datatype mem_atomic =
    ATOMIC_ADD | ATOMIC_CLR | ATOMIC_SET | ATOMIC_EOR | ATOMIC_SMAX | ATOMIC_SMIN
  | ATOMIC_UMAX | ATOMIC_UMIN | ATOMIC_SWAP | ATOMIC_LDEX | ATOMIC_STEX

definition amo_op_of :: "u32 \<Rightarrow> mem_atomic option" where
  "amo_op_of op =
     (if op = 0 then Some ATOMIC_ADD
      else if op = 1 then Some ATOMIC_CLR
      else if op = 2 then Some ATOMIC_SET
      else if op = 3 then Some ATOMIC_EOR
      else if op = 4 then Some ATOMIC_SMAX
      else if op = 5 then Some ATOMIC_SMIN
      else if op = 6 then Some ATOMIC_UMAX
      else if op = 7 then Some ATOMIC_UMIN
      else if op = 8 then Some ATOMIC_SWAP
      else if op = 12 then Some ATOMIC_LDEX
      else if op = 13 then Some ATOMIC_STEX
      else None)"

fun amo_result :: "mem_atomic \<Rightarrow> 'a::len word \<Rightarrow> 'a word \<Rightarrow> 'a word" where
  "amo_result ATOMIC_ADD mem_val core_val = mem_val + core_val"
| "amo_result ATOMIC_CLR mem_val core_val = mem_val AND NOT core_val"
| "amo_result ATOMIC_SET mem_val core_val = mem_val OR core_val"
| "amo_result ATOMIC_EOR mem_val core_val = mem_val XOR core_val"
| "amo_result ATOMIC_SMAX mem_val core_val = (if sint mem_val > sint core_val then mem_val else core_val)"
| "amo_result ATOMIC_SMIN mem_val core_val = (if sint mem_val < sint core_val then mem_val else core_val)"
| "amo_result ATOMIC_UMAX mem_val core_val = (if mem_val > core_val then mem_val else core_val)"
| "amo_result ATOMIC_UMIN mem_val core_val = (if mem_val < core_val then mem_val else core_val)"
| "amo_result ATOMIC_SWAP mem_val core_val = core_val"
| "amo_result ATOMIC_LDEX mem_val core_val = mem_val"
| "amo_result ATOMIC_STEX mem_val core_val = core_val"

text \<open>The operands: two words for a doubleword operation, one sign-extended word otherwise.\<close>

definition amo_operands ::
  "memory32 \<Rightarrow> u32 \<Rightarrow> bool \<Rightarrow> u32 list \<Rightarrow> (u64 \<times> u64) res" where
  "amo_operands m addr is_double data =
     (let offset = unat (drop_bit 2 addr mod 16) in
      if is_double
      then res_bind (memory32_read m addr) (\<lambda>(_, data_lo).
           res_bind (memory32_read m (addr + 4)) (\<lambda>(_, data_hi).
           res_bind (require (offset + 1 < length data) OutOfBounds) (\<lambda>_.
           Inr (push_bit 32 (ucast data_hi) OR ucast data_lo,
                push_bit 32 (ucast (data ! (offset + 1))) OR ucast (data ! offset)))))
      else res_bind (memory32_read m addr) (\<lambda>(_, data_lo).
           res_bind (require (offset < length data) OutOfBounds) (\<lambda>_.
           Inr (scast data_lo, scast (data ! offset)))))"

definition memory_amo ::
  "memory32 \<Rightarrow> u32 \<Rightarrow> u32 \<Rightarrow> u32 \<Rightarrow> u32 list \<Rightarrow> (u32 list \<times> memory32) res" where
  "memory_amo m addr sz amo_op data =
     (let is_double = (sz = 3) in
      res_bind (memory_read m addr) (\<lambda>result_ptr.
      res_bind (amo_operands m addr is_double data) (\<lambda>(mem_val, core_val).
      case amo_op_of amo_op of
        None \<Rightarrow> Inl Aborted
      | Some aop \<Rightarrow>
          (let result = amo_result aop mem_val core_val in
           res_bind (memory32_write m addr (ucast (result AND 0xffffffff)) 0xf) (\<lambda>(_, m1).
           if is_double
           then res_bind (memory32_write m1 (addr + 4) (ucast (drop_bit 32 result)) 0xf)
                  (\<lambda>(_, m2). Inr (result_ptr, m2))
           else Inr (result_ptr, m1))))))"

lemma signed_mod:
  fixes x :: int
  assumes "- (2 ^ 31) \<le> x" "x < 2 ^ 31" "n \<ge> 2 ^ 32"
  shows "x mod n = (if x < 0 then x + n else x)"
proof (cases "x < 0")
  case True
  then have "(x + n) mod n = x + n" using assms by (intro mod_pos_pos_trivial) auto
  with True show ?thesis by simp
next
  case False
  then show ?thesis using assms by (simp add: mod_pos_pos_trivial)
qed

lemma sint_scast64: "sint (scast (a :: u32) :: u64) = sint a"
  by (rule sint_up_scast) (simp add: is_up)

lemma scast_less_iff: "(scast (a :: u32) :: u64) < scast b \<longleftrightarrow> a < b"
proof -
  have r: "- (2 ^ 31) \<le> sint w" "sint w < 2 ^ 31" for w :: u32
    using sint_greater_eq [of w] sint_less [of w] by simp_all
  have u64: "uint (scast w :: u64) = sint w mod 2 ^ 64" for w :: u32
    using uint_sint [of "scast w :: u64"] by (simp add: sint_scast64 take_bit_eq_mod)
  have u32: "uint w = sint w mod 2 ^ 32" for w :: u32
    using uint_sint [of w] by (simp add: take_bit_eq_mod)
  show ?thesis
    unfolding word_less_alt u64 using r [of a] r [of b] u32 [of a] u32 [of b]
      signed_mod [of "sint a" "2 ^ 64"] signed_mod [of "sint b" "2 ^ 64"]
      signed_mod [of "sint a" "2 ^ 32"] signed_mod [of "sint b" "2 ^ 32"]
    by (auto split: if_splits)
qed

lemma bit_scast64: "n < 32 \<Longrightarrow> bit (scast (a :: u32) :: u64) n = bit a n"
  by (simp add: bit_simps)

lemma ucast_scast64: "ucast (scast (a :: u32) :: u64) = a"
  by (rule bit_word_eqI) (simp add: bit_simps)

lemma ucast_add64: "ucast (a + b :: u64) = (ucast a + ucast b :: u32)"
  by (simp add: word_unat_eq_iff unsigned_ucast_eq unat_word_ariths take_bit_eq_mod mod_mod_cancel mod_add_eq)

lemma amo_result_scast: "ucast (amo_result aop (scast (a :: u32) :: u64) (scast b)) = amo_result aop a b"
proof (cases aop)
  case ATOMIC_ADD
  then show ?thesis by (simp add: ucast_add64 ucast_scast64)
next
  case ATOMIC_CLR
  show ?thesis unfolding ATOMIC_CLR by (rule bit_word_eqI) (simp add: bit_simps)
next
  case ATOMIC_SET
  show ?thesis unfolding ATOMIC_SET by (rule bit_word_eqI) (simp add: bit_simps)
next
  case ATOMIC_EOR
  show ?thesis unfolding ATOMIC_EOR by (rule bit_word_eqI) (simp add: bit_simps)
qed (simp_all add: ucast_scast64 sint_scast64 scast_less_iff)
lemma bus_base_aligned: "((addr AND BUS_ADDR_MASK) + of_nat i * 4) AND 3 = 0"
proof -
  have "(addr AND BUS_ADDR_MASK) AND mask 2 = 0"
    using and_not_mask_mask [of 2 6 addr] by (simp add: BUS_ADDR_MASK_def mask_eq_exp_minus_1)
  moreover have "(of_nat (i * 4) :: u32) AND mask 2 = 0"
    unfolding and_mask_dvd_nat [symmetric] unat_of_nat by (simp add: dvd_mod)
  ultimately show ?thesis
    using aligned_add [of "addr AND BUS_ADDR_MASK" 2 "of_nat (i * 4)"] by simp
qed

lemma memory32_read_ok:
  "a AND 3 = 0 \<Longrightarrow> addr_max m = 0 \<Longrightarrow>
     memory32_read m a = Inr (map_find (mem m) a \<noteq> None, mem_word m a)"
  by (auto simp: memory32_read_def mem_word_def)

definition bus_line :: "memory32 \<Rightarrow> u32 \<Rightarrow> u32 list" where
  "bus_line m addr = map (\<lambda>i. mem_word m ((addr AND BUS_ADDR_MASK) + of_nat i * 4)) [0..<BUS_WORDS]"

lemma memory_read_line:
  assumes "addr_max m = 0"
  shows "memory_read m addr = Inr (bus_line m addr)"
proof -
  let ?g = "\<lambda>i. mem_word m ((addr AND BUS_ADDR_MASK) + of_nat i * 4)"
  have "\<exists>s'. for_res (\<lambda>i data. res_bind (memory32_read m ((addr AND BUS_ADDR_MASK) + of_nat i * 4))
                          (\<lambda>(_, dataRead). Inr (data @ [dataRead]))) [0..<BUS_WORDS] [] = Inr s'
      \<and> s' = map ?g [0..<BUS_WORDS]"
    by (rule for_res_invariant [where a = 0 and P = "\<lambda>i s. s = map ?g [0..<i]"])
      (simp_all add: memory32_read_ok [OF bus_base_aligned assms])
  then show ?thesis by (simp add: memory_read_def bus_line_def Let_def)
qed

definition bus_byte :: "u32 list \<Rightarrow> nat \<Rightarrow> u8" where
  "bus_byte line d = byte_at (line ! (d div 4)) (d mod 4)"

definition bus_enabled :: "u32 list \<Rightarrow> nat \<Rightarrow> bool" where
  "bus_enabled be d \<longleftrightarrow> bit (be ! (d div 32)) (d mod 32)"

lemma nibble_bit:
  "e < 4 \<Longrightarrow> bit (drop_bit k (w :: u32) AND 0xf) e \<longleftrightarrow> bit w (k + e)"
proof -
  assume e: "e < 4"
  have "bit (drop_bit k w AND mask 4) e \<longleftrightarrow> bit w (k + e)"
    using e by (auto simp: bit_simps)
  then show ?thesis by (simp add: mask_eq_exp_minus_1)
qed

lemma nibble_zero:
  assumes "(w :: u32) AND push_bit k 0xf = 0" "e < 4" 
  shows "\<not> bit w (k + e)"
proof
  assume b: "bit w (k + e)"
  then have "k + e < 32" using bit_imp_le_length by fastforce
  with b assms(2) have "bit (w AND push_bit k (mask 4)) (k + e)"
    by (simp add: bit_simps)
  moreover have "w AND push_bit k (mask 4) = 0"
    using assms(1) by (simp add: mask_eq_exp_minus_1)
  ultimately show False by simp
qed

lemma memory_write_bytes:
  assumes "addr_max m = 0" "b = addr AND BUS_ADDR_MASK"
  shows "\<exists>m'. memory_write m addr be data = Inr m' \<and> addr_max m' = 0 \<and>
    (\<forall>a. mem_byte m' a = (if unat (a - b) < 64 \<and> bus_enabled be (unat (a - b))
                           then bus_byte data (unat (a - b)) else mem_byte m a))"
proof -
  define P where "P = (\<lambda>i m'. addr_max m' = 0 \<and> (\<forall>a. mem_byte m' a =
     (if unat (a - b) < 4 * i \<and> bus_enabled be (unat (a - b)) then bus_byte data (unat (a - b)) else mem_byte m a)))"
  define body where "body = (\<lambda>i m. if (be ! (i div 8)) AND push_bit ((i mod 8) * 4) 0xf \<noteq> 0
          then res_bind (memory32_write m (b + of_nat i * 4) (data ! i)
                          (drop_bit ((i mod 8) * 4) (be ! (i div 8)) AND 0xf))
                 (\<lambda>(_, m'). Inr m')
          else Inr m)"
  have step: "\<exists>s'. body i s = Inr s' \<and> P (Suc i) s'" if i: "i \<in> set [0..<BUS_WORDS]" and s: "P i s" for i s
  proof -
    have sh: "unat (a - (b + of_nat i * 4)) = (if 4 * i \<le> unat (a - b) then unat (a - b) - 4 * i
        else 2 ^ 32 + unat (a - b) - 4 * i)" for a
      using unat_diff_shift [of "i * 4" a b] i by (simp add: mult.commute)
    have pos: "(4 * i + e) div 32 = i div 8" "(4 * i + e) mod 32 = (i mod 8) * 4 + e"
      "(4 * i + e) div 4 = i" "(4 * i + e) mod 4 = e" if "e < 4" for e
      using that div_mult2_eq [of "4 * i + e" 4 8] mod_mult2_eq [of "4 * i + e" 4 8] by simp_all
    have cases: "mem_byte s' a = (if unat (a - b) < 4 * Suc i \<and> bus_enabled be (unat (a - b))
          then bus_byte data (unat (a - b)) else mem_byte m a)"
      if s': "mem_byte s' a = (if unat (a - (b + of_nat i * 4)) < 4 \<and>
            bit (be ! (i div 8)) ((i mod 8) * 4 + unat (a - (b + of_nat i * 4)))
            then byte_at (data ! i) (unat (a - (b + of_nat i * 4))) else mem_byte s a)" for s' a
    proof (cases "4 * i \<le> unat (a - b) \<and> unat (a - b) < 4 * i + 4")
      case True
      then obtain e where e: "unat (a - b) = 4 * i + e" "e < 4"
        using le_Suc_ex by (metis add_less_cancel_left)
      then have "unat (a - (b + of_nat i * 4)) = e" using sh [of a] by simp
      with s' s e pos [of e] show ?thesis
        by (simp add: P_def bus_enabled_def bus_byte_def)
    next
      case False
      then have "\<not> unat (a - (b + of_nat i * 4)) < 4" using sh [of a] i by auto
      with s' s False show ?thesis by (auto simp: P_def)
    qed
    show ?thesis
    proof (cases "(be ! (i div 8)) AND push_bit ((i mod 8) * 4) 0xf = 0")
      case True
      have "mem_byte s a = (if unat (a - b) < 4 * Suc i \<and> bus_enabled be (unat (a - b))
          then bus_byte data (unat (a - b)) else mem_byte m a)" for a
        by (rule cases) (use nibble_zero [OF True] in auto)
      then have "P (Suc i) s"
        using s unfolding P_def by blast
      with True show ?thesis by (simp add: body_def)
    next
      case False
      have ax: "addr_max s = 0" using s by (simp add: P_def)
      have al: "b + of_nat i * 4 AND 3 = 0" using bus_base_aligned assms(2) by simp
      obtain s' where "memory32_write s (b + of_nat i * 4) (data ! i)
          (drop_bit ((i mod 8) * 4) (be ! (i div 8)) AND 0xf) = Inr (True, s')" "addr_max s' = 0"
        "\<And>a. mem_byte s' a = (if unat (a - (b + of_nat i * 4)) < 4 \<and>
           bit (drop_bit ((i mod 8) * 4) (be ! (i div 8)) AND 0xf) (unat (a - (b + of_nat i * 4)))
           then byte_at (data ! i) (unat (a - (b + of_nat i * 4))) else mem_byte s a)"
        using memory32_write_ok [OF al ax, of "data ! i"] by blast
      note w = this
      have "mem_byte s' a = (if unat (a - b) < 4 * Suc i \<and> bus_enabled be (unat (a - b))
          then bus_byte data (unat (a - b)) else mem_byte m a)" for a
        by (rule cases) (simp add: w(3) nibble_bit cong: conj_cong)
      then have "P (Suc i) s'"
        using w(2) unfolding P_def by blast
      with False w(1) show ?thesis by (simp add: body_def)
    qed
  qed
  have "P 0 m" using assms(1) by (simp add: P_def)
  then have "\<exists>s'. for_res body [0..<BUS_WORDS] m = Inr s' \<and> P BUS_WORDS s'"
    using step by (intro for_res_invariant [where a = 0]) auto
  then show ?thesis
    by (simp add: memory_write_def assms(2) [symmetric] body_def P_def)
qed

lemma mem_byte_line:
  assumes "d < 64"
  shows "bus_byte (bus_line m addr) d = mem_byte m ((addr AND BUS_ADDR_MASK) + of_nat d)"
proof -
  define b where "b = addr AND BUS_ADDR_MASK"
  have al: "b + of_nat (d div 4) * 4 AND mask 2 = 0"
    using bus_base_aligned [of addr "d div 4"] by (simp add: b_def)
  have "d = d div 4 * 4 + d mod 4" by simp
  then have e: "b + of_nat d = (b + of_nat (d div 4) * 4) + of_nat (d mod 4)"
    by (metis add.assoc of_nat_add of_nat_mult of_nat_numeral)
  have o: "of_nat (d mod 4) AND mask 2 = (of_nat (d mod 4) :: u32)" "unat (of_nat (d mod 4) :: u32) = d mod 4"
    by (rule less_exp_and_mask) (simp_all add: unat_of_nat)
  have "d div 4 < 16" using assms by simp
  then have "bus_line m addr ! (d div 4) = mem_word m (b + of_nat (d div 4) * 4)"
    by (simp add: bus_line_def b_def)
  then show ?thesis
    unfolding bus_byte_def mem_byte_def b_def [symmetric] e
    using aligned_plus_mask [OF al o(1)] o(2) by simp
qed

text \<open>C3: a bus line read after a bus write returns, byte by byte, the written data where
  the byte enable is set and the old content elsewhere.\<close>

theorem bus_read_after_write:
  assumes "addr_max m = 0"
  shows "\<exists>m' old line. memory_write m addr be data = Inr m' \<and>
     memory_read m addr = Inr old \<and> memory_read m' addr = Inr line \<and>
     (\<forall>d < 64. bus_byte line d = (if bus_enabled be d then bus_byte data d else bus_byte old d))"
proof -
  define b where "b = addr AND BUS_ADDR_MASK"
  obtain m' where m': "memory_write m addr be data = Inr m'" "addr_max m' = 0"
    "\<And>a. mem_byte m' a = (if unat (a - b) < 64 \<and> bus_enabled be (unat (a - b))
                           then bus_byte data (unat (a - b)) else mem_byte m a)"
    using memory_write_bytes [OF assms b_def, of be data] by blast
  have "bus_byte (bus_line m' addr) d = (if bus_enabled be d then bus_byte data d else bus_byte (bus_line m addr) d)"
    if "d < 64" for d
  proof -
    have "unat (b + of_nat d - b :: u32) = d" using that by (simp add: unat_of_nat)
    then show ?thesis
      using that m'(3) [of "b + of_nat d"] by (simp add: mem_byte_line b_def [symmetric])
  qed
  then show ?thesis
    using m'(1) memory_read_line [OF assms] memory_read_line [OF m'(2)] by blast
qed
lemma write_lanes_full: "for_upto 4 (write_lane data 0xf) w = data"
proof (rule word_eq_by_bytes [where n = 4])
  fix i :: nat assume i: "i < 4"
  have "bit (0xf :: u32) i" using i nibble_bit [of i 0 "- 1"] by simp
  then show "byte_at (for_upto 4 (write_lane data 0xf) w) i = byte_at data i"
    using i by (simp only: byte_at_write_lanes if_True)
qed simp

lemma memory32_write_full:
  assumes "addr AND 3 = 0" "addr_max m = 0"
  obtains m' where "memory32_write m addr data 0xf = Inr (True, m')" "addr_max m' = 0"
    "mem_word m' = (mem_word m)(addr := data)"
proof -
  define m' where "m' = m\<lparr>mem := map_set addr data (mem m)\<rparr>"
  have "memory32_write m addr data 0xf = Inr (True, m')" "addr_max m' = 0"
    using assms by (simp_all add: memory32_write_def write_lanes_full m'_def del: for_upto_Suc)
  moreover have "mem_word m' = (mem_word m)(addr := data)"
    by (auto simp: m'_def mem_word_def)
  ultimately show thesis using that by blast
qed

definition amo_offset :: "u32 \<Rightarrow> nat" where
  "amo_offset addr = unat (drop_bit 2 addr mod 16)"

definition dword :: "u32 \<Rightarrow> u32 \<Rightarrow> u64" where
  "dword lo hi = push_bit 32 (ucast hi) OR ucast lo"

lemma ucast_and_low: "ucast (w AND 0xffffffff :: u64) = (ucast w :: u32)"
proof -
  have "ucast (w AND mask 32 :: u64) = (ucast w :: u32)"
    by (rule bit_word_eqI) (simp add: bit_simps)
  then show ?thesis by (simp add: mask_eq_exp_minus_1)
qed

text \<open>A word-sized atomic on the simulator memory returns the old line and replaces
  exactly the addressed word by the 32-bit operation on its old value and the word of the bus
  the address selects; computing on sign-extended 64-bit values is equivalent to computing at 32
  bits, also for the unsigned minimum and maximum.\<close>

lemma memory_amo_word:
  assumes "addr AND 3 = 0" "addr_max m = 0" "sz \<noteq> 3" "length data = BUS_WORDS" "amo_op_of op = Some aop"
  shows "\<exists>m'. memory_amo m addr sz op data = Inr (bus_line m addr, m') \<and> addr_max m' = 0 \<and>
     mem_word m' = (mem_word m)(addr := amo_result aop (mem_word m addr) (data ! amo_offset addr))"
proof -
  have off: "amo_offset addr < 16"
    by (simp add: amo_offset_def unat_mod_distrib)
  let ?r = "amo_result aop (scast (mem_word m addr) :: u64) (scast (data ! amo_offset addr))"
  obtain m' where "memory32_write m addr (ucast (?r AND 0xffffffff)) 0xf = Inr (True, m')" "addr_max m' = 0"
    "mem_word m' = (mem_word m)(addr := ucast (?r AND 0xffffffff))"
    using memory32_write_full [OF assms(1,2)] by blast
  then show ?thesis
    using assms off memory_read_line [OF assms(2), of addr]
    by (auto simp: memory_amo_def amo_operands_def amo_offset_def [symmetric]
        memory32_read_ok ucast_and_low amo_result_scast)
qed

lemma amo_offset_nat: "amo_offset addr = unat addr div 4 mod 16"
  by (simp add: amo_offset_def unat_mod_distrib unat_drop_bit_eq drop_bit_eq_div unat_div_distrib)

lemma dword_split: "dword (ucast r) (ucast (drop_bit 32 r)) = r"
  by (rule bit_word_eqI) (auto simp: dword_def bit_simps)

lemma aligned8:
  assumes "addr AND 7 = (0 :: u32)"
  shows "addr AND 3 = 0" "(addr + 4) AND 3 = 0" "amo_offset addr + 1 < 16" "addr + 4 \<noteq> addr"
proof -
  have "addr AND mask 3 = 0"
    using assms by (simp add: mask_eq_exp_minus_1)
  then have d: "8 dvd unat addr" using and_mask_dvd_nat [of 3 addr] by simp
  then have "4 dvd unat addr" by (rule dvd_trans [rotated]) simp
  then show al: "addr AND 3 = 0" using and_mask_dvd_nat [of 2 addr] by simp
  show "(addr + 4) AND 3 = 0" using aligned_add [of addr 2 4] al by simp
  show "amo_offset addr + 1 < 16"
    using d by (auto simp: amo_offset_nat elim!: dvdE) presburger
qed simp

text \<open>C4: a doubleword atomic at an aligned address replaces exactly the two addressed words
  by the 64-bit operation, and returns the old line.\<close>

theorem memory_amo_dword:
  assumes "addr AND 7 = 0" "addr_max m = 0" "length data = BUS_WORDS" "amo_op_of op = Some aop"
  shows "\<exists>m'. memory_amo m addr 3 op data = Inr (bus_line m addr, m') \<and> addr_max m' = 0 \<and>
     dword (mem_word m' addr) (mem_word m' (addr + 4)) =
       amo_result aop (dword (mem_word m addr) (mem_word m (addr + 4)))
         (dword (data ! amo_offset addr) (data ! (amo_offset addr + 1))) \<and>
     (\<forall>a. a \<noteq> addr \<and> a \<noteq> addr + 4 \<longrightarrow> mem_word m' a = mem_word m a)"
proof -
  note al = aligned8 [OF assms(1)]
  define r where "r = amo_result aop (dword (mem_word m addr) (mem_word m (addr + 4)))
         (dword (data ! amo_offset addr) (data ! (amo_offset addr + 1)))"
  obtain m1 where m1: "memory32_write m addr (ucast (r AND 0xffffffff)) 0xf = Inr (True, m1)" "addr_max m1 = 0"
    "mem_word m1 = (mem_word m)(addr := ucast (r AND 0xffffffff))"
    using memory32_write_full [OF al(1) assms(2)] by blast
  obtain m2 where m2: "memory32_write m1 (addr + 4) (ucast (drop_bit 32 r)) 0xf = Inr (True, m2)" "addr_max m2 = 0"
    "mem_word m2 = (mem_word m1)(addr + 4 := ucast (drop_bit 32 r))"
    using memory32_write_full [OF al(2) m1(2)] by blast
  have ops: "amo_operands m addr True data = Inr (dword (mem_word m addr) (mem_word m (addr + 4)),
         dword (data ! amo_offset addr) (data ! (amo_offset addr + 1)))"
    using assms al by (simp add: amo_operands_def amo_offset_def [symmetric] memory32_read_ok dword_def Let_def)
  have "memory_amo m addr 3 op data = Inr (bus_line m addr, m2)"
    using memory_read_line [OF assms(2), of addr] m1(1) [unfolded r_def] m2(1) [unfolded r_def] assms(4) ops
    by (simp add: memory_amo_def Let_def)
  moreover have "dword (mem_word m2 addr) (mem_word m2 (addr + 4)) = r"
    using al(4) by (simp add: m2(3) m1(3) ucast_and_low dword_split)
  ultimately show ?thesis
    using m2(2,3) m1(3) by (auto simp: r_def)
qed

text \<open>The errors of an atomic: a word-misaligned address fails the assertion, a
  doubleword at the last word of the line reads past the bus data, a reserved operation code
  aborts, and nothing else fails.\<close>

lemma memory_amo_errors:
  assumes "addr_max m = 0" "length data = BUS_WORDS"
  shows "memory_amo m addr sz op data = Inl e \<longleftrightarrow>
    (if addr AND 3 \<noteq> 0 then e = AssertFailed
     else if sz = 3 \<and> amo_offset addr = 15 then e = OutOfBounds
     else amo_op_of op = None \<and> e = Aborted)"
proof (cases "addr AND 3 = 0")
  case False
  then show ?thesis
    using memory_read_line [OF assms(1), of addr]
    by (auto simp: memory_amo_def amo_operands_def memory32_read_def Let_def)
next
  case True
  then have al4: "(addr + 4) AND 3 = 0" using aligned_add [of addr 2 4] by simp
  have off: "amo_offset addr < 16" by (simp add: amo_offset_nat)
  have wr: "memory32_write m' a d k \<noteq> Inl e'" if "a AND 3 = 0" for m' a d k e'
    using that by (simp add: memory32_write_def)
  have "amo_operands m addr (sz = 3) data = Inl e' \<longleftrightarrow> sz = 3 \<and> amo_offset addr = 15 \<and> e' = OutOfBounds" for e'
    using assms True al4 off
    by (auto simp: amo_operands_def amo_offset_def [symmetric] memory32_read_ok require_def Let_def)
  then show ?thesis
    using memory_read_line [OF assms(1), of addr] True al4 wr
    by (cases "amo_operands m addr (sz = 3) data") (auto simp: memory_amo_def res_bind_Inl_iff Let_def split: option.splits if_splits)
qed
text \<open>C2: a block write stores exactly the bytes of the block: every byte of the range reads
  back as the buffer's byte and every other byte is unchanged, for any alignment and length and
  with addresses taken modulo \<open>2 ^ 32\<close>, provided a block that starts unaligned reaches the
  next word boundary.\<close>

theorem write_block_bytes:
  assumes "addr_max m = 0" "unat addr mod 4 = 0 \<or> 4 \<le> unat addr mod 4 + unat sz"
  shows "\<exists>m'. write_block m addr sz buf = Inr m' \<and> addr_max m' = 0 \<and>
     (\<forall>a. mem_byte m' a = (if unat (a - addr) < unat sz then buf (int (unat (a - addr))) else mem_byte m a))"
proof -
  have "block_len addr sz = unat sz"
    using assms(2) by (auto simp: block_len_def Let_def)
  then show ?thesis
    using write_block_stored [OF assms(1), of addr sz buf] by (auto simp: stored_def)
qed

theorem write_block_bytes_witness:
  "\<exists>m'. write_block Memory32 6 5 (\<lambda>i. word_of_int i) = Inr m' \<and> addr_max m' = 0 \<and>
     (\<forall>a. mem_byte m' a = (if unat (a - 6) < unat (5 :: u32) then word_of_int (int (unat (a - 6)))
                            else mem_byte Memory32 a))"
  by (rule write_block_bytes) (simp_all add: Memory32_def)

text \<open>C36: a block that starts unaligned and ends before the next word boundary is written too
  long: the byte just past its end is overwritten with the byte that follows the buffer.\<close>

theorem write_block_short_overrun:
  assumes "addr_max m = 0" "unat addr mod 4 \<noteq> 0" "unat addr mod 4 + unat sz < 4"
  shows "\<exists>m'. write_block m addr sz buf = Inr m' \<and> mem_byte m' (addr + sz) = buf (int (unat sz))"
proof -
  have "unat sz < block_len addr sz"
    using assms(2,3) by (auto simp: block_len_def Let_def)
  then show ?thesis
    using write_block_stored [OF assms(1), of addr sz buf] by (auto simp: stored_def)
qed

theorem write_block_short_overrun_witness:
  "\<exists>m'. write_block Memory32 1 1 (\<lambda>_. 0xff) = Inr m' \<and> mem_byte m' (1 + 1) = 0xff"
  by (rule write_block_short_overrun) (simp_all add: Memory32_def)

theorem bus_read_after_write_witness:
  "\<exists>m' old line. memory_write Memory32 0x40 [0xf0, 0] (replicate 16 7) = Inr m' \<and>
     memory_read Memory32 0x40 = Inr old \<and> memory_read m' 0x40 = Inr line \<and>
     (\<forall>d < 64. bus_byte line d =
       (if bus_enabled [0xf0, 0] d then bus_byte (replicate 16 7) d else bus_byte old d))"
  by (rule bus_read_after_write) (simp add: Memory32_def)

theorem memory_amo_dword_witness:
  "\<exists>m'. memory_amo Memory32 16 3 0 (replicate 16 7) = Inr (bus_line Memory32 16, m') \<and> addr_max m' = 0 \<and>
     dword (mem_word m' 16) (mem_word m' (16 + 4)) =
       amo_result ATOMIC_ADD (dword (mem_word Memory32 16) (mem_word Memory32 (16 + 4)))
         (dword (replicate 16 7 ! amo_offset 16) (replicate 16 7 ! (amo_offset 16 + 1))) \<and>
     (\<forall>a. a \<noteq> 16 \<and> a \<noteq> 16 + 4 \<longrightarrow> mem_word m' a = mem_word Memory32 a)"
  by (rule memory_amo_dword) (simp_all add: Memory32_def amo_op_of_def)

section \<open>Symbols and the accessors of the other DPI models\<close>

record dpi_memory =
  memoryContents :: memory32
  symbols :: "(string, u64) std_map"
  reverseSymbols :: "(u64, string) std_map"

definition memory_dpi_get_symbol_addr :: "dpi_memory \<Rightarrow> string \<Rightarrow> u64 \<times> dpi_memory" where
  "memory_dpi_get_symbol_addr g symbol =
     (let (v, syms) = map_index 0 (symbols g) symbol in (v, g\<lparr>symbols := syms\<rparr>))"

definition memory_symbol_addr :: "dpi_memory \<Rightarrow> string \<Rightarrow> u32 list \<times> dpi_memory" where
  "memory_symbol_addr g symbol =
     (let (v, g1) = memory_dpi_get_symbol_addr g symbol;
          (v', g2) = memory_dpi_get_symbol_addr g1 symbol
      in ([ucast v, ucast (drop_bit 32 v')], g2))"

definition memory_symbol_from_addr :: "dpi_memory \<Rightarrow> u64 \<Rightarrow> string" where
  "memory_symbol_from_addr g addr =
     (case map_find (reverseSymbols g) addr of None \<Rightarrow> [] | Some s \<Rightarrow> s)"

definition memory_dpi_read_contents :: "dpi_memory \<Rightarrow> u64 \<Rightarrow> u32 res" where
  "memory_dpi_read_contents g addr =
     res_bind (memory32_read (memoryContents g) (ucast addr)) (\<lambda>(_, data). Inr data)"

definition memory_dpi_write_contents :: "dpi_memory \<Rightarrow> u64 \<Rightarrow> u32 \<Rightarrow> dpi_memory res" where
  "memory_dpi_write_contents g addr data =
     res_bind (memory32_write (memoryContents g) (ucast addr) data 0xf)
       (\<lambda>(_, m). Inr (g\<lparr>memoryContents := m\<rparr>))"

end
