(* ===== verification/Elf_Loader.thy ===== *)
theory Elf_Loader
  imports Perfect_Memory
begin

text \<open>
  The program loader, \<^verbatim>\<open>simulator/models/cxx/loadelf.cpp\<close> with the 64-bit structures of
  \<^verbatim>\<open>elf.h\<close>, and \<^verbatim>\<open>memory_init\<close> of \<^verbatim>\<open>dpi_perfect_memory.cpp\<close>, which runs it on the simulator
  memory. The file is the byte list that \<^verbatim>\<open>mmap\<close> returns (opening and mapping it is outside the
  model); a structure read outside the file is \<open>OutOfBounds\<close>, sums of 64-bit header fields wrap
  as they do in the code, and the write callback and its state are parameters of the loader.
  The bytes around a buffer that the block write may fetch and mask away are the parameter
  \<open>junk\<close>.
\<close>

section \<open>The structures of \<^verbatim>\<open>elf.h\<close>\<close>

record Elf64_Ehdr =
  e_ident :: "u8 list"
  e_type :: u16
  e_machine :: u16
  e_version :: u32
  e_entry :: u64
  e_phoff :: u64
  e_shoff :: u64
  e_flags :: u32
  e_ehsize :: u16
  e_phentsize :: u16
  e_phnum :: u16
  e_shentsize :: u16
  e_shnum :: u16
  e_shstrndx :: u16

record Elf64_Shdr =
  sh_name :: u32
  sh_type :: u32
  sh_flags :: u64
  sh_addr :: u64
  sh_offset :: u64
  sh_size :: u64
  sh_link :: u32
  sh_info :: u32
  sh_addralign :: u64
  sh_entsize :: u64

record Elf64_Phdr =
  p_type :: u32
  p_flags :: u32
  p_offset :: u64
  p_vaddr :: u64
  p_paddr :: u64
  p_filesz :: u64
  p_memsz :: u64
  p_align :: u64

record Elf64_Sym =
  st_name :: u32
  st_info :: u8
  st_other :: u8
  st_shndx :: u16
  st_value :: u64
  st_size :: u64

definition PT_LOAD :: u32 where "PT_LOAD = 1"
definition SHT_NOBITS :: u32 where "SHT_NOBITS = 8"

definition IS_ELF64 :: "Elf64_Ehdr \<Rightarrow> bool" where
  "IS_ELF64 hdr \<longleftrightarrow> take 5 (e_ident hdr) = [0x7f, 0x45, 0x4c, 0x46, 2]"

text \<open>Field access through a structure pointer at displacement \<open>off\<close>: little-endian loads.\<close>

definition field :: "u8 list \<Rightarrow> nat \<Rightarrow> nat \<Rightarrow> 'a::len word" where
  "field file off n = le_word (take n (drop off file))"

definition in_file :: "u8 list \<Rightarrow> nat \<Rightarrow> nat \<Rightarrow> bool" where
  "in_file file off n \<longleftrightarrow> off + n \<le> length file"

definition get_Ehdr :: "u8 list \<Rightarrow> nat \<Rightarrow> Elf64_Ehdr res" where
  "get_Ehdr file off =
     (if in_file file off 64 then Inr
       \<lparr>e_ident = take 16 (drop off file), e_type = field file (off + 16) 2,
        e_machine = field file (off + 18) 2, e_version = field file (off + 20) 4,
        e_entry = field file (off + 24) 8, e_phoff = field file (off + 32) 8,
        e_shoff = field file (off + 40) 8, e_flags = field file (off + 48) 4,
        e_ehsize = field file (off + 52) 2, e_phentsize = field file (off + 54) 2,
        e_phnum = field file (off + 56) 2, e_shentsize = field file (off + 58) 2,
        e_shnum = field file (off + 60) 2, e_shstrndx = field file (off + 62) 2\<rparr>
      else Inl OutOfBounds)"

definition get_Shdr :: "u8 list \<Rightarrow> nat \<Rightarrow> Elf64_Shdr res" where
  "get_Shdr file off =
     (if in_file file off 64 then Inr
       \<lparr>sh_name = field file off 4, sh_type = field file (off + 4) 4,
        sh_flags = field file (off + 8) 8, sh_addr = field file (off + 16) 8,
        sh_offset = field file (off + 24) 8, sh_size = field file (off + 32) 8,
        sh_link = field file (off + 40) 4, sh_info = field file (off + 44) 4,
        sh_addralign = field file (off + 48) 8, sh_entsize = field file (off + 56) 8\<rparr>
      else Inl OutOfBounds)"

definition get_Phdr :: "u8 list \<Rightarrow> nat \<Rightarrow> Elf64_Phdr res" where
  "get_Phdr file off =
     (if in_file file off 56 then Inr
       \<lparr>p_type = field file off 4, p_flags = field file (off + 4) 4,
        p_offset = field file (off + 8) 8, p_vaddr = field file (off + 16) 8,
        p_paddr = field file (off + 24) 8, p_filesz = field file (off + 32) 8,
        p_memsz = field file (off + 40) 8, p_align = field file (off + 48) 8\<rparr>
      else Inl OutOfBounds)"

definition get_Sym :: "u8 list \<Rightarrow> nat \<Rightarrow> Elf64_Sym res" where
  "get_Sym file off =
     (if in_file file off 24 then Inr
       \<lparr>st_name = field file off 4, st_info = field file (off + 4) 1,
        st_other = field file (off + 5) 1, st_shndx = field file (off + 6) 2,
        st_value = field file (off + 8) 8, st_size = field file (off + 16) 8\<rparr>
      else Inl OutOfBounds)"

section \<open>C strings in the file\<close>

fun strnlen :: "u8 list \<Rightarrow> nat \<Rightarrow> nat \<Rightarrow> nat res" where
  "strnlen file off 0 = Inr 0"
| "strnlen file off (Suc n) =
     (if off < length file
      then if file ! off = 0 then Inr 0
           else res_bind (strnlen file (Suc off) n) (\<lambda>k. Inr (Suc k))
      else Inl OutOfBounds)"

definition c_string :: "u8 list \<Rightarrow> nat \<Rightarrow> string" where
  "c_string file off = map (\<lambda>b. char_of (unat b)) (takeWhile (\<lambda>b. b \<noteq> 0) (drop off file))"

section \<open>The loader\<close>

text \<open>Pointers into the file and into the vector of zeros, with what lies around them.\<close>

definition file_ptr :: "(int \<Rightarrow> u8) \<Rightarrow> u8 list \<Rightarrow> u64 \<Rightarrow> int \<Rightarrow> u8" where
  "file_ptr junk file off i =
     (let j = int (unat off) + i in
      if 0 \<le> j \<and> j < int (length file) then file ! nat j else junk j)"

definition zeros_ptr :: "(int \<Rightarrow> u8) \<Rightarrow> u64 \<Rightarrow> int \<Rightarrow> u8" where
  "zeros_ptr junk n i = (if 0 \<le> i \<and> i < int (unat n) then 0 else junk i)"

type_synonym 's write_callback = "'s \<Rightarrow> u32 \<Rightarrow> u32 \<Rightarrow> (int \<Rightarrow> u8) \<Rightarrow> 's res"

definition load_segment ::
  "'s write_callback \<Rightarrow> (int \<Rightarrow> u8) \<Rightarrow> u8 list \<Rightarrow> Elf64_Phdr \<Rightarrow> 's \<Rightarrow> 's res" where
  "load_segment write junk file ph s =
     (if p_type ph = PT_LOAD \<and> p_memsz ph \<noteq> 0
      then
        res_bind
          (if p_filesz ph \<noteq> 0
           then res_bind (require (p_offset ph + p_filesz ph \<le> of_nat (length file)) AssertFailed)
                  (\<lambda>_. write s (ucast (p_paddr ph)) (ucast (p_filesz ph))
                         (file_ptr junk file (p_offset ph)))
           else Inr s)
          (\<lambda>s. if p_memsz ph - p_filesz ph > 0
               then res_bind (require (p_memsz ph - p_filesz ph < 2 ^ 63) Aborted)
                      (\<lambda>_. write s (ucast (p_paddr ph + p_filesz ph))
                             (ucast (p_memsz ph - p_filesz ph))
                             (zeros_ptr junk (p_memsz ph - p_filesz ph)))
               else Inr s)
      else Inr s)"

definition load_segments ::
  "'s write_callback \<Rightarrow> (int \<Rightarrow> u8) \<Rightarrow> u8 list \<Rightarrow> Elf64_Ehdr \<Rightarrow> 's \<Rightarrow> 's res" where
  "load_segments write junk file eh s =
     for_res (\<lambda>i s. res_bind (get_Phdr file (unat (e_phoff eh) + i * 56))
                      (\<lambda>ph. load_segment write junk file ph s))
       [0..<unat (e_phnum eh)] s"

text \<open>The section scan: the indices of the last \<^verbatim>\<open>.strtab\<close> and \<^verbatim>\<open>.symtab\<close>, 0 if there is none.\<close>

definition scan_section ::
  "u8 list \<Rightarrow> Elf64_Ehdr \<Rightarrow> Elf64_Shdr \<Rightarrow> nat \<Rightarrow> nat \<times> nat \<Rightarrow> (nat \<times> nat) res" where
  "scan_section file eh shstr i = (\<lambda>(strtabidx, symtabidx).
     res_bind (get_Shdr file (unat (e_shoff eh) + i * 64)) (\<lambda>sh.
     let max_len = unat (ucast (sh_size shstr - ucast (sh_name sh)) :: u32);
         name = unat (sh_offset shstr) + unat (sh_name sh) in
     res_bind (require (ucast (sh_name sh) < sh_size shstr) AssertFailed) (\<lambda>_.
     res_bind (strnlen file name max_len) (\<lambda>l.
     res_bind (require (l < max_len) AssertFailed) (\<lambda>_.
     if sh_type sh AND SHT_NOBITS \<noteq> 0 then Inr (strtabidx, symtabidx)
     else
       res_bind (require (sh_offset sh + sh_size sh \<le> of_nat (length file)) AssertFailed) (\<lambda>_.
       Inr (if c_string file name = ''.strtab'' then i else strtabidx,
            if c_string file name = ''.symtab'' then i else symtabidx)))))))"

definition load_symbol ::
  "u8 list \<Rightarrow> Elf64_Shdr \<Rightarrow> Elf64_Shdr \<Rightarrow> nat \<Rightarrow> (string, u64) std_map \<Rightarrow> (string, u64) std_map res" where
  "load_symbol file strtab symtab i syms =
     res_bind (get_Sym file (unat (sh_offset symtab) + i * 24)) (\<lambda>sym.
     let max_len = unat (ucast (sh_size strtab - ucast (st_name sym)) :: u32);
         name = unat (sh_offset strtab) + unat (st_name sym) in
     res_bind (require (ucast (st_name sym) < sh_size strtab) AssertFailed) (\<lambda>_.
     res_bind (strnlen file name max_len) (\<lambda>l.
     res_bind (require (l < max_len) AssertFailed) (\<lambda>_.
     Inr (map_set (c_string file name) (st_value sym) syms)))))"

definition load_symbols :: "u8 list \<Rightarrow> Elf64_Ehdr \<Rightarrow> (string, u64) std_map res" where
  "load_symbols file eh =
     res_bind (require (e_shoff eh + ucast (e_shnum eh) * 64 \<le> of_nat (length file)) AssertFailed) (\<lambda>_.
     res_bind (require (e_shstrndx eh < e_shnum eh) AssertFailed) (\<lambda>_.
     res_bind (get_Shdr file (unat (e_shoff eh) + unat (e_shstrndx eh) * 64)) (\<lambda>shstr.
     res_bind (require (sh_offset shstr + sh_size shstr \<le> of_nat (length file)) AssertFailed) (\<lambda>_.
     res_bind (for_res (scan_section file eh shstr) [0..<unat (e_shnum eh)] (0, 0))
       (\<lambda>(strtabidx, symtabidx).
     if strtabidx \<noteq> 0 \<and> symtabidx \<noteq> 0
     then
       res_bind (get_Shdr file (unat (e_shoff eh) + strtabidx * 64)) (\<lambda>strtab.
       res_bind (get_Shdr file (unat (e_shoff eh) + symtabidx * 64)) (\<lambda>symtab.
       for_res (load_symbol file strtab symtab) [0..<unat (sh_size symtab div 24)] []))
     else Inr [])))))"

definition elfLoader ::
  "'s write_callback \<Rightarrow> (int \<Rightarrow> u8) \<Rightarrow> u8 list \<Rightarrow> 's \<Rightarrow> ('s \<times> (string, u64) std_map) res" where
  "elfLoader write junk file s =
     res_bind (require (64 \<le> length file) AssertFailed) (\<lambda>_.
     res_bind (get_Ehdr file 0) (\<lambda>eh.
     res_bind (require (IS_ELF64 eh) AssertFailed) (\<lambda>_.
     res_bind (require (e_phoff eh + ucast (e_phnum eh) * 56 \<le> of_nat (length file)) AssertFailed) (\<lambda>_.
     res_bind (load_segments write junk file eh s) (\<lambda>s'.
     res_bind (load_symbols file eh) (\<lambda>syms.
     Inr (s', syms)))))))"

text \<open>
  \<^verbatim>\<open>memory_init\<close>: a fresh memory, the loaded symbols, and the reverse table extended by
  iterating the symbols in key order (it is never cleared).
\<close>

definition memory_init :: "(int \<Rightarrow> u8) \<Rightarrow> u8 list \<Rightarrow> dpi_memory \<Rightarrow> dpi_memory res" where
  "memory_init junk file g =
     res_bind (elfLoader write_block junk file Memory32) (\<lambda>(m, syms).
     Inr (g\<lparr>memoryContents := m, symbols := syms,
            reverseSymbols := fold (\<lambda>(name, addr) r. map_set addr name r) syms (reverseSymbols g)\<rparr>))"

section \<open>The segments in memory\<close>

text \<open>What a loadable segment means: \<open>p_filesz\<close> bytes of the file, then zeros up to \<open>p_memsz\<close>.\<close>

definition loadable :: "Elf64_Phdr \<Rightarrow> bool" where
  "loadable ph \<longleftrightarrow> p_type ph = PT_LOAD \<and> p_memsz ph \<noteq> 0"

definition segment_byte :: "u8 list \<Rightarrow> Elf64_Phdr \<Rightarrow> (u32 \<Rightarrow> u8) \<Rightarrow> u32 \<Rightarrow> u8" where
  "segment_byte file ph prev a =
     (let d = unat (a - ucast (p_paddr ph)) in
      if loadable ph \<and> d < unat (p_memsz ph)
      then if d < unat (p_filesz ph) then file ! (unat (p_offset ph) + d) else 0
      else prev a)"

definition segment_ok :: "u8 list \<Rightarrow> (u32 \<Rightarrow> u32 \<Rightarrow> bool) \<Rightarrow> Elf64_Phdr \<Rightarrow> bool" where
  "segment_ok file fits ph \<longleftrightarrow>
     (loadable ph \<longrightarrow> p_filesz ph \<le> p_memsz ph \<and> unat (p_memsz ph) < 2 ^ 32 \<and>
        unat (p_offset ph) + unat (p_filesz ph) \<le> length file \<and>
        fits (ucast (p_paddr ph)) (ucast (p_filesz ph)) \<and>
        fits (ucast (p_paddr ph + p_filesz ph)) (ucast (p_memsz ph - p_filesz ph)))"

text \<open>
  The contract between the loader and a memory: a write of \<open>n\<close> bytes that \<open>fits\<close> stores exactly
  those bytes.
\<close>

locale byte_store =
  fixes wr :: "'s write_callback"
    and byte :: "'s \<Rightarrow> u32 \<Rightarrow> u8"
    and good :: "'s \<Rightarrow> bool"
    and fits :: "u32 \<Rightarrow> u32 \<Rightarrow> bool"
  assumes write_ok:
    "good s \<Longrightarrow> fits addr n \<Longrightarrow> \<exists>s'. wr s addr n buf = Inr s' \<and> good s' \<and>
       byte s' = (\<lambda>a. if unat (a - addr) < unat n then buf (int (unat (a - addr))) else byte s a)"
begin

lemma guarded_write:
  assumes "good s" "c \<Longrightarrow> g \<and> fits addr n" "unat n = (if c then N else 0)" "\<not> c \<Longrightarrow> N = 0"
    and "\<And>d. d < N \<Longrightarrow> buf (int d) = f d"
  shows "\<exists>s'. (if c then res_bind (require g e) (\<lambda>_. wr s addr n buf) else Inr s) = Inr s' \<and> good s' \<and>
     byte s' = (\<lambda>a. if unat (a - addr) < N then f (unat (a - addr)) else byte s a)"
proof (cases c)
  case False
  then show ?thesis using assms(1,4) by simp
next
  case True
  then obtain s' where "wr s addr n buf = Inr s'" "good s'"
    "byte s' = (\<lambda>a. if unat (a - addr) < N then buf (int (unat (a - addr))) else byte s a)"
    using write_ok [OF assms(1), of addr n buf] assms(2,3) by auto
  with True assms(2,5) show ?thesis by (auto simp: fun_eq_iff simp del: of_nat_unat)
qed

lemma load_segment_image:
  assumes "good s" "segment_ok file fits ph" "length file < 2 ^ 64"
  shows "\<exists>s'. load_segment wr junk file ph s = Inr s' \<and> good s' \<and>
           byte s' = segment_byte file ph (byte s)"
proof (cases "loadable ph")
  case False
  then show ?thesis
    using assms(1) by (auto simp: load_segment_def loadable_def segment_byte_def fun_eq_iff)
next
  case True
  define n1 n2 where "n1 = unat (p_filesz ph)" and "n2 = unat (p_memsz ph - p_filesz ph)"
  define base :: u32 where "base = ucast (p_paddr ph)"
  have le: "p_filesz ph \<le> p_memsz ph" and mlt: "unat (p_memsz ph) < 2 ^ 32"
    and inf: "unat (p_offset ph) + n1 \<le> length file"
    and fits: "fits base (ucast (p_filesz ph))"
      "fits (ucast (p_paddr ph + p_filesz ph)) (ucast (p_memsz ph - p_filesz ph))"
    using assms(2) True by (auto simp: segment_ok_def n1_def base_def)
  have n12: "n1 + n2 = unat (p_memsz ph)"
    using le by (simp add: n1_def n2_def unat_sub word_le_nat_alt)
  have u1: "unat (ucast (p_filesz ph) :: u32) = n1" and u2: "unat (ucast (p_memsz ph - p_filesz ph) :: u32) = n2"
    using n12 mlt by (simp_all add: unsigned_ucast_eq take_bit_nat_eq_self n1_def n2_def)
  have sum: "ucast (p_paddr ph + p_filesz ph) = base + of_nat n1"
    by (simp add: ucast_add64 base_def n1_def)
  have "unat (p_offset ph + p_filesz ph) = unat (p_offset ph) + n1"
    using inf assms(3) by (simp add: n1_def unat_word_ariths)
  moreover have "unat (of_nat (length file) :: u64) = length file"
    using assms(3) by (simp add: unat_of_nat)
  ultimately have guard: "p_offset ph + p_filesz ph \<le> of_nat (length file)"
    using inf by (simp add: word_le_nat_alt)
  define f where "f d = (if d < n1 then file ! (unat (p_offset ph) + d) else 0)" for d
  have ptr: "file_ptr junk file (p_offset ph) (int d) = f d" if "d < n1" for d
    using that inf by (simp add: file_ptr_def f_def Let_def del: of_nat_unat flip: of_nat_add)
  have pos: "0 < p_memsz ph - p_filesz ph \<longleftrightarrow> n2 \<noteq> 0"
    by (simp add: n2_def word_less_nat_alt)
  have small: "p_memsz ph - p_filesz ph < 2 ^ 63"
    using n12 mlt by (simp add: word_less_nat_alt n2_def)
  have "\<exists>s'. (if p_filesz ph \<noteq> 0
        then res_bind (require (p_offset ph + p_filesz ph \<le> of_nat (length file)) AssertFailed)
               (\<lambda>_. wr s base (ucast (p_filesz ph)) (file_ptr junk file (p_offset ph)))
        else Inr s) = Inr s' \<and> good s' \<and>
      byte s' = (\<lambda>a. if unat (a - base) < n1 then f (unat (a - base)) else byte s a)"
    using guard fits(1) u1 ptr by (intro guarded_write [OF assms(1)]) (auto simp: n1_def)
  then obtain s1 where s1: "(if p_filesz ph \<noteq> 0
        then res_bind (require (p_offset ph + p_filesz ph \<le> of_nat (length file)) AssertFailed)
               (\<lambda>_. wr s base (ucast (p_filesz ph)) (file_ptr junk file (p_offset ph)))
        else Inr s) = Inr s1" and g1: "good s1"
    and b1: "byte s1 = (\<lambda>a. if unat (a - base) < n1 then f (unat (a - base)) else byte s a)"
    by blast
  have "\<exists>s'. (if p_memsz ph - p_filesz ph > 0
        then res_bind (require (p_memsz ph - p_filesz ph < 2 ^ 63) Aborted)
               (\<lambda>_. wr s1 (base + of_nat n1) (ucast (p_memsz ph - p_filesz ph))
                       (zeros_ptr junk (p_memsz ph - p_filesz ph)))
        else Inr s1) = Inr s' \<and> good s' \<and>
      byte s' = (\<lambda>a. if unat (a - (base + of_nat n1)) < n2
                      then f (n1 + unat (a - (base + of_nat n1))) else byte s1 a)"
    using small fits(2) u2 pos unfolding sum
    by (intro guarded_write [OF g1, where f = "\<lambda>d. f (n1 + d)"]) (auto simp: f_def zeros_ptr_def n2_def simp del: of_nat_unat)
  then obtain s2 where s2: "(if p_memsz ph - p_filesz ph > 0
        then res_bind (require (p_memsz ph - p_filesz ph < 2 ^ 63) Aborted)
               (\<lambda>_. wr s1 (base + of_nat n1) (ucast (p_memsz ph - p_filesz ph))
                       (zeros_ptr junk (p_memsz ph - p_filesz ph)))
        else Inr s1) = Inr s2" and g2: "good s2"
    and b2: "byte s2 = (\<lambda>a. if unat (a - (base + of_nat n1)) < n2
                      then f (n1 + unat (a - (base + of_nat n1))) else byte s1 a)"
    by blast
  have "byte s2 a = segment_byte file ph (byte s) a" for a
  proof -
    have "byte s2 a = (if unat (a - base) < n1 + n2 then f (unat (a - base)) else byte s a)"
      unfolding b2 b1 by (rule segment_join) (use n12 mlt in simp)
    then show ?thesis
      using True unfolding n12 by (simp add: segment_byte_def f_def base_def n1_def Let_def)
  qed
  then show ?thesis
    using s1 s2 g2 True unfolding base_def sum [symmetric, unfolded base_def]
    by (auto simp: load_segment_def loadable_def fun_eq_iff)
qed

lemma load_segments_image:
  assumes "good s" "length file < 2 ^ 64"
    and "\<And>i. i < unat (e_phnum eh) \<Longrightarrow>
      get_Phdr file (unat (e_phoff eh) + i * 56) = Inr (ph i) \<and> segment_ok file fits (ph i)"
  shows "\<exists>s'. load_segments wr junk file eh s = Inr s' \<and> good s' \<and>
     byte s' = fold (\<lambda>i. segment_byte file (ph i)) [0..<unat (e_phnum eh)] (byte s)"
  unfolding load_segments_def
proof (rule for_res_invariant
    [where P = "\<lambda>k s'. good s' \<and> byte s' = fold (\<lambda>i. segment_byte file (ph i)) [0..<k] (byte s)"])
  fix i s1
  assume i: "i \<in> set [0..<unat (e_phnum eh)]"
    and s1: "good s1 \<and> byte s1 = fold (\<lambda>i. segment_byte file (ph i)) [0..<i] (byte s)"
  then show "\<exists>s'. res_bind (get_Phdr file (unat (e_phoff eh) + i * 56)) (\<lambda>ph. load_segment wr junk file ph s1) = Inr s' \<and>
      good s' \<and> byte s' = fold (\<lambda>i. segment_byte file (ph i)) [0..<Suc i] (byte s)"
    using load_segment_image [of s1 "file" "ph i"] assms(2,3) by auto
qed (use assms(1) in auto)

end

text \<open>The block write of the simulator's memory is such a store.\<close>

definition block_fits :: "u32 \<Rightarrow> u32 \<Rightarrow> bool" where
  "block_fits addr n \<longleftrightarrow> unat addr mod 4 = 0 \<or> 4 \<le> unat addr mod 4 + unat n"

interpretation pm: byte_store write_block mem_byte "\<lambda>m. addr_max m = 0" block_fits
proof
  fix m :: memory32 and addr n :: u32 and buf :: "int \<Rightarrow> u8"
  assume "addr_max m = 0" "block_fits addr n"
  moreover from this have "block_len addr n = unat n"
    by (auto simp: block_fits_def block_len_def Let_def)
  ultimately show "\<exists>m'. write_block m addr n buf = Inr m' \<and> addr_max m' = 0 \<and>
      mem_byte m' = (\<lambda>a. if unat (a - addr) < unat n then buf (int (unat (a - addr))) else mem_byte m a)"
    using write_block_stored [of m addr n buf] by (auto simp: stored_def fun_eq_iff)
qed

section \<open>The symbol tables\<close>

lemma for_res_Inr_induct:
  assumes "for_res f is s = Inr s'" "P s" "\<And>i s s'. f i s = Inr s' \<Longrightarrow> P s \<Longrightarrow> P s'"
  shows "P s'"
  using assms(1,2)
  by (induction "is" arbitrary: s) (auto simp: res_bind_Inr_iff intro: assms(3))

lemma load_symbols_wf:
  assumes "load_symbols file eh = Inr syms"
  shows "map_wf syms"
proof -
  have step: "map_wf m'" if "load_symbol file a b i m = Inr m'" "map_wf m" for a b i m m'
    using that by (auto simp: load_symbol_def res_bind_Inr_iff Let_def)
  show ?thesis
    using assms
    by (auto simp: load_symbols_def res_bind_Inr_iff split: if_splits
        elim!: for_res_Inr_induct [where P = map_wf] dest: step)
qed

text \<open>What the symbol tables of a file mean, from the bytes of the file. A name is an offset into a string
  table, where a zero byte ends it.\<close>

definition in_section :: "u8 list \<Rightarrow> Elf64_Shdr \<Rightarrow> bool" where
  "in_section file tab \<longleftrightarrow> unat (sh_offset tab) + unat (sh_size tab) \<le> length file"

definition str_ok :: "u8 list \<Rightarrow> Elf64_Shdr \<Rightarrow> u32 \<Rightarrow> bool" where
  "str_ok file tab name \<longleftrightarrow>
     unat name < unat (sh_size tab) \<and> unat (sh_size tab) - unat name < 2 ^ 32 \<and>
     0 \<in> set (take (unat (sh_size tab) - unat name) (drop (unat (sh_offset tab) + unat name) file))"

definition str_at :: "u8 list \<Rightarrow> Elf64_Shdr \<Rightarrow> u32 \<Rightarrow> string" where
  "str_at file tab name = c_string file (unat (sh_offset tab) + unat name)"

text \<open>The last section of a name that has contents, 0 if there is none.\<close>

definition find_section :: "u8 list \<Rightarrow> Elf64_Ehdr \<Rightarrow> (nat \<Rightarrow> Elf64_Shdr) \<Rightarrow> string \<Rightarrow> nat" where
  "find_section file eh sh nm =
     (let is = filter (\<lambda>i. sh_type (sh i) AND SHT_NOBITS = 0 \<and>
                 str_at file (sh (unat (e_shstrndx eh))) (sh_name (sh i)) = nm) [0..<unat (e_shnum eh)]
      in if is = [] then 0 else last is)"

text \<open>Entry \<open>i\<close> of the symbol table: its name and its value.\<close>

definition symbol_entry :: "u8 list \<Rightarrow> Elf64_Shdr \<Rightarrow> Elf64_Shdr \<Rightarrow> nat \<Rightarrow> string \<times> u64" where
  "symbol_entry file strtab symtab i =
     (str_at file strtab (field file (unat (sh_offset symtab) + i * 24) 4),
      field file (unat (sh_offset symtab) + i * 24 + 8) 8)"

definition symbol_entries :: "u8 list \<Rightarrow> Elf64_Ehdr \<Rightarrow> (nat \<Rightarrow> Elf64_Shdr) \<Rightarrow> (string \<times> u64) list" where
  "symbol_entries file eh sh =
     (let s = find_section file eh sh ''.strtab''; t = find_section file eh sh ''.symtab'' in
      if s \<noteq> 0 \<and> t \<noteq> 0 then map (symbol_entry file (sh s) (sh t)) [0..<unat (sh_size (sh t)) div 24] else [])"

definition sections_ok :: "u8 list \<Rightarrow> Elf64_Ehdr \<Rightarrow> (nat \<Rightarrow> Elf64_Shdr) \<Rightarrow> bool" where
  "sections_ok file eh sh \<longleftrightarrow>
     unat (e_shoff eh) + unat (e_shnum eh) * 64 \<le> length file \<and> unat (e_shstrndx eh) < unat (e_shnum eh) \<and>
     in_section file (sh (unat (e_shstrndx eh))) \<and>
     (\<forall>i < unat (e_shnum eh). get_Shdr file (unat (e_shoff eh) + i * 64) = Inr (sh i) \<and>
        str_ok file (sh (unat (e_shstrndx eh))) (sh_name (sh i)) \<and>
        (sh_type (sh i) AND SHT_NOBITS = 0 \<longrightarrow> in_section file (sh i)))"

definition symbols_ok :: "u8 list \<Rightarrow> Elf64_Ehdr \<Rightarrow> (nat \<Rightarrow> Elf64_Shdr) \<Rightarrow> bool" where
  "symbols_ok file eh sh \<longleftrightarrow>
     (let s = find_section file eh sh ''.strtab''; t = find_section file eh sh ''.symtab'' in
      s \<noteq> 0 \<and> t \<noteq> 0 \<longrightarrow>
      (\<forall>i < unat (sh_size (sh t)) div 24. str_ok file (sh s) (field file (unat (sh_offset (sh t)) + i * 24) 4)))"

lemma strnlen_ok:
  assumes "0 \<in> set (take n (drop off file))"
  shows "\<exists>l < n. strnlen file off n = Inr l"
  using assms
proof (induction n arbitrary: off)
  case (Suc n)
  then have "off < length file" by (cases "off < length file") auto
  then have "drop off file = file ! off # drop (Suc off) file" by (simp add: Cons_nth_drop_Suc)
  then show ?case using Suc.IH [of "Suc off"] Suc.prems \<open>off < length file\<close> by (cases "file ! off = 0") auto
qed simp

text \<open>The two checks that the code makes on a name.\<close>

lemma str_ok_checks:
  assumes "str_ok file tab name"
  defines "n \<equiv> unat (ucast (sh_size tab - ucast name) :: u32)"
  shows "ucast name < sh_size tab" "\<exists>l < n. strnlen file (unat (sh_offset tab) + unat name) n = Inr l"
proof -
  have u: "unat (ucast name :: u64) = unat name"
    using unat_less_exp [of name] by (simp add: unsigned_ucast_eq take_bit_nat_eq_self)
  show lt: "ucast name < sh_size tab" using assms(1) u by (simp add: str_ok_def word_less_nat_alt)
  then have "unat (sh_size tab - ucast name) = unat (sh_size tab) - unat name"
    using u by (simp add: unat_sub less_imp_le)
  then have "n = unat (sh_size tab) - unat name"
    using assms(1) by (simp add: n_def unsigned_ucast_eq take_bit_nat_eq_self str_ok_def)
  then show "\<exists>l < n. strnlen file (unat (sh_offset tab) + unat name) n = Inr l"
    using strnlen_ok assms(1) by (simp add: str_ok_def)
qed

lemma in_section_check:
  assumes "in_section file tab" "length file < 2 ^ 64"
  shows "sh_offset tab + sh_size tab \<le> of_nat (length file)"
proof -
  have "unat (sh_offset tab + sh_size tab) = unat (sh_offset tab) + unat (sh_size tab)"
    using assms by (simp add: in_section_def unat_word_ariths)
  moreover have "unat (of_nat (length file) :: u64) = length file" using assms(2) by (simp add: unat_of_nat)
  ultimately show ?thesis using assms(1) by (simp add: in_section_def word_le_nat_alt)
qed

lemma scan_section_step:
  assumes "sections_ok file eh sh" "length file < 2 ^ 64" "i < unat (e_shnum eh)"
  defines "shstr \<equiv> sh (unat (e_shstrndx eh))"
  defines "hit nm \<equiv> sh_type (sh i) AND SHT_NOBITS = 0 \<and> str_at file shstr (sh_name (sh i)) = nm"
  shows "scan_section file eh shstr i (a, b) =
     Inr (if hit ''.strtab'' then i else a, if hit ''.symtab'' then i else b)"
proof -
  have sh: "get_Shdr file (unat (e_shoff eh) + i * 64) = Inr (sh i)" "str_ok file shstr (sh_name (sh i))"
    "sh_type (sh i) AND SHT_NOBITS = 0 \<Longrightarrow> in_section file (sh i)"
    using assms(1,3) by (auto simp: sections_ok_def shstr_def)
  show ?thesis
    using sh(1,3) str_ok_checks [OF sh(2)] in_section_check [OF _ assms(2)]
    by (auto simp: scan_section_def Let_def hit_def str_at_def)
qed

lemma scan_sections:
  assumes "sections_ok file eh sh" "length file < 2 ^ 64"
  shows "for_res (scan_section file eh (sh (unat (e_shstrndx eh)))) [0..<unat (e_shnum eh)] (0, 0) =
     Inr (find_section file eh sh ''.strtab'', find_section file eh sh ''.symtab'')"
proof -
  define lst where "lst nm k = (let is = filter (\<lambda>i. sh_type (sh i) AND SHT_NOBITS = 0 \<and>
             str_at file (sh (unat (e_shstrndx eh))) (sh_name (sh i)) = nm) [0..<k]
        in if is = [] then 0 else last is)" for nm k
  have lst: "lst nm (Suc k) = (if sh_type (sh k) AND SHT_NOBITS = 0 \<and>
      str_at file (sh (unat (e_shstrndx eh))) (sh_name (sh k)) = nm then k else lst nm k)" for nm k
    by (simp add: lst_def Let_def)
  have "\<exists>s'. for_res (scan_section file eh (sh (unat (e_shstrndx eh)))) [0..<unat (e_shnum eh)] (0, 0) = Inr s' \<and>
      s' = (lst ''.strtab'' (unat (e_shnum eh)), lst ''.symtab'' (unat (e_shnum eh)))"
  proof (rule for_res_invariant [where P = "\<lambda>k s'. s' = (lst ''.strtab'' k, lst ''.symtab'' k)"])
    fix i s1
    assume i: "i \<in> set [0..<unat (e_shnum eh)]" and s1: "s1 = (lst ''.strtab'' i, lst ''.symtab'' i)"
    show "\<exists>s'. scan_section file eh (sh (unat (e_shstrndx eh))) i s1 = Inr s' \<and>
        s' = (lst ''.strtab'' (Suc i), lst ''.symtab'' (Suc i))"
      using scan_section_step [OF assms, of i "lst ''.strtab'' i" "lst ''.symtab'' i"] i unfolding s1 lst by simp
  qed (auto simp: lst_def Let_def)
  then show ?thesis by (simp add: find_section_def lst_def)
qed

lemma load_symbol_step:
  assumes "str_ok file strtab (field file (unat (sh_offset symtab) + i * 24) 4)" "in_section file symtab"
    and "i < unat (sh_size symtab) div 24"
  shows "load_symbol file strtab symtab i syms =
     Inr (map_set (fst (symbol_entry file strtab symtab i)) (snd (symbol_entry file strtab symtab i)) syms)"
proof -
  have "(i + 1) * 24 \<le> unat (sh_size symtab) div 24 * 24" using assms(3) by (intro mult_le_mono1) simp
  also have "\<dots> \<le> unat (sh_size symtab)" by simp
  finally have "in_file file (unat (sh_offset symtab) + i * 24) 24"
    using assms(2) by (simp add: in_file_def in_section_def)
  then show ?thesis
    using str_ok_checks [OF assms(1)]
    by (auto simp: load_symbol_def get_Sym_def Let_def symbol_entry_def str_at_def)
qed

lemma find_section_less:
  assumes "sections_ok file eh sh" "find_section file eh sh nm \<noteq> 0"
  shows "find_section file eh sh nm < unat (e_shnum eh)" "in_section file (sh (find_section file eh sh nm))"
proof -
  define f where "f = find_section file eh sh nm"
  let ?is = "filter (\<lambda>i. sh_type (sh i) AND SHT_NOBITS = 0 \<and>
             str_at file (sh (unat (e_shstrndx eh))) (sh_name (sh i)) = nm) [0..<unat (e_shnum eh)]"
  have ne: "?is \<noteq> []" and f: "f = last ?is"
    using assms(2) unfolding f_def find_section_def Let_def by (simp_all split: if_splits del: filter_empty_conv)
  have "f \<in> set ?is" unfolding f by (rule last_in_set [OF ne])
  then have "f < unat (e_shnum eh)" "sh_type (sh f) AND SHT_NOBITS = 0" by simp_all
  then show "find_section file eh sh nm < unat (e_shnum eh)" "in_section file (sh (find_section file eh sh nm))"
    using assms(1) unfolding sections_ok_def f_def by blast+
qed

lemma load_symbols_entries:
  assumes "sections_ok file eh sh" "symbols_ok file eh sh" "length file < 2 ^ 64"
  shows "\<exists>syms. load_symbols file eh = Inr syms \<and> map_find syms = map_of (rev (symbol_entries file eh sh))"
proof -
  define s t where "s = find_section file eh sh ''.strtab''" and "t = find_section file eh sh ''.symtab''"
  have sh: "unat (e_shoff eh) + unat (e_shnum eh) * 64 \<le> length file" "unat (e_shstrndx eh) < unat (e_shnum eh)"
    "in_section file (sh (unat (e_shstrndx eh)))"
    "\<And>i. i < unat (e_shnum eh) \<Longrightarrow> get_Shdr file (unat (e_shoff eh) + i * 64) = Inr (sh i)"
    using assms(1) by (simp_all add: sections_ok_def)
  have u: "unat (of_nat (length file) :: u64) = length file" using assms(3) by (simp add: unat_of_nat)
  have "unat (ucast (e_shnum eh) * 64 :: u64) = unat (e_shnum eh) * 64"
    using assms(3) sh(1) by (simp add: unat_word_ariths unsigned_ucast_eq take_bit_nat_eq_self)
  then have g1: "e_shoff eh + ucast (e_shnum eh) * 64 \<le> of_nat (length file)"
    using assms(3) sh(1) u by (simp add: word_le_nat_alt unat_word_ariths)
  have g2: "e_shstrndx eh < e_shnum eh" using sh(2) by (simp add: word_less_nat_alt)
  note pre = g1 g2 sh(4) [OF sh(2)] in_section_check [OF sh(3) assms(3)] scan_sections [OF assms(1,3)]
  show ?thesis
  proof (cases "s \<noteq> 0 \<and> t \<noteq> 0")
    case False
    then have "load_symbols file eh = Inr []" using pre by (auto simp: load_symbols_def s_def t_def)
    then show ?thesis using False by (auto simp: symbol_entries_def s_def t_def)
  next
    case True
    have st: "get_Shdr file (unat (e_shoff eh) + s * 64) = Inr (sh s)" "get_Shdr file (unat (e_shoff eh) + t * 64) = Inr (sh t)"
      "in_section file (sh t)"
      using find_section_less [OF assms(1)] True sh(4) unfolding s_def t_def by auto
    let ?n = "unat (sh_size (sh t)) div 24"
    have "load_symbols file eh = for_res (load_symbol file (sh s) (sh t)) [0..<?n] []"
      using pre st(1,2) True by (simp add: load_symbols_def s_def [symmetric] t_def [symmetric] unat_div)
    moreover have "\<exists>syms. for_res (load_symbol file (sh s) (sh t)) [0..<?n] [] = Inr syms \<and>
        map_find syms = map_of (rev (map (symbol_entry file (sh s) (sh t)) [0..<?n]))"
    proof (rule for_res_invariant
        [where P = "\<lambda>k syms. map_find syms = map_of (rev (map (symbol_entry file (sh s) (sh t)) [0..<k]))"])
      fix i syms
      assume i: "i \<in> set [0..<?n]" and syms: "map_find syms = map_of (rev (map (symbol_entry file (sh s) (sh t)) [0..<i]))"
      have "str_ok file (sh s) (field file (unat (sh_offset (sh t)) + i * 24) 4)"
        using assms(2) True i by (simp add: symbols_ok_def s_def t_def Let_def)
      from load_symbol_step [OF this st(3), of syms]
      show "\<exists>syms'. load_symbol file (sh s) (sh t) i syms = Inr syms' \<and>
          map_find syms' = map_of (rev (map (symbol_entry file (sh s) (sh t)) [0..<Suc i]))"
        using i syms by (auto simp: fun_eq_iff split: prod.split)
    qed simp_all
    ultimately show ?thesis using True by (simp add: symbol_entries_def s_def [symmetric] t_def [symmetric] Let_def)
  qed
qed

text \<open>The names bound to an address; the reverse table keeps the last of them in key order.\<close>

definition names_at :: "(string, u64) std_map \<Rightarrow> u64 \<Rightarrow> string set" where
  "names_at syms a = {s. map_find syms s = Some a}"

lemma finite_names_at [simp]: "finite (names_at syms a)"
  by (rule finite_subset [of _ "dom (map_find syms)"]) (auto simp: names_at_def finite_dom_map_of)

lemma reverse_fold:
  assumes "map_wf syms"
  shows "map_find (fold (\<lambda>(name, addr) r. map_set addr name r) syms r) a =
     (if names_at syms a = {} then map_find r a else Some (Max (names_at syms a)))"
  using assms
proof (induction syms arbitrary: r)
  case Nil
  show ?case by (simp add: names_at_def)
next
  case (Cons p syms)
  obtain name addr where p: "p = (name, addr)" by (cases p)
  have wf: "map_wf syms" and lt: "\<And>s v. map_find syms s = Some v \<Longrightarrow> name < s"
    using Cons.prems p by (force simp: map_wf_Cons dest: map_of_SomeD)+
  have names: "names_at (p # syms) a = (if addr = a then insert name (names_at syms a) else names_at syms a)"
    using lt p by (auto simp: names_at_def split: if_splits)
  have "Max (insert name (names_at syms a)) = Max (names_at syms a)" if "names_at syms a \<noteq> {}"
  proof -
    have "Max (names_at syms a) \<in> names_at syms a" using that by simp
    then have "name < Max (names_at syms a)" unfolding names_at_def using lt by blast
    then show ?thesis using that by (simp add: max_absorb2)
  qed
  then show ?case
    unfolding fold_Cons comp_def Cons.IH [OF wf] names using p by auto
qed

section \<open>Properties\<close>

text \<open>
  An image with one segment of three file bytes and three zero bytes, and the symbol
  \<^verbatim>\<open>main\<close>, on which the properties are evaluated.
\<close>

definition sample_elf :: "u8 list" where
  "sample_elf = [
      \<comment> \<open>identification\<close>
      127, 69, 76, 70, 2,
      \<comment> \<open>the string table\<close>
      0, 46, 115, 116, 114, 116, 97, 98, 0, 46, 115, 121, 109, 116, 97, 98, 0, 109, 97, 105,
      110, 0,
      \<comment> \<open>rest of the file header\<close>
      0, 0, 0, 0, 0, 64, 0, 0, 0, 0, 0, 0, 0, 120, 0, 0, 0, 0, 0, 0, 0, 0, 0, 0, 0, 0, 0, 0,
      0, 1, 0, 0, 0, 3, 0, 1, 0,
      \<comment> \<open>program header\<close>
      1, 0, 0, 0, 0, 0, 0, 0, 6, 0, 0, 0, 0, 0, 0, 0, 0, 0, 0, 0, 0, 0, 0, 0, 0, 0, 0, 128, 0,
      0, 0, 0, 3, 0, 0, 0, 0, 0, 0, 0, 6, 0, 0, 0, 0, 0, 0, 0, 0, 0, 0, 0, 0, 0, 0, 0,
      \<comment> \<open>section 0, its tail holding the symbol\<close>
      0, 0, 0, 0, 0, 0, 0, 0, 0, 0, 0, 0, 0, 0, 0, 0, 0, 0, 0, 0, 0, 0, 0, 0, 0, 0, 0, 0, 0,
      0, 0, 0, 0, 0, 0, 0, 0, 0, 0, 0, 17, 0, 0, 0, 0, 0, 0, 0, 0, 0, 0, 128, 0, 0, 0, 0, 0,
      0, 0, 0, 0, 0, 0, 0,
      \<comment> \<open>section 1, the strings\<close>
      1, 0, 0, 0, 3, 0, 0, 0, 0, 0, 0, 0, 0, 0, 0, 0, 0, 0, 0, 0, 0, 0, 0, 0, 5, 0, 0, 0, 0,
      0, 0, 0, 22, 0, 0, 0, 0, 0, 0, 0, 0, 0, 0, 0, 0, 0, 0, 0, 0, 0, 0, 0, 0, 0, 0, 0, 0, 0,
      0, 0, 0, 0, 0, 0,
      \<comment> \<open>section 2, the symbols\<close>
      9, 0, 0, 0, 2, 0, 0, 0, 0, 0, 0, 0, 0, 0, 0, 0, 0, 0, 0, 0, 0, 0, 0, 0, 160, 0, 0, 0, 0,
      0, 0, 0, 24, 0, 0, 0, 0, 0, 0, 0, 0, 0, 0, 0, 0, 0, 0, 0, 0, 0, 0, 0, 0, 0, 0, 0, 0, 0,
      0, 0, 0, 0, 0, 0]"

definition sample_eh :: Elf64_Ehdr where
  "sample_eh =
     \<lparr>e_ident = [127, 69, 76, 70, 2, 0, 46, 115, 116, 114, 116, 97, 98, 0, 46, 115],
      e_type = 0x6D79, e_machine = 0x6174, e_version = 0x616D0062, e_entry = 0x6E69, e_phoff = 64,
      e_shoff = 120, e_flags = 0, e_ehsize = 0, e_phentsize = 0, e_phnum = 1, e_shentsize = 0,
      e_shnum = 3, e_shstrndx = 1\<rparr>"

definition sample_ph :: Elf64_Phdr where
  "sample_ph = \<lparr>p_type = 1, p_flags = 0, p_offset = 6, p_vaddr = 0, p_paddr = 0x80000000,
     p_filesz = 3, p_memsz = 6, p_align = 0\<rparr>"

lemma sample_Ehdr: "get_Ehdr sample_elf 0 = Inr sample_eh"
  by code_simp

lemma sample_Phdr: "get_Phdr sample_elf 64 = Inr sample_ph"
  by code_simp

lemma sample_length: "length sample_elf = 312"
  by code_simp

lemma sample_Shdr:
  "get_Shdr sample_elf 120 = Inr
    \<lparr>sh_name = 0, sh_type = 0, sh_flags = 0, sh_addr = 0, sh_offset = 0, sh_size = 0, sh_link = 17,
     sh_info = 0, sh_addralign = 0x80000000, sh_entsize = 0\<rparr>"
  "get_Shdr sample_elf 184 = Inr
    \<lparr>sh_name = 1, sh_type = 3, sh_flags = 0, sh_addr = 0, sh_offset = 5, sh_size = 22, sh_link = 0,
     sh_info = 0, sh_addralign = 0, sh_entsize = 0\<rparr>"
  "get_Shdr sample_elf 248 = Inr
    \<lparr>sh_name = 9, sh_type = 2, sh_flags = 0, sh_addr = 0, sh_offset = 160, sh_size = 24, sh_link = 0,
     sh_info = 0, sh_addralign = 0, sh_entsize = 0\<rparr>"
  by code_simp+

lemma sample_Sym:
  "get_Sym sample_elf 160 = Inr
    \<lparr>st_name = 17, st_info = 0, st_other = 0, st_shndx = 0, st_value = 0x80000000, st_size = 0\<rparr>"
  by code_simp

lemma sample_strings:
  "strnlen sample_elf 5 22 = Inr 0" "strnlen sample_elf 6 21 = Inr 7"
  "strnlen sample_elf 14 13 = Inr 7" "strnlen sample_elf 22 5 = Inr 4"
  "c_string sample_elf 5 = []" "c_string sample_elf 6 = ''.strtab''"
  "c_string sample_elf 14 = ''.symtab''" "c_string sample_elf 22 = ''main''"
  by code_simp+

lemma sample_segment: "segment_ok sample_elf block_fits sample_ph"
  by (simp add: segment_ok_def sample_ph_def sample_length block_fits_def)

definition no_program :: dpi_memory where
  "no_program = \<lparr>memoryContents = Memory32, symbols = [], reverseSymbols = []\<rparr>"

lemma mem_byte_Memory32 [simp]: "mem_byte Memory32 = (\<lambda>_. 0)"
  by (simp add: fun_eq_iff mem_byte_def mem_word_def Memory32_def byte_at_def)

lemma load_image:
  assumes "length file < 2 ^ 64" "get_Ehdr file 0 = Inr eh" "IS_ELF64 eh"
    and "unat (e_phoff eh) + unat (e_phnum eh) * 56 \<le> length file"
    and "\<And>i. i < unat (e_phnum eh) \<Longrightarrow>
      get_Phdr file (unat (e_phoff eh) + i * 56) = Inr (ph i) \<and> segment_ok file block_fits (ph i)"
    and "load_symbols file eh = Inr syms"
  shows "\<exists>g'. memory_init junk file g = Inr g' \<and> symbols g' = syms \<and>
     mem_byte (memoryContents g') =
       fold (\<lambda>i. segment_byte file (ph i)) [0..<unat (e_phnum eh)] (\<lambda>_. 0)"
proof -
  have "addr_max Memory32 = 0" by (simp add: Memory32_def)
  then obtain m where m: "load_segments write_block junk file eh Memory32 = Inr m"
    "mem_byte m = fold (\<lambda>i. segment_byte file (ph i)) [0..<unat (e_phnum eh)] (mem_byte Memory32)"
    using pm.load_segments_image [of Memory32 "file" eh ph junk] assms(1,5) by blast
  have "64 \<le> length file"
    using assms(2) by (simp add: get_Ehdr_def in_file_def split: if_splits)
  moreover have "e_phoff eh + ucast (e_phnum eh) * 56 \<le> of_nat (length file)"
  proof -
    have "unat (of_nat (length file) :: u64) = length file"
      using assms(1) by (simp add: unat_of_nat)
    moreover have "unat (ucast (e_phnum eh) * 56 :: u64) = unat (e_phnum eh) * 56"
      using assms(1,4) by (simp add: unat_word_ariths unsigned_ucast_eq take_bit_nat_eq_self)
    ultimately show ?thesis
      using assms(1,4) by (simp add: word_le_nat_alt unat_word_ariths)
  qed
  ultimately have "elfLoader write_block junk file Memory32 = Inr (m, syms)"
    using assms(2,3,6) m(1) by (simp add: elfLoader_def)
  then show ?thesis
    using m(2) by (simp add: memory_init_def)
qed

text \<open>C1: loading a well-formed image gives a memory whose bytes are exactly those of its loadable
  segments, in header order: the file's bytes, then zeros up to the memory size, and zero outside
  every segment; and a symbol table in which a name has the value of the last entry of the image's
  symbol table with that name, and no other name is known. Well-formed means: the headers, the
  segments' bytes and the sections with contents lie in the file; a segment is at most as large in
  the file as in memory and below \<open>2 ^ 32\<close> bytes; the part of a segment from the file and the part
  of zeros each start at a multiple of four or reach the next one (a shorter unaligned block
  overwrites what follows it, as \<^verbatim>\<open>write_block\<close> does); and names are zero-terminated within their
  string table.\<close>

theorem memory_init_image:
  assumes "length file < 2 ^ 64" "get_Ehdr file 0 = Inr eh" "IS_ELF64 eh"
    and "unat (e_phoff eh) + unat (e_phnum eh) * 56 \<le> length file"
    and "\<And>i. i < unat (e_phnum eh) \<Longrightarrow>
      get_Phdr file (unat (e_phoff eh) + i * 56) = Inr (ph i) \<and> segment_ok file block_fits (ph i)"
    and "sections_ok file eh sh" "symbols_ok file eh sh"
  shows "\<exists>g'. memory_init junk file g = Inr g' \<and>
     map_find (symbols g') = map_of (rev (symbol_entries file eh sh)) \<and>
     mem_byte (memoryContents g') =
       fold (\<lambda>i. segment_byte file (ph i)) [0..<unat (e_phnum eh)] (\<lambda>_. 0)"
proof -
  obtain syms where syms: "load_symbols file eh = Inr syms" "map_find syms = map_of (rev (symbol_entries file eh sh))"
    using load_symbols_entries [OF assms(6,7,1)] by blast
  show ?thesis using load_image [OF assms(1-5) syms(1), of junk g] syms(2) by blast
qed

definition sample_sh :: "nat \<Rightarrow> Elf64_Shdr" where
  "sample_sh i =
     (if i = 0 then \<lparr>sh_name = 0, sh_type = 0, sh_flags = 0, sh_addr = 0, sh_offset = 0, sh_size = 0, sh_link = 17,
        sh_info = 0, sh_addralign = 0x80000000, sh_entsize = 0\<rparr>
      else if i = 1 then \<lparr>sh_name = 1, sh_type = 3, sh_flags = 0, sh_addr = 0, sh_offset = 5, sh_size = 22, sh_link = 0,
        sh_info = 0, sh_addralign = 0, sh_entsize = 0\<rparr>
      else \<lparr>sh_name = 9, sh_type = 2, sh_flags = 0, sh_addr = 0, sh_offset = 160, sh_size = 24, sh_link = 0,
        sh_info = 0, sh_addralign = 0, sh_entsize = 0\<rparr>)"

lemma sample_names:
  "0 \<in> set (take 22 (drop 5 sample_elf))" "0 \<in> set (take 21 (drop 6 sample_elf))"
  "0 \<in> set (take 13 (drop 14 sample_elf))" "0 \<in> set (take 5 (drop 22 sample_elf))"
  "(field sample_elf 160 4 :: u32) = 17" "(field sample_elf 168 8 :: u64) = 0x80000000"
  by code_simp+

lemma sample_sections: "sections_ok sample_elf sample_eh sample_sh"
proof -
  have e: "unat (e_shnum sample_eh) = 3" "unat (e_shoff sample_eh) = 120" "unat (e_shstrndx sample_eh) = 1"
    by (simp_all add: sample_eh_def)
  have "get_Shdr sample_elf (120 + i * 64) = Inr (sample_sh i) \<and> str_ok sample_elf (sample_sh 1) (sh_name (sample_sh i)) \<and>
      in_section sample_elf (sample_sh i)" if "i < 3" for i
  proof -
    have "i = 0 \<or> i = 1 \<or> i = 2" using that by auto
    then show ?thesis
      by (auto simp: sample_sh_def sample_Shdr str_ok_def in_section_def sample_names sample_length)
  qed
  then show ?thesis
    unfolding sections_ok_def e by (simp add: sample_length)
qed

lemma sample_find:
  "find_section sample_elf sample_eh sample_sh ''.strtab'' = 1"
  "find_section sample_elf sample_eh sample_sh ''.symtab'' = 2"
  by (simp_all add: find_section_def sample_eh_def sample_sh_def str_at_def sample_strings SHT_NOBITS_def upt_rec Let_def)

lemma sample_symbol_table:
  "symbols_ok sample_elf sample_eh sample_sh"
  "symbol_entries sample_elf sample_eh sample_sh = [(''main'', 0x80000000)]"
  by (simp_all add: symbols_ok_def symbol_entries_def sample_find symbol_entry_def sample_sh_def str_ok_def str_at_def
      sample_names sample_strings Let_def)

theorem memory_init_image_witness:
  "\<exists>g'. memory_init (\<lambda>_. 0xff) sample_elf no_program = Inr g' \<and> map_find (symbols g') ''main'' = Some 0x80000000 \<and>
     map_find (symbols g') ''tohost'' = None \<and>
     mem_byte (memoryContents g') = segment_byte sample_elf sample_ph (\<lambda>_. 0)"
proof -
  have e: "IS_ELF64 sample_eh" "unat (e_phoff sample_eh) + unat (e_phnum sample_eh) * 56 \<le> length sample_elf"
    "length sample_elf < 2 ^ 64" "unat (e_phnum sample_eh) = 1"
    by (simp_all add: sample_eh_def IS_ELF64_def sample_length)
  have p: "get_Phdr sample_elf (unat (e_phoff sample_eh) + i * 56) = Inr sample_ph \<and> segment_ok sample_elf block_fits sample_ph"
    if "i < unat (e_phnum sample_eh)" for i
    using that e(4) sample_Phdr sample_segment by (simp add: sample_eh_def)
  show ?thesis
    using memory_init_image [OF e(3) sample_Ehdr e(1,2) p sample_sections sample_symbol_table(1), of "\<lambda>_. 0xff" no_program]
    by (auto simp: sample_symbol_table(2) e(4))
qed

text \<open>After a load into fresh tables, the reverse lookup of an address returns the last name
  (in key order) that the symbol table gives this address, and the empty string when there is none.\<close>

lemma memory_init_reverse:
  assumes "memory_init junk file g = Inr g'" "reverseSymbols g = []"
  shows "memory_symbol_from_addr g' a =
     (if names_at (symbols g') a = {} then [] else Max (names_at (symbols g') a))"
proof -
  have "map_wf (symbols g')"
    using assms(1) by (auto simp: memory_init_def elfLoader_def res_bind_Inr_iff load_symbols_wf)
  moreover have "reverseSymbols g' = fold (\<lambda>(name, addr) r. map_set addr name r) (symbols g') []"
    using assms by (auto simp: memory_init_def res_bind_Inr_iff)
  ultimately show ?thesis
    by (simp add: memory_symbol_from_addr_def reverse_fold)
qed

text \<open>A file shorter than an ELF header, or whose identification is not that of a 64-bit ELF
  file, is refused by an assertion before anything is written.\<close>

lemma memory_init_rejects:
  assumes "length file < 64 \<or> take 5 file \<noteq> [0x7f, 0x45, 0x4c, 0x46, 2]"
  shows "memory_init junk file g = Inl AssertFailed"
  using assms
  by (auto simp: memory_init_def elfLoader_def get_Ehdr_def in_file_def IS_ELF64_def require_def)

end
