(* ===== verification/Host.thy ===== *)
theory Host
  imports Perfect_Memory
begin

text \<open>
  The host side of the \<^verbatim>\<open>tohost\<close> protocol, \<^verbatim>\<open>simulator/models/cxx/dpi_host.cpp\<close>: a write to
  \<^verbatim>\<open>tohost\<close> either ends the simulation or points at a block of eight double words, the system
  call number, its arguments, of which only \<^verbatim>\<open>SYS_write\<close> is served. The operating system's
  \<^verbatim>\<open>write\<close> is the parameter \<open>sys_write\<close>, the bytes left on the stack for the local array are the
  parameter \<open>stack\<close>, and what the host does outside the simulation is a list of events.
\<close>

definition SYS_write :: u64 where "SYS_write = 64"

datatype host_event =
    Wrote u32 "u8 list"
  | Unknown_syscall u64

record host_state =
  fromhostAddr :: u64
  dpi_mem :: dpi_memory

definition read_magic :: "dpi_memory \<Rightarrow> u64 \<Rightarrow> nat \<Rightarrow> u64 list \<Rightarrow> u64 list res" where
  "read_magic g data i magicmem =
     res_bind (memory_dpi_read_contents g (data + of_nat i * 8)) (\<lambda>lower.
     res_bind (memory_dpi_read_contents g (data + of_nat i * 8 + 4)) (\<lambda>upper.
     Inr (magicmem @ [push_bit 32 (ucast upper) OR ucast lower])))"

text \<open>The copy loop. Its counter has 32 bits and is compared with a length of 64, so it may run for
  ever: then \<open>copy_loop\<close> is \<open>None\<close>.\<close>

partial_function (option) copy_loop ::
  "dpi_memory \<Rightarrow> u64 \<Rightarrow> u64 \<Rightarrow> u32 \<Rightarrow> u8 list \<Rightarrow> u8 list res option" where
  "copy_loop g base len i buf =
     (if ucast i < len
      then (case memory_dpi_read_contents g (base + ucast (i AND NOT 3)) of
              Inl e \<Rightarrow> Some (Inl e)
            | Inr data \<Rightarrow> copy_loop g base len (i + 1) (buf[unat i := ucast (drop_bit (unat (i mod 4) * 8) data)]))
      else Some (Inr buf))"

declare copy_loop.simps [code]

text \<open>The array starts uninitialised; its zeros here are never read.\<close>

definition serve_write ::
  "u64 \<Rightarrow> (u32 \<Rightarrow> u8 list \<Rightarrow> u64) \<Rightarrow> u64 list \<Rightarrow> host_state \<Rightarrow> (host_event list \<times> host_state) res" where
  "serve_write stack sys_write magicmem h =
     (let len = magicmem ! 3; fd = ucast (magicmem ! 1) in
      if stack < len then Inl StackOverflow
      else case copy_loop (dpi_mem h) (magicmem ! 2) len 0 (replicate (unat len) 0) of
        None \<Rightarrow> Inl Diverges
      | Some r \<Rightarrow>
          res_bind r (\<lambda>buf.
          let result = sys_write fd buf in
          res_bind (memory_dpi_write_contents (dpi_mem h) (fromhostAddr h) (ucast result)) (\<lambda>g.
          res_bind (memory_dpi_write_contents g (fromhostAddr h + 4) (ucast (drop_bit 32 result))) (\<lambda>g.
          Inr ([Wrote fd buf], h\<lparr>dpi_mem := g\<rparr>)))))"

definition resolve_fromhost :: "host_state \<Rightarrow> host_state" where
  "resolve_fromhost h =
     (if fromhostAddr h = 0
      then let (a, g) = memory_dpi_get_symbol_addr (dpi_mem h) ''fromhost'' in h\<lparr>fromhostAddr := a, dpi_mem := g\<rparr>
      else h)"

definition tohost ::
  "u64 \<Rightarrow> (u32 \<Rightarrow> u8 list \<Rightarrow> u64) \<Rightarrow> u32 list \<Rightarrow> host_state \<Rightarrow> (int \<times> host_event list \<times> host_state) res" where
  "tohost stack sys_write svdata h =
     (let h = resolve_fromhost h;
          data = push_bit 32 (ucast (svdata ! 1)) OR ucast (svdata ! 0)
      in if data AND 1 \<noteq> 0 then Inr (1, [], h)
         else
           res_bind (for_res (read_magic (dpi_mem h) data) [0..<8] []) (\<lambda>magicmem.
           if magicmem ! 0 = SYS_write
           then res_bind (serve_write stack sys_write magicmem h) (\<lambda>(ev, h). Inr (0, ev, h))
           else Inr (0, [Unknown_syscall (magicmem ! 0)], h)))"

section \<open>The served call\<close>

text \<open>The double word at a byte address of the design, as the host reads it.\<close>

definition mem_dword :: "memory32 \<Rightarrow> u64 \<Rightarrow> u64" where
  "mem_dword m a = dword (mem_word m (ucast a)) (mem_word m (ucast (a + 4)))"

lemma ucast_aligned_iff: "(ucast (a :: u64) :: u32) AND 3 = 0 \<longleftrightarrow> a AND 3 = 0"
proof -
  have "unat (ucast a :: u32) = unat a mod 2 ^ 32"
    by (simp add: unsigned_ucast_eq take_bit_eq_mod)
  then have "2 ^ 2 dvd unat (ucast a :: u32) \<longleftrightarrow> 2 ^ 2 dvd unat a"
    by (simp add: dvd_mod_iff)
  then show ?thesis
    unfolding and_mask_dvd_nat by (simp add: mask_eq_exp_minus_1)
qed

lemmas ucast_aligned = ucast_aligned_iff [THEN iffD2]

lemma aligned64_add: "a AND 3 = (0 :: u64) \<Longrightarrow> b AND 3 = 0 \<Longrightarrow> (a + b) AND 3 = 0"
  using aligned_add [of a 2 b] by (simp add: mask_eq_exp_minus_1)

lemma read_contents:
  assumes "addr_max (memoryContents g) = 0" "a AND 3 = 0"
  shows "memory_dpi_read_contents g a = Inr (mem_word (memoryContents g) (ucast a))"
  using memory32_read_ok [OF ucast_aligned [OF assms(2)] assms(1)]
  by (simp add: memory_dpi_read_contents_def)

lemma write_contents:
  assumes "addr_max (memoryContents g) = 0" "a AND 3 = 0"
  obtains m' where "memory_dpi_write_contents g a d = Inr (g\<lparr>memoryContents := m'\<rparr>)"
    "addr_max m' = 0" "mem_word m' = (mem_word (memoryContents g))(ucast a := d)"
proof -
  obtain m' where "memory32_write (memoryContents g) (ucast a) d 0xf = Inr (True, m')" "addr_max m' = 0"
    "mem_word m' = (mem_word (memoryContents g))(ucast a := d)"
    using memory32_write_full [OF ucast_aligned [OF assms(2)] assms(1)] by blast
  then show thesis using that by (simp add: memory_dpi_write_contents_def)
qed

lemma of_nat_times8_aligned: "(of_nat i * 8 :: u64) AND 3 = 0" "(of_nat i * 8 + 4 :: u64) AND 3 = 0"
proof -
  have "(of_nat (i * 8) :: u64) AND mask 2 = 0"
    unfolding and_mask_dvd_nat [symmetric] unat_of_nat by (simp add: dvd_mod)
  then show a: "(of_nat i * 8 :: u64) AND 3 = 0" by (simp add: mask_eq_exp_minus_1)
  show "(of_nat i * 8 + 4 :: u64) AND 3 = 0" using aligned64_add [OF a, of 4] by simp
qed

lemma read_magic_block:
  assumes "addr_max (memoryContents g) = 0" "data AND 3 = 0"
  shows "for_res (read_magic g data) [0..<n] [] =
     Inr (map (\<lambda>i. mem_dword (memoryContents g) (data + of_nat i * 8)) [0..<n])"
proof -
  have "\<exists>s. for_res (read_magic g data) [0..<n] [] = Inr s \<and>
      s = map (\<lambda>i. mem_dword (memoryContents g) (data + of_nat i * 8)) [0..<n]"
  proof (rule for_res_invariant
      [where a = 0 and P = "\<lambda>k s. s = map (\<lambda>i. mem_dword (memoryContents g) (data + of_nat i * 8)) [0..<k]"])
    fix i s
    assume s: "s = map (\<lambda>i. mem_dword (memoryContents g) (data + of_nat i * 8)) [0..<i]"
    have "(data + of_nat i * 8) AND 3 = 0" "(data + of_nat i * 8 + 4) AND 3 = 0"
      using aligned64_add [OF assms(2)] of_nat_times8_aligned [of i] by (simp_all add: add.assoc)
    then show "\<exists>s'. read_magic g data i s = Inr s' \<and>
        s' = map (\<lambda>i. mem_dword (memoryContents g) (data + of_nat i * 8)) [0..<Suc i]"
      using s by (simp add: read_magic_def read_contents [OF assms(1)] mem_dword_def dword_def)
  qed simp_all
  then show ?thesis by blast
qed

lemma aligned_split_mask:
  assumes "a AND mask n = (0 :: 'a::len word)" "n < LENGTH('a)"
  shows "(a + i) AND NOT (mask n) = a + (i AND NOT (mask n))" "(a + i) AND mask n = i AND mask n"
proof -
  have "(a + (i AND NOT (mask n))) AND mask n = 0"
    using aligned_add [of a n "i AND NOT (mask n)"] assms by (simp add: and_not_mask_mask)
  note aligned_plus_mask [OF this, of "i AND mask n"]
  moreover have "a + (i AND NOT (mask n)) + (i AND mask n) = a + i"
    using mask_split [of i n] by (metis add.assoc)
  ultimately show "(a + i) AND NOT (mask n) = a + (i AND NOT (mask n))" "(a + i) AND mask n = i AND mask n"
    by (simp_all add: and.assoc)
qed

lemmas aligned_split = aligned_split_mask [where n = 2 and 'a = 32, simplified]

lemma ucast_ucast32: "ucast (ucast (k :: u32) :: u64) = k"
  by (rule bit_word_eqI) (auto simp: bit_simps)

lemma ucast_not_mask: "(ucast (k AND NOT (mask n) :: u32) :: u64) AND mask n = 0"
  by (rule bit_word_eqI) (auto simp: bit_simps)

lemma copy_address:
  fixes base :: u64
  assumes "base AND 3 = 0"
  shows "(base + ucast (i AND NOT 3 :: u32)) AND 3 = 0"
proof -
  have "(ucast (i AND NOT 3) :: u64) AND 3 = 0"
    using ucast_not_mask [of i 2] by (simp add: mask_eq_exp_minus_1)
  then show ?thesis by (rule aligned64_add [OF assms])
qed

text \<open>One iteration stores the byte of the design's buffer.\<close>

lemma copy_loop_step:
  assumes "addr_max (memoryContents g) = 0" "base AND 3 = 0" "ucast i < len"
  shows "copy_loop g base len i buf =
     copy_loop g base len (i + 1) (buf[unat i := mem_byte (memoryContents g) (ucast base + i)])"
proof -
  have "(ucast (base + ucast (i AND NOT 3)) :: u32) = (ucast base + i) AND NOT 3"
    using aligned_split(1) [OF ucast_aligned [OF assms(2)], of i]
    by (simp add: ucast_add64 ucast_ucast32)
  moreover have "i mod 4 = (ucast base + i) AND 3"
    using aligned_split(2) [OF ucast_aligned [OF assms(2)], of i] and_mask_mod [of i 2]
    by (simp add: mask_eq_exp_minus_1)
  moreover have "memory_dpi_read_contents g (base + ucast (i AND NOT 3)) =
      Inr (mem_word (memoryContents g) (ucast (base + ucast (i AND NOT 3))))"
    by (rule read_contents [OF assms(1) copy_address [OF assms(2)]])
  ultimately show ?thesis
    using assms(3) by (subst copy_loop.simps) (simp add: mem_byte_def byte_at_def mult.commute)
qed

lemma ucast_less_iff: "ucast (i :: u32) < (len :: u64) \<longleftrightarrow> unat i < unat len"
  using unat_less_exp [of i] by (simp add: word_less_nat_alt unsigned_ucast_eq take_bit_nat_eq_self)

text \<open>A buffer of fewer than \<open>2 ^ 32\<close> bytes is copied.\<close>

lemma copy_loop_bytes:
  assumes "addr_max (memoryContents g) = 0" "base AND 3 = 0" "unat len < 2 ^ 32"
    and "unat i \<le> unat len" "length buf = unat len"
  shows "copy_loop g base len i buf = Some (Inr (take (unat i) buf @
     map (\<lambda>k. mem_byte (memoryContents g) (ucast base + of_nat k)) [unat i..<unat len]))"
  using assms(4,5)
proof (induction "unat len - unat i" arbitrary: i buf)
  case 0
  then have "unat i = unat len" by simp
  then show ?case using 0 by (subst copy_loop.simps) (simp add: ucast_less_iff)
next
  case (Suc n)
  have lt: "unat i < unat len" using Suc.hyps(2) by simp
  then have u: "unat (i + 1) = Suc (unat i)"
    using assms(3) by (simp add: unat_word_ariths)
  let ?b = "mem_byte (memoryContents g) (ucast base + i)"
  have "take (Suc (unat i)) (buf[unat i := ?b]) = take (unat i) buf @ [?b]"
    using lt Suc.prems(2) by (simp add: take_Suc_conv_app_nth)
  moreover have "[unat i..<unat len] = unat i # [Suc (unat i)..<unat len]" using lt by (rule upt_conv_Cons)
  moreover have "copy_loop g base len (i + 1) (buf[unat i := ?b]) = Some (Inr (take (unat (i + 1)) (buf[unat i := ?b]) @
     map (\<lambda>k. mem_byte (memoryContents g) (ucast base + of_nat k)) [unat (i + 1)..<unat len]))"
    using Suc.hyps(1) [of "i + 1" "buf[unat i := ?b]"] Suc.hyps(2) Suc.prems lt u by simp
  ultimately show ?case
    using copy_loop_step [OF assms(1,2)] lt by (simp add: ucast_less_iff u)
qed

text \<open>With \<open>2 ^ 32\<close> bytes or more the counter wraps before it reaches the length.\<close>

lemma copy_loop_diverges:
  assumes "addr_max (memoryContents g) = 0" "base AND 3 = 0" "2 ^ 32 \<le> unat len"
  shows "copy_loop g base len i buf = None"
proof (rule ccontr)
  assume "copy_loop g base len i buf \<noteq> None"
  then obtain r where r: "copy_loop g base len i buf = Some r" by blast
  have "\<not> (addr_max (memoryContents g) = 0 \<and> base AND 3 = 0 \<and> 2 ^ 32 \<le> unat len)"
  proof (rule copy_loop.raw_induct [where P =
        "\<lambda>g base len i buf r. \<not> (addr_max (memoryContents g) = 0 \<and> base AND 3 = 0 \<and> 2 ^ 32 \<le> unat len)", OF _ r])
    fix loop :: "dpi_memory \<Rightarrow> u64 \<Rightarrow> u64 \<Rightarrow> u32 \<Rightarrow> u8 list \<Rightarrow> u8 list res option" and g base len i buf r
    assume IH: "\<And>g base len i buf r. loop g base len i buf = Some r \<Longrightarrow>
        \<not> (addr_max (memoryContents g) = 0 \<and> base AND 3 = 0 \<and> 2 ^ 32 \<le> unat len)"
      and body: "(if ucast i < len
          then case memory_dpi_read_contents g (base + ucast (i AND NOT 3)) of
              Inl e \<Rightarrow> Some (Inl e)
            | Inr data \<Rightarrow> loop g base len (i + 1) (buf[unat i := ucast (drop_bit (unat (i mod 4) * 8) data)])
          else Some (Inr buf)) = Some r"
    show "\<not> (addr_max (memoryContents g) = 0 \<and> base AND 3 = 0 \<and> 2 ^ 32 \<le> unat len)"
    proof
      assume a: "addr_max (memoryContents g) = 0 \<and> base AND 3 = 0 \<and> 2 ^ 32 \<le> unat len"
      have "ucast i < len" using a unat_less_exp [of i] by (simp add: ucast_less_iff)
      then show False
        using body IH [of g base len] a read_contents [OF conjunct1 [OF a] copy_address [of base i]] by auto
    qed
  qed
  then show False using assms by blast
qed

lemma copy_loop_unaligned:
  assumes "base AND 3 \<noteq> 0" "0 < len"
  shows "copy_loop g base len 0 buf = Some (Inl AssertFailed)"
  using assms
  by (subst copy_loop.simps) (simp add: memory_dpi_read_contents_def memory32_read_def ucast_aligned_iff)

section \<open>The outcomes of a request\<close>

text \<open>The address of \<^verbatim>\<open>fromhost\<close> the host uses: looked up in the symbol table by the first request,
  where the lookup of a missing symbol enters it with the value 0.\<close>

lemma resolve_fromhost_eq:
  assumes "(fh, syms) = (if fromhostAddr h \<noteq> 0 then (fromhostAddr h, symbols (dpi_mem h))
      else case map_find (symbols (dpi_mem h)) ''fromhost'' of Some a \<Rightarrow> (a, symbols (dpi_mem h))
           | None \<Rightarrow> (0, map_set ''fromhost'' 0 (symbols (dpi_mem h))))"
    and "h0 = h\<lparr>fromhostAddr := fh, dpi_mem := (dpi_mem h)\<lparr>symbols := syms\<rparr>\<rparr>"
  shows "resolve_fromhost h = h0"
  using assms by (auto simp: resolve_fromhost_def memory_dpi_get_symbol_addr_def map_index_def split: option.splits if_splits)

lemma resolve_fromhost_memory: "memoryContents (dpi_mem (resolve_fromhost h)) = memoryContents (dpi_mem h)"
  by (simp add: resolve_fromhost_def memory_dpi_get_symbol_addr_def case_prod_beta Let_def)

text \<open>A request block that is aligned is read whole.\<close>

lemma tohost_block:
  assumes "addr_max (memoryContents (dpi_mem h)) = 0" "data = dword (svdata ! 0) (svdata ! 1)" "data AND 3 = 0"
    and "m = memoryContents (dpi_mem h)"
  shows "tohost stack sys_write svdata h =
     (if mem_dword m data = SYS_write
      then res_bind (serve_write stack sys_write (map (\<lambda>i. mem_dword m (data + of_nat i * 8)) [0..<8]) (resolve_fromhost h))
             (\<lambda>(ev, h). Inr (0, ev, h))
      else Inr (0, [Unknown_syscall (mem_dword m data)], resolve_fromhost h))"
proof -
  have data: "push_bit 32 (ucast (svdata ! Suc 0)) OR ucast (svdata ! 0) = data"
    using assms(2) by (simp add: dword_def)
  have "data AND 1 = (data AND 3) AND 1" by (simp add: and.assoc)
  then have even: "data AND 1 = 0" using assms(3) by simp
  have "for_res (read_magic (dpi_mem (resolve_fromhost h)) data) [0..<8] [] =
      Inr (map (\<lambda>i. mem_dword m (data + of_nat i * 8)) [0..<8])"
    using read_magic_block [OF _ assms(3), of "dpi_mem (resolve_fromhost h)" 8] assms(1,4)
    by (simp add: resolve_fromhost_memory del: upt_Suc)
  then show ?thesis using even by (simp add: tohost_def data)
qed

text \<open>The result of the system call is left in the two words of \<^verbatim>\<open>fromhost\<close>.\<close>

lemma write_result:
  assumes "addr_max (memoryContents g) = 0" "fh AND 3 = 0"
  obtains m' where
    "res_bind (memory_dpi_write_contents g fh (ucast (r :: u64))) (\<lambda>g. memory_dpi_write_contents g (fh + 4) (ucast (drop_bit 32 r))) =
       Inr (g\<lparr>memoryContents := m'\<rparr>)" "addr_max m' = 0"
    "mem_word m' = (mem_word (memoryContents g))(ucast fh := ucast r, ucast (fh + 4) := ucast (drop_bit 32 r))"
proof -
  obtain m1 where m1: "memory_dpi_write_contents g fh (ucast r) = Inr (g\<lparr>memoryContents := m1\<rparr>)" "addr_max m1 = 0"
    "mem_word m1 = (mem_word (memoryContents g))(ucast fh := ucast r)"
    using write_contents [OF assms] by blast
  have al: "(fh + 4) AND 3 = 0" using aligned64_add [OF assms(2), of 4] by simp
  obtain m2 where "memory_dpi_write_contents (g\<lparr>memoryContents := m1\<rparr>) (fh + 4) (ucast (drop_bit 32 r)) =
      Inr (g\<lparr>memoryContents := m2\<rparr>)" "addr_max m2 = 0"
    "mem_word m2 = (mem_word m1)(ucast (fh + 4) := ucast (drop_bit 32 r))"
    using write_contents [of "g\<lparr>memoryContents := m1\<rparr>" "fh + 4" "ucast (drop_bit 32 r)"] m1(2) al by auto
  then show thesis using that [of m2] m1 by simp
qed

lemma copy_buffer:
  assumes "addr_max (memoryContents g) = 0" "base AND 3 = 0 \<or> len = 0" "unat len < 2 ^ 32"
  shows "copy_loop g base len 0 (replicate (unat len) 0) =
     Some (Inr (map (\<lambda>k. mem_byte (memoryContents g) (ucast base + of_nat k)) [0..<unat len]))"
proof (cases "len = 0")
  case True
  then show ?thesis by (subst copy_loop.simps) simp
next
  case False
  then show ?thesis using copy_loop_bytes [OF assms(1) _ assms(3), of base 0 "replicate (unat len) 0"] assms(2) by simp
qed

text \<open>C5: a \<^verbatim>\<open>SYS_write\<close> request in a memory without an address limit, with the request block, the
  buffer and \<^verbatim>\<open>fromhost\<close> aligned to four bytes and a length below \<open>2 ^ 32\<close> that fits the stack, is
  served. The host is handed exactly the bytes of the design's buffer, in order, the two words of
  \<^verbatim>\<open>fromhost\<close> get the result of the call, and nothing else changes: no other word of the memory and
  no symbol. The first request also looks \<^verbatim>\<open>fromhost\<close> up and keeps its address \<open>fh\<close>; a design without
  that symbol gets one with the value 0, the address its results then go to.\<close>

theorem tohost_write:
  assumes "m = memoryContents (dpi_mem h)" "addr_max m = 0"
    and "(fh, syms) = (if fromhostAddr h \<noteq> 0 then (fromhostAddr h, symbols (dpi_mem h))
      else case map_find (symbols (dpi_mem h)) ''fromhost'' of Some a \<Rightarrow> (a, symbols (dpi_mem h))
           | None \<Rightarrow> (0, map_set ''fromhost'' 0 (symbols (dpi_mem h))))"
    and "h0 = h\<lparr>fromhostAddr := fh, dpi_mem := (dpi_mem h)\<lparr>symbols := syms\<rparr>\<rparr>"
    and "fh AND 3 = 0" "data = dword (svdata ! 0) (svdata ! 1)" "data AND 3 = 0"
    and "mem_dword m data = SYS_write" "fd = ucast (mem_dword m (data + 8))"
    and "base = mem_dword m (data + 16)" "len = mem_dword m (data + 24)"
    and "base AND 3 = 0 \<or> len = 0" "unat len < 2 ^ 32" "len \<le> stack"
    and "bytes = map (\<lambda>k. mem_byte m (ucast base + of_nat k)) [0..<unat len]"
  shows "\<exists>m'. tohost stack sys_write svdata h =
       Inr (0, [Wrote fd bytes], h0\<lparr>dpi_mem := (dpi_mem h0)\<lparr>memoryContents := m'\<rparr>\<rparr>) \<and> addr_max m' = 0 \<and>
     mem_word m' = (mem_word m)(ucast fh := ucast (sys_write fd bytes),
       ucast (fh + 4) := ucast (drop_bit 32 (sys_write fd bytes))) \<and>
     mem_dword m' fh = sys_write fd bytes"
proof -
  let ?r = "sys_write fd bytes"
  have r: "resolve_fromhost h = h0" by (rule resolve_fromhost_eq [OF assms(3,4)])
  have h0: "memoryContents (dpi_mem h0) = m" "fromhostAddr h0 = fh" using assms(1,4) by simp_all
  obtain m' where m': "res_bind (memory_dpi_write_contents (dpi_mem h0) fh (ucast ?r))
        (\<lambda>g. memory_dpi_write_contents g (fh + 4) (ucast (drop_bit 32 ?r))) = Inr ((dpi_mem h0)\<lparr>memoryContents := m'\<rparr>)"
    "addr_max m' = 0" "mem_word m' = (mem_word m)(ucast fh := ucast ?r, ucast (fh + 4) := ucast (drop_bit 32 ?r))"
    using write_result [of "dpi_mem h0" fh ?r] h0(1) assms(2,5) by blast
  have buf: "copy_loop (dpi_mem h0) base len 0 (replicate (unat len) 0) = Some (Inr bytes)"
    using copy_buffer [of "dpi_mem h0" base len] h0(1) assms(2,12,13,15) by simp
  obtain g where g: "memory_dpi_write_contents (dpi_mem h0) fh (ucast ?r) = Inr g"
    "memory_dpi_write_contents g (fh + 4) (ucast (drop_bit 32 ?r)) = Inr ((dpi_mem h0)\<lparr>memoryContents := m'\<rparr>)"
    using m'(1) by (auto simp: res_bind_Inr_iff)
  have "serve_write stack sys_write (map (\<lambda>i. mem_dword m (data + of_nat i * 8)) [0..<8]) h0 =
      Inr ([Wrote fd bytes], h0\<lparr>dpi_mem := (dpi_mem h0)\<lparr>memoryContents := m'\<rparr>\<rparr>)"
    using assms(9-11,14) buf g h0(2) by (simp add: serve_write_def Let_def not_less)
  then have "tohost stack sys_write svdata h =
      Inr (0, [Wrote fd bytes], h0\<lparr>dpi_mem := (dpi_mem h0)\<lparr>memoryContents := m'\<rparr>\<rparr>)"
    using tohost_block [of h data svdata m stack sys_write] assms(1,2,6,7,8) r by simp
  moreover have "ucast (fh + 4) \<noteq> (ucast fh :: u32)" by (simp add: ucast_add64)
  then have "mem_dword m' fh = ?r" by (simp add: mem_dword_def m'(3) dword_split)
  ultimately show ?thesis using m'(2,3) by blast
qed

definition sample_host :: host_state where
  "sample_host = \<lparr>fromhostAddr = 0, dpi_mem = \<lparr>memoryContents =
       \<lparr>mem = [(0x2000, 64), (0x2008, 1), (0x2010, 0x3000), (0x2018, 3), (0x3000, 0x00434241)], addr_max = 0\<rparr>,
     symbols = [(''fromhost'', 0x1000)], reverseSymbols = []\<rparr>\<rparr>"

lemma sample_facts:
  "addr_max (memoryContents (dpi_mem sample_host)) = 0"
  "(0x1000, symbols (dpi_mem sample_host)) = (if fromhostAddr sample_host \<noteq> 0
      then (fromhostAddr sample_host, symbols (dpi_mem sample_host))
      else case map_find (symbols (dpi_mem sample_host)) ''fromhost'' of Some a \<Rightarrow> (a, symbols (dpi_mem sample_host))
           | None \<Rightarrow> (0, map_set ''fromhost'' 0 (symbols (dpi_mem sample_host))))"
  by (simp_all add: sample_host_def)

text \<open>The first request of a design, for a buffer of three bytes.\<close>

theorem tohost_write_witness:
  "\<exists>m'. tohost 0x800000 (\<lambda>_ b. of_nat (length b)) [0x2000, 0] sample_host = Inr (0, [Wrote 1 [0x41, 0x42, 0x43]],
      sample_host\<lparr>fromhostAddr := 0x1000, dpi_mem := (dpi_mem sample_host)\<lparr>memoryContents := m'\<rparr>\<rparr>) \<and>
     mem_dword m' 0x1000 = 3"
proof -
  let ?m = "memoryContents (dpi_mem sample_host)"
  have h: "(0x1000 :: u64) AND 3 = 0" "0x2000 = dword ([0x2000, 0] ! 0) ([0x2000, 0] ! 1)" "(0x2000 :: u64) AND 3 = 0"
    "mem_dword ?m 0x2000 = SYS_write" "(1 :: u32) = ucast (mem_dword ?m (0x2000 + 8))" "0x3000 = mem_dword ?m (0x2000 + 16)"
    "3 = mem_dword ?m (0x2000 + 24)"
    by code_simp+
  have n: "(0x3000 :: u64) AND 3 = 0 \<or> (3 :: u64) = 0" "unat (3 :: u64) < 2 ^ 32" "(3 :: u64) \<le> 0x800000"
    by simp_all
  have b: "[0x41, 0x42, 0x43] = map (\<lambda>k. mem_byte ?m (ucast (0x3000 :: u64) + of_nat k)) [0..<unat (3 :: u64)]"
    by code_simp
  show ?thesis
    using tohost_write [OF refl sample_facts refl h n b, of "\<lambda>_ b. of_nat (length b)"]
    by (elim exE conjE) (rule exI, rule conjI, simp, simp)
qed

text \<open>C35: the outcome of every request that is not served as a write, in a memory without an address limit, with
  \<open>fh\<close> the address of \<^verbatim>\<open>fromhost\<close> and \<open>h0\<close> the host after the first request has looked it up. An odd value ends the simulation. A request block that is not aligned to four bytes fails an assertion.
  A number other than \<^verbatim>\<open>SYS_write\<close> is reported and returns 0. A \<^verbatim>\<open>SYS_write\<close> with a length above what is left
  of the stack overflows it; otherwise, a non-empty buffer that is not aligned fails an assertion, an aligned one of
  \<open>2 ^ 32\<close> bytes or more is copied for ever, and with a shorter one an unaligned \<^verbatim>\<open>fromhost\<close> fails an assertion.\<close>

theorem tohost_not_served:
  assumes "m = memoryContents (dpi_mem h)" "addr_max m = 0" "data = dword (svdata ! 0) (svdata ! 1)"
    and "(fh, syms) = (if fromhostAddr h \<noteq> 0 then (fromhostAddr h, symbols (dpi_mem h))
      else case map_find (symbols (dpi_mem h)) ''fromhost'' of Some a \<Rightarrow> (a, symbols (dpi_mem h))
           | None \<Rightarrow> (0, map_set ''fromhost'' 0 (symbols (dpi_mem h))))"
    and "h0 = h\<lparr>fromhostAddr := fh, dpi_mem := (dpi_mem h)\<lparr>symbols := syms\<rparr>\<rparr>"
    and "base = mem_dword m (data + 16)" "len = mem_dword m (data + 24)"
  shows "(data AND 1 \<noteq> 0 \<longrightarrow> tohost stack sys_write svdata h = Inr (1, [], h0)) \<and>
    (data AND 1 = 0 \<and> data AND 3 \<noteq> 0 \<longrightarrow> tohost stack sys_write svdata h = Inl AssertFailed) \<and>
    (data AND 3 = 0 \<and> mem_dword m data \<noteq> SYS_write \<longrightarrow>
       tohost stack sys_write svdata h = Inr (0, [Unknown_syscall (mem_dword m data)], h0)) \<and>
    (data AND 3 = 0 \<and> mem_dword m data = SYS_write \<longrightarrow>
       (stack < len \<longrightarrow> tohost stack sys_write svdata h = Inl StackOverflow) \<and>
       (len \<le> stack \<and> base AND 3 \<noteq> 0 \<and> len \<noteq> 0 \<longrightarrow> tohost stack sys_write svdata h = Inl AssertFailed) \<and>
       (len \<le> stack \<and> base AND 3 = 0 \<and> 2 ^ 32 \<le> unat len \<longrightarrow> tohost stack sys_write svdata h = Inl Diverges) \<and>
       (len \<le> stack \<and> (base AND 3 = 0 \<or> len = 0) \<and> unat len < 2 ^ 32 \<and> fh AND 3 \<noteq> 0 \<longrightarrow>
          tohost stack sys_write svdata h = Inl AssertFailed))"
proof -
  have r: "resolve_fromhost h = h0" by (rule resolve_fromhost_eq [OF assms(4,5)])
  have data: "push_bit 32 (ucast (svdata ! Suc 0)) OR ucast (svdata ! 0) = data"
    using assms(3) by (simp add: dword_def)
  have u: "read_magic (dpi_mem h0) data 0 [] = Inl AssertFailed" if "data AND 3 \<noteq> 0"
    using that by (simp add: read_magic_def memory_dpi_read_contents_def memory32_read_def ucast_aligned_iff)
  have upt: "[0..<8] = 0 # [Suc 0..<8]" by (rule upt_conv_Cons) simp
  have odd: "tohost stack sys_write svdata h = Inr (1, [], h0)" if "data AND 1 \<noteq> 0"
    using that by (simp add: tohost_def data r)
  have blk: "tohost stack sys_write svdata h = Inl AssertFailed" if "data AND 1 = 0 \<and> data AND 3 \<noteq> 0"
    using that u upt by (simp add: tohost_def data r del: upt_Suc)
  have h0: "addr_max (memoryContents (dpi_mem h0)) = 0" "fromhostAddr h0 = fh" using assms(1,2,5) by simp_all
  note al = tohost_block [of h data svdata m stack sys_write, unfolded r]
  have sv: "serve_write stack sys_write (map (\<lambda>i. mem_dword m (data + of_nat i * 8)) [0..<8]) h0 =
      Inl (if stack < len then StackOverflow else if base AND 3 \<noteq> 0 \<and> len \<noteq> 0 then AssertFailed
           else if 2 ^ 32 \<le> unat len then Diverges else AssertFailed)"
    if c: "stack < len \<or> base AND 3 \<noteq> 0 \<and> len \<noteq> 0 \<or> base AND 3 = 0 \<and> 2 ^ 32 \<le> unat len \<or> fh AND 3 \<noteq> 0"
  proof -
    consider "stack < len" | "\<not> stack < len" "base AND 3 \<noteq> 0 \<and> len \<noteq> 0"
      | "\<not> stack < len" "base AND 3 = 0" "2 ^ 32 \<le> unat len"
      | "\<not> stack < len" "base AND 3 = 0 \<or> len = 0" "unat len < 2 ^ 32" "fh AND 3 \<noteq> 0"
      using c by (cases "2 ^ 32 \<le> unat len"; cases "len = 0") (auto simp: not_le)
    then show ?thesis
    proof cases
      case 4
      have "memory_dpi_write_contents (dpi_mem h0) fh d = Inl AssertFailed" for d
        using 4(4) by (simp add: memory_dpi_write_contents_def memory32_write_def ucast_aligned_iff)
      then show ?thesis
        using 4 copy_buffer [OF h0(1) 4(2,3)] assms(6,7) h0(2) by (auto simp: serve_write_def Let_def)
    qed (use assms(6,7) h0 copy_loop_unaligned copy_loop_diverges [OF h0(1)]
        in \<open>auto simp: serve_write_def Let_def word_neq_0_conv\<close>)
  qed
  show ?thesis
    using odd blk al [OF _ assms(3)] assms(1,2) sv by (auto simp: not_less)
qed

definition sample_huge :: host_state where
  "sample_huge = sample_host\<lparr>dpi_mem := (dpi_mem sample_host)\<lparr>memoryContents :=
     \<lparr>mem = [(0x2000, 64), (0x2010, 0x3000), (0x201c, 1)], addr_max = 0\<rparr>\<rparr>\<rparr>"

lemma sample_huge_facts:
  "addr_max (memoryContents (dpi_mem sample_huge)) = 0" "fromhostAddr sample_huge = fromhostAddr sample_host"
  "symbols (dpi_mem sample_huge) = symbols (dpi_mem sample_host)"
  by (simp_all add: sample_host_def sample_huge_def)

text \<open>The end of a simulation, an unaligned request, an unknown call, and a buffer of \<open>2 ^ 32\<close> bytes, with a
  small and with an unlimited stack.\<close>

theorem tohost_not_served_witness:
  "tohost 0x800000 (\<lambda>_ _. 0) [1, 0] sample_host = Inr (1, [], sample_host\<lparr>fromhostAddr := 0x1000\<rparr>) \<and>
   tohost 0x800000 (\<lambda>_ _. 0) [2, 0] sample_host = Inl AssertFailed \<and>
   tohost 0x800000 (\<lambda>_ _. 0) [0x3000, 0] sample_host =
     Inr (0, [Unknown_syscall 0x00434241], sample_host\<lparr>fromhostAddr := 0x1000\<rparr>) \<and>
   tohost 0x800000 (\<lambda>_ _. 0) [0x2000, 0] sample_huge = Inl StackOverflow \<and>
   tohost (- 1) (\<lambda>_ _. 0) [0x2000, 0] sample_huge = Inl Diverges"
proof -
  let ?m = "memoryContents (dpi_mem sample_host)" and ?m' = "memoryContents (dpi_mem sample_huge)"
  have d: "1 = dword ([1, 0] ! 0) ([1, 0] ! 1)" "2 = dword ([2, 0] ! 0) ([2, 0] ! 1)"
    "0x3000 = dword ([0x3000, 0] ! 0) ([0x3000, 0] ! 1)" "0x2000 = dword ([0x2000, 0] ! 0) ([0x2000, 0] ! 1)"
    "(1 :: u64) AND 1 \<noteq> 0" "(2 :: u64) AND 1 = 0 \<and> (2 :: u64) AND 3 \<noteq> 0"
    "(0x3000 :: u64) AND 3 = 0 \<and> mem_dword ?m 0x3000 \<noteq> SYS_write" "mem_dword ?m 0x3000 = 0x00434241"
    "(0x2000 :: u64) AND 3 = 0 \<and> mem_dword ?m' 0x2000 = SYS_write" "0x3000 = mem_dword ?m' (0x2000 + 16)"
    "0x100000000 = mem_dword ?m' (0x2000 + 24)" "(0x800000 :: u64) < 0x100000000"
    by code_simp+
  have w: "(0x100000000 :: u64) \<le> - 1 \<and> (0x3000 :: u64) AND 3 = 0 \<and> 2 ^ 32 \<le> unat (0x100000000 :: u64)"
    by simp
  note t = tohost_not_served [OF refl sample_facts(1) _ sample_facts(2) refl refl refl, where sys_write = "\<lambda>_ _. 0" and stack = "0x800000"]
  note t' = tohost_not_served [OF refl sample_huge_facts(1) d(4) sample_facts(2) [folded sample_huge_facts(2,3)] refl
      d(10,11), where sys_write = "\<lambda>_ _. 0"]
  have "tohost 0x800000 (\<lambda>_ _. 0) [1, 0] sample_host = Inr (1, [], sample_host\<lparr>fromhostAddr := 0x1000\<rparr>)"
    using t [OF d(1)] d(5) by simp
  moreover have "tohost 0x800000 (\<lambda>_ _. 0) [2, 0] sample_host = Inl AssertFailed"
    using t [OF d(2)] d(6) by blast
  moreover have "tohost 0x800000 (\<lambda>_ _. 0) [0x3000, 0] sample_host =
     Inr (0, [Unknown_syscall 0x00434241], sample_host\<lparr>fromhostAddr := 0x1000\<rparr>)"
    using t [OF d(3)] d(7,8) by simp
  moreover have "tohost 0x800000 (\<lambda>_ _. 0) [0x2000, 0] sample_huge = Inl StackOverflow"
    using t' [of "0x800000"] d(9,12) by blast
  moreover have "tohost (- 1) (\<lambda>_ _. 0) [0x2000, 0] sample_huge = Inl Diverges"
    using t' [of "- 1"] d(9) w by blast
  ultimately show ?thesis by blast
qed

end
