(* ===== verification/Rename_Checking.thy ===== *)
theory Rename_Checking
  imports Prelude
begin

text \<open>
  The free-list checker, \<^verbatim>\<open>simulator/models/cxx/dpi_rename_checking.cpp\<close>: each cycle it is
  given the 32 entries of the free list, its head, tail and population, and prints a message for
  every register it finds twice. A message is the pair of the register and the cycle it names.
\<close>

type_synonym i32 = "32 word"

record rename_checking =
  dump_valid :: bool
  cycles_rename :: i32

definition rename_checking_init :: "rename_checking \<Rightarrow> rename_checking" where
  "rename_checking_init s = s\<lparr>dump_valid := True\<rparr>"

definition disable :: "rename_checking \<Rightarrow> rename_checking" where
  "disable s = s\<lparr>dump_valid := False\<rparr>"

definition dump_check :: "rename_checking \<Rightarrow> bool" where
  "dump_check s = dump_valid s"

text \<open>\<open>int regs[32]\<close> keeps the low half of each argument; \<open>hit\<close> is indexed with it unchecked.\<close>

definition check_entry :: "int list \<Rightarrow> u64 \<Rightarrow> nat list \<times> int list \<Rightarrow> (nat list \<times> int list) res" where
  "check_entry regs head = (\<lambda>(hit, dups).
     let index = unat ((head + 1) mod 32); r = regs ! index in
     if r < 0 \<or> 32 \<le> r then Inl OutOfBounds
     else if 0 < hit ! nat r then Inr (hit, dups @ [r])
     else Inr (hit[nat r := hit ! nat r + 1], dups))"

definition check_file :: "u64 list \<Rightarrow> u64 \<Rightarrow> u64 \<Rightarrow> u64 \<Rightarrow> int list res" where
  "check_file rs head tail num =
     (let regs = map (\<lambda>r. sint (ucast r :: i32)) rs in
      res_bind (for_res (\<lambda>_. check_entry regs head) [0..<min (unat num) (2 ^ 31)] (replicate 32 0, []))
        (\<lambda>(hit, dups). if 2 ^ 31 \<le> unat num then Inl IntOverflow else Inr dups))"

definition rename_checking_dump ::
  "u64 list \<Rightarrow> u64 \<Rightarrow> u64 \<Rightarrow> u64 \<Rightarrow> rename_checking \<Rightarrow> ((int \<times> i32) list \<times> rename_checking) res" where
  "rename_checking_dump rs head tail num s =
     (let s' = s\<lparr>cycles_rename := cycles_rename s + 1\<rparr> in
      if dump_check s'
      then res_bind (check_file rs head tail num)
             (\<lambda>dups. Inr (map (\<lambda>r. (r, cycles_rename s')) dups, s'))
      else Inr ([], s'))"

section \<open>What the checker reports\<close>

text \<open>The entry the loop examines, in every iteration.\<close>

definition examined :: "u64 list \<Rightarrow> u64 \<Rightarrow> int" where
  "examined rs head = sint (ucast (rs ! unat ((head + 1) mod 32)) :: i32)"

lemma check_loop:
  assumes "length rs = 32" "0 \<le> examined rs head" "examined rs head < 32"
  shows "for_res (\<lambda>_. check_entry (map (\<lambda>r. sint (ucast r :: i32)) rs) head) [0..<n] (replicate 32 0, []) =
     Inr (if n = 0 then replicate 32 0 else (replicate 32 0)[nat (examined rs head) := 1],
          replicate (n - 1) (examined rs head))"
proof (induction n)
  case 0
  show ?case by simp
next
  case (Suc n)
  have idx: "unat ((head + 1) mod 32) < 32"
    by (simp add: unat_mod_distrib)
  have "nat (examined rs head) < 32" using assms by simp
  then show ?case
    unfolding upt_Suc_append [OF le0] for_res_append Suc
    using assms idx
    by (cases n) (auto simp: check_entry_def examined_def Let_def replicate_append_same)
qed



end
