(* ===== verification/Checkpoint.thy ===== *)
theory Checkpoint
  imports Perfect_Memory
begin

text \<open>
  Saving and restoring a simulation, \<^verbatim>\<open>simulator/models/cxx/dpi_checkpoint.{h,cpp}\<close>, and the
  simulator's \<^verbatim>\<open>main\<close>: command line, reset sequence and clock. Verilator's serialisation of
  integers and strings and the generated design \<^verbatim>\<open>Vsim_top\<close> are parameters: encoders and
  decoders over a byte stream, the evaluation of the design and its \<^verbatim>\<open>$finish\<close> flag.
\<close>

section \<open>Serialised values\<close>

type_synonym 'a encoder = "'a \<Rightarrow> u8 list"
type_synonym 'a decoder = "u8 list \<Rightarrow> ('a \<times> u8 list) res"

text \<open>The contract of a serialisation: what was saved is what is restored, for the values in \<open>ok\<close>.\<close>

locale codec =
  fixes enc :: "'a encoder" and dec :: "'a decoder" and ok :: "'a \<Rightarrow> bool"
  assumes dec_enc: "ok x \<Longrightarrow> dec (enc x @ rest) = Inr (x, rest)"

definition save_map ::
  "u32 encoder \<Rightarrow> 'k encoder \<Rightarrow> 'v encoder \<Rightarrow> ('k, 'v) std_map encoder" where
  "save_map enc32 enck encv rhs =
     enc32 (of_nat (length rhs)) @ concat (map (\<lambda>(index, value). enck index @ encv value) rhs)"

primrec load_entries ::
  "'k::linorder decoder \<Rightarrow> 'v decoder \<Rightarrow> nat \<Rightarrow> ('k, 'v) std_map \<Rightarrow> ('k, 'v) std_map decoder" where
  "load_entries deck decv 0 rhs os = Inr (rhs, os)"
| "load_entries deck decv (Suc n) rhs os =
     res_bind (deck os) (\<lambda>(index, os).
     res_bind (decv os) (\<lambda>(value, os).
     load_entries deck decv n (map_set index value rhs) os))"

definition load_map ::
  "u32 decoder \<Rightarrow> 'k::linorder decoder \<Rightarrow> 'v decoder \<Rightarrow> ('k, 'v) std_map decoder" where
  "load_map dec32 deck decv os =
     res_bind (dec32 os) (\<lambda>(len, os). load_entries deck decv (unat len) [] os)"

lemma map_set_last:
  "(\<forall>k' \<in> fst ` set m. k' < k) \<Longrightarrow> map_set k v m = m @ [(k, v)]"
  by (induction k v m rule: map_set.induct) auto

locale map_codec =
  len: codec enc32 dec32 "\<lambda>_. True" + key: codec enck deck "\<lambda>_. True" + val: codec encv decv "\<lambda>_. True"
  for enc32 :: "u32 encoder" and dec32 and enck :: "'k::linorder encoder" and deck
    and encv :: "'v encoder" and decv
begin

lemma load_entries_saved:
  "map_wf (m @ rhs) \<Longrightarrow>
     load_entries deck decv (length rhs) m
       (concat (map (\<lambda>(index, value). enck index @ encv value) rhs) @ rest) = Inr (m @ rhs, rest)"
proof (induction rhs arbitrary: m)
  case (Cons p rhs)
  obtain k v where p: "p = (k, v)" by (cases p)
  have "map_set k v m = m @ [(k, v)]"
    using Cons.prems p by (intro map_set_last) (force simp: map_wf_def sorted_append order.strict_iff_order)
  then show ?case
    using Cons.IH [of "m @ [(k, v)]"] Cons.prems by (simp add: p key.dec_enc val.dec_enc)
qed simp

lemma load_map_saved:
  "map_wf m \<and> length m < 2 ^ 32 \<Longrightarrow>
     load_map dec32 deck decv (save_map enc32 enck encv m @ rest) = Inr (m, rest)"
  using load_entries_saved [of "[]" m]
  by (simp add: load_map_def save_map_def len.dec_enc unat_of_nat)

end

text \<open>A map of serialisable keys and values is serialisable.\<close>

sublocale map_codec \<subseteq> maps: codec "save_map enc32 enck encv" "load_map dec32 deck decv"
    "\<lambda>m. map_wf m \<and> length m < 2 ^ 32"
  by unfold_locales (rule load_map_saved)

section \<open>The checkpoint\<close>

record 'd sim_top =
  tb_clk :: bool
  tb_rstn :: bool
  design :: 'd

record 'd verilated =
  enc32 :: "u32 encoder"
  dec32 :: "u32 decoder"
  enc64 :: "u64 encoder"
  dec64 :: "u64 decoder"
  enc_str :: "string encoder"
  dec_str :: "string decoder"
  enc_top :: "'d sim_top encoder"
  dec_top :: "'d sim_top decoder"

record 'd simulation =
  main_time :: u64
  ctx_time :: u64
  topp :: "'d sim_top"
  memory :: dpi_memory

definition save_memory :: "'d verilated \<Rightarrow> dpi_memory encoder" where
  "save_memory V g =
     save_map (enc32 V) (enc32 V) (enc32 V) (mem (memoryContents g)) @
     enc32 V (addr_max (memoryContents g)) @
     save_map (enc32 V) (enc_str V) (enc64 V) (symbols g) @
     save_map (enc32 V) (enc64 V) (enc_str V) (reverseSymbols g)"

definition load_memory :: "'d verilated \<Rightarrow> dpi_memory decoder" where
  "load_memory V os =
     res_bind (load_map (dec32 V) (dec32 V) (dec32 V) os) (\<lambda>(m, os).
     res_bind (dec32 V os) (\<lambda>(amax, os).
     res_bind (load_map (dec32 V) (dec_str V) (dec64 V) os) (\<lambda>(syms, os).
     res_bind (load_map (dec32 V) (dec64 V) (dec_str V) os) (\<lambda>(rsyms, os).
     Inr (\<lparr>memoryContents = \<lparr>mem = m, addr_max = amax\<rparr>, symbols = syms, reverseSymbols = rsyms\<rparr>, os)))))"

definition save_model :: "'d verilated \<Rightarrow> 'd simulation \<Rightarrow> u8 list \<times> 'd simulation" where
  "save_model V s =
     (let s = s\<lparr>main_time := ctx_time s\<rparr>
      in (enc64 V (main_time s) @ enc_top V (topp s) @ save_memory V (memory s), s))"

definition restore_model :: "'d verilated \<Rightarrow> u8 list \<Rightarrow> 'd simulation \<Rightarrow> 'd simulation res" where
  "restore_model V file s =
     res_bind (dec64 V file) (\<lambda>(t, os).
     res_bind (dec_top V os) (\<lambda>(top, os).
     res_bind (load_memory V os) (\<lambda>(g, os).
     Inr (s\<lparr>main_time := t, topp := top, memory := g, ctx_time := t\<rparr>))))"

section \<open>The simulation loop\<close>

type_synonym 'd eval = "'d sim_top \<Rightarrow> 'd sim_top"

definition restore_on :: string where "restore_on = ''+checkpoint_restore_ON''"
definition restore_name :: string where "restore_name = ''+checkpoint_restore_name=''"

definition starts_with :: "string \<Rightarrow> string \<Rightarrow> bool" where
  "starts_with p s \<longleftrightarrow> take (length p) s = p"

primrec parse_args :: "string list \<Rightarrow> bool \<times> string \<Rightarrow> bool \<times> string" where
  "parse_args [] r = r"
| "parse_args (a # as) r =
     parse_args as
       (if starts_with restore_on a then (True, snd r)
        else if starts_with restore_name a then (fst r, drop (length restore_name) a)
        else r)"

definition sim_step :: "'d eval \<Rightarrow> 'd simulation \<Rightarrow> 'd simulation" where
  "sim_step eval s =
     (let s = s\<lparr>ctx_time := ctx_time s + 1\<rparr>;
          t = (topp s)\<lparr>tb_clk := \<not> tb_clk (topp s)\<rparr>;
          t = (if ctx_time s > 0 \<and> ctx_time s < 5 then t\<lparr>tb_rstn := False\<rparr> else t\<lparr>tb_rstn := True\<rparr>)
      in s\<lparr>topp := eval t\<rparr>)"

partial_function (option) sim_loop ::
  "'d eval \<Rightarrow> ('d sim_top \<Rightarrow> bool) \<Rightarrow> 'd simulation \<Rightarrow> 'd simulation option" where
  [code]: "sim_loop eval gotFinish s =
     (if gotFinish (topp s) then Some s else sim_loop eval gotFinish (sim_step eval s))"

definition sim_start ::
  "'d verilated \<Rightarrow> 'd eval \<Rightarrow> (string \<Rightarrow> u8 list) \<Rightarrow> string list \<Rightarrow> 'd simulation \<Rightarrow> 'd simulation res" where
  "sim_start V eval files args s =
     (let (restore, fname) = parse_args args (False, ''verilator_model_1.bin'');
          s = s\<lparr>topp := eval ((topp s)\<lparr>tb_clk := False, tb_rstn := False\<rparr>)\<rparr>
      in if restore then restore_model V (files fname) s else Inr s)"

definition main ::
  "'d verilated \<Rightarrow> 'd eval \<Rightarrow> ('d sim_top \<Rightarrow> bool) \<Rightarrow> (string \<Rightarrow> u8 list) \<Rightarrow> string list \<Rightarrow> 'd simulation \<Rightarrow>
    'd simulation option res" where
  "main V eval gotFinish files args s =
     res_bind (sim_start V eval files args s) (\<lambda>s. Inr (sim_loop eval gotFinish s))"

section \<open>Properties\<close>

definition verilated_ok :: "'d verilated \<Rightarrow> bool" where
  "verilated_ok V \<longleftrightarrow>
     (\<forall>x rest. dec32 V (enc32 V x @ rest) = Inr (x, rest)) \<and>
     (\<forall>x rest. dec64 V (enc64 V x @ rest) = Inr (x, rest)) \<and>
     (\<forall>x rest. dec_str V (enc_str V x @ rest) = Inr (x, rest)) \<and>
     (\<forall>x rest. dec_top V (enc_top V x @ rest) = Inr (x, rest))"

definition small_map :: "('k::linorder, 'v) std_map \<Rightarrow> bool" where
  "small_map m \<longleftrightarrow> map_wf m \<and> length m < 2 ^ 32"

lemma load_map_verilated:
  assumes "\<And>x rest. dl (el x @ rest) = Inr (x, rest)" "\<And>x rest. dk (ek x @ rest) = Inr (x, rest)"
    "\<And>x rest. dv (ev x @ rest) = Inr (x, rest)" "small_map m"
  shows "load_map dl dk dv (save_map el ek ev m @ rest) = Inr (m, rest)"
proof -
  have "map_codec el dl ek dk ev dv"
    by unfold_locales (auto simp: assms)
  then show ?thesis
    using map_codec.load_map_saved assms(4) unfolding small_map_def by blast
qed

text \<open>C6: restoring a saved checkpoint gives back the time, the design and the memory with its
  symbol tables, whatever the state it is restored into, provided that Verilator's serialisation
  of integers, strings and the design is faithful and no table has \<open>2 ^ 32\<close> entries or more.\<close>

theorem restore_save:
  assumes "verilated_ok V" "save_model V s = (file, s1)"
    and "small_map (mem (memoryContents (memory s)))" "small_map (symbols (memory s))"
      "small_map (reverseSymbols (memory s))"
  shows "restore_model V file s2 =
     Inr (s2\<lparr>main_time := ctx_time s, topp := topp s, memory := memory s, ctx_time := ctx_time s\<rparr>)"
proof -
  have mems: "load_memory V (save_memory V (memory s) @ rest) = Inr (memory s, rest)" for rest
    using assms(1,3,4,5) unfolding load_memory_def save_memory_def verilated_ok_def
    by (simp add: load_map_verilated)
  show ?thesis
    using assms(1,2) mems [of "[]"]
    by (auto simp: save_model_def restore_model_def verilated_ok_def Let_def)
qed

text \<open>Raw words of a little-endian host, strings as their length and characters.\<close>

definition raw_dec :: "nat \<Rightarrow> 'a::len word decoder" where
  "raw_dec n os = (if n \<le> length os then Inr (le_word (take n os), drop n os) else Inl Aborted)"

definition raw_enc_str :: "string encoder" where
  "raw_enc_str s = replicate (length s) 1 @ [0] @ map (\<lambda>c. of_nat (of_char c)) s"

definition raw_dec_str :: "string decoder" where
  "raw_dec_str os =
     (let n = length (takeWhile (\<lambda>b. b = 1) os); body = drop (n + 1) os in
      if n \<le> length body then Inr (map (\<lambda>b. char_of (unat b)) (take n body), drop n body) else Inl Aborted)"

lemma raw_dec_enc: "LENGTH('a) = 8 * n \<Longrightarrow> raw_dec n (le_bytes n x @ rest) = Inr (x :: 'a::len word, rest)"
  by (simp add: raw_dec_def le_word_le_bytes)

lemma raw_dec_enc_str: "raw_dec_str (raw_enc_str s @ rest) = Inr (s, rest)"
proof -
  have "takeWhile (\<lambda>b. b = 1) (replicate n 1 @ 0 # xs) = replicate n (1 :: u8)" for n xs
    by (induction n) auto
  moreover have "char_of (unat (of_nat (of_char c) :: u8)) = c" for c :: char
  proof -
    have "(of_char c :: nat) < 256" by simp
    then show ?thesis by (simp add: unat_of_nat)
  qed
  ultimately show ?thesis
    by (simp add: raw_dec_str_def raw_enc_str_def comp_def)
qed

interpretation word_map: map_codec "le_bytes 4" "raw_dec 4" "le_bytes 4 :: u32 encoder" "raw_dec 4"
    "le_bytes 4 :: u32 encoder" "raw_dec 4"
  by unfold_locales (simp_all add: raw_dec_enc)

definition raw_verilated :: "u64 verilated" where
  "raw_verilated =
     \<lparr>enc32 = le_bytes 4, dec32 = raw_dec 4, enc64 = le_bytes 8, dec64 = raw_dec 8,
      enc_str = raw_enc_str, dec_str = raw_dec_str,
      enc_top = (\<lambda>t. [of_bool (tb_clk t), of_bool (tb_rstn t)] @ le_bytes 8 (design t)),
      dec_top = (\<lambda>os. res_bind (raw_dec 8 (drop 2 os))
        (\<lambda>(d, os'). Inr (\<lparr>tb_clk = os ! 0 \<noteq> 0, tb_rstn = os ! 1 \<noteq> 0, design = d\<rparr>, os')))\<rparr>"

lemma raw_verilated_ok: "verilated_ok raw_verilated"
  by (simp add: verilated_ok_def raw_verilated_def raw_dec_enc raw_dec_enc_str)

definition sample_simulation :: "u64 simulation" where
  "sample_simulation = \<lparr>main_time = 0, ctx_time = 17, topp = \<lparr>tb_clk = True, tb_rstn = True, design = 5\<rparr>,
     memory = \<lparr>memoryContents = \<lparr>mem = [(4, 7), (8, 9)], addr_max = 0\<rparr>,
               symbols = [(''main'', 4)], reverseSymbols = [(4, ''main'')]\<rparr>\<rparr>"

theorem restore_save_witness:
  "restore_model raw_verilated (fst (save_model raw_verilated sample_simulation))
       (sample_simulation\<lparr>ctx_time := 0, memory := (memory sample_simulation)\<lparr>symbols := []\<rparr>\<rparr>) =
     Inr (sample_simulation\<lparr>main_time := 17\<rparr>)"
  using restore_save [OF raw_verilated_ok prod.collapse [symmetric], of sample_simulation
      "sample_simulation\<lparr>ctx_time := 0, memory := (memory sample_simulation)\<lparr>symbols := []\<rparr>\<rparr>"]
  by (simp add: sample_simulation_def small_map_def map_wf_def)

text \<open>The clock and the reset after a number of steps, for a design that does not drive its inputs.\<close>

definition keeps_inputs :: "'d eval \<Rightarrow> bool" where
  "keeps_inputs eval \<longleftrightarrow> (\<forall>t. tb_clk (eval t) = tb_clk t \<and> tb_rstn (eval t) = tb_rstn t)"

lemma sim_step_ports:
  assumes "keeps_inputs eval"
  shows "ctx_time (sim_step eval s) = ctx_time s + 1"
    "tb_clk (topp (sim_step eval s)) = (\<not> tb_clk (topp s))"
    "tb_rstn (topp (sim_step eval s)) = (\<not> (0 < ctx_time s + 1 \<and> ctx_time s + 1 < 5))"
  using assms by (simp_all add: sim_step_def keeps_inputs_def Let_def)

lemma sim_steps_ports:
  assumes "keeps_inputs eval"
  shows "ctx_time ((sim_step eval ^^ k) s) = ctx_time s + of_nat k"
    "tb_clk (topp ((sim_step eval ^^ k) s)) = (tb_clk (topp s) \<noteq> odd k)"
  by (induction k) (auto simp: sim_step_ports [OF assms])

lemma sim_loop_steps:
  assumes "gotFinish (topp ((sim_step eval ^^ k) s))" "\<And>j. j < k \<Longrightarrow> \<not> gotFinish (topp ((sim_step eval ^^ j) s))"
  shows "sim_loop eval gotFinish s = Some ((sim_step eval ^^ k) s)"
  using assms
proof (induction k arbitrary: s)
  case 0
  then show ?case by (subst sim_loop.simps) simp
next
  case (Suc k)
  have "sim_loop eval gotFinish (sim_step eval s) = Some ((sim_step eval ^^ k) (sim_step eval s))"
  proof (rule Suc.IH)
    show "gotFinish (topp ((sim_step eval ^^ k) (sim_step eval s)))"
      using Suc.prems(1) by (simp add: funpow_swap1)
    show "\<not> gotFinish (topp ((sim_step eval ^^ j) (sim_step eval s)))" if "j < k" for j
      using Suc.prems(2) [of "Suc j"] that by (simp add: funpow_swap1)
  qed
  moreover have "\<not> gotFinish (topp s)" using Suc.prems(2) [of 0] by simp
  ultimately show ?case by (subst sim_loop.simps) (simp add: funpow_swap1)
qed

text \<open>C34: from a start without restore, the run ends exactly when the design first finishes;
  until then the clock toggles at every step, and the reset is asserted in steps 1 to 4 and
  released from step 5 on (for as long as the 64-bit time does not wrap).\<close>

theorem main_reset_sequence:
  assumes "keeps_inputs eval" "ctx_time s = 0" "fst (parse_args args (False, ''verilator_model_1.bin'')) = False"
    and "s0 = s\<lparr>topp := eval ((topp s)\<lparr>tb_clk := False, tb_rstn := False\<rparr>)\<rparr>"
    and "gotFinish (topp ((sim_step eval ^^ n) s0))" "\<And>j. j < n \<Longrightarrow> \<not> gotFinish (topp ((sim_step eval ^^ j) s0))"
    and "k \<le> n" "n < 2 ^ 64"
  shows "main V eval gotFinish files args s = Inr (Some ((sim_step eval ^^ n) s0)) \<and>
     tb_clk (topp ((sim_step eval ^^ k) s0)) = odd k \<and>
     tb_rstn (topp ((sim_step eval ^^ k) s0)) = (5 \<le> k)"
proof -
  have "sim_start V eval files args s = Inr s0"
    using assms(3,4) by (auto simp: sim_start_def Let_def split: prod.splits)
  then have "main V eval gotFinish files args s = Inr (Some ((sim_step eval ^^ n) s0))"
    using sim_loop_steps [of gotFinish n eval s0] assms(5,6) by (simp add: main_def)
  moreover have "tb_clk (topp ((sim_step eval ^^ k) s0)) = odd k"
    using assms(1,4) sim_steps_ports(2) [OF assms(1), of k s0] by (simp add: keeps_inputs_def)
  moreover have "tb_rstn (topp ((sim_step eval ^^ k) s0)) = (5 \<le> k)"
  proof (cases k)
    case 0
    then show ?thesis using assms(1,4) by (simp add: keeps_inputs_def)
  next
    case (Suc j)
    then have "unat (1 + of_nat j :: u64) = k"
      using assms(7,8) unat_of_nat [of k, where 'a = 64] by simp
    then have "0 < (1 + of_nat j :: u64) \<and> (1 + of_nat j :: u64) < 5 \<longleftrightarrow> k < 5"
      using Suc by (simp add: word_less_nat_alt)
    then show ?thesis
      using Suc assms(2,4) sim_step_ports(3) [OF assms(1), of "(sim_step eval ^^ j) s0"]
        sim_steps_ports(1) [OF assms(1), of j s0] by (auto simp: add.commute)
  qed
  ultimately show ?thesis by blast
qed

lemma funpow_2: "(f ^^ 2) x = f (f x)"
  by (simp add: numeral_2_eq_2)

theorem main_reset_sequence_witness:
  "main raw_verilated (\<lambda>t. t\<lparr>design := design t + 1\<rparr>) (\<lambda>t. design t = 3) (\<lambda>_. []) [''+vcd'']
     (sample_simulation\<lparr>ctx_time := 0, topp := \<lparr>tb_clk = True, tb_rstn = True, design = 0\<rparr>\<rparr>) =
   Inr (Some (sample_simulation\<lparr>ctx_time := 2, topp := \<lparr>tb_clk = False, tb_rstn = False, design = 3\<rparr>\<rparr>))"
proof -
  let ?eval = "\<lambda>t :: u64 sim_top. t\<lparr>design := design t + 1\<rparr>"
  let ?s = "sample_simulation\<lparr>ctx_time := 0, topp := \<lparr>tb_clk = True, tb_rstn = True, design = 0\<rparr>\<rparr>"
  let ?start = "?s\<lparr>topp := ?eval ((topp ?s)\<lparr>tb_clk := False, tb_rstn := False\<rparr>)\<rparr>"
  have steps: "(sim_step ?eval ^^ 2) ?start =
      sample_simulation\<lparr>ctx_time := 2, topp := \<lparr>tb_clk = False, tb_rstn = False, design = 3\<rparr>\<rparr>"
    unfolding funpow_2 by (simp add: sim_step_def Let_def)
  have early: "\<not> design (topp ((sim_step ?eval ^^ j) ?start)) = 3" if "j < 2" for j
    using that by (auto simp: sim_step_def Let_def less_2_cases_iff)
  show ?thesis
    using main_reset_sequence [where eval = ?eval and s = ?s and args = "[''+vcd'']" and s0 = ?start
        and gotFinish = "\<lambda>t. design t = 3" and n = 2 and k = 2 and V = raw_verilated and files = "\<lambda>_. []"] early steps
    by (simp add: keeps_inputs_def starts_with_def restore_on_def restore_name_def)
qed

end
