(* ===== verification/Ostream.thy ===== *)
theory Ostream
  imports Prelude
begin

text \<open>
  The formatted output the simulator's logs use: a \<^verbatim>\<open>std::ostream\<close> with its sticky base, fill
  and adjustment and its one-shot width, and the insertions \<^verbatim>\<open>operator<<\<close> makes into it. The
  macros \<^verbatim>\<open>HEX_DATA\<close>, \<^verbatim>\<open>DEC_DST\<close>, ... of the log writers are sequences of such insertions.
\<close>

section \<open>Numbers in a base\<close>

definition digit :: "nat \<Rightarrow> char" where
  "digit d = ''0123456789abcdef'' ! d"

fun digits_in :: "nat \<Rightarrow> nat \<Rightarrow> string" where
  "digits_in b n = (if b < 2 \<or> n < b then [digit n] else digits_in b (n div b) @ [digit (n mod b)])"

declare digits_in.simps [simp del]

definition digit_value :: "char \<Rightarrow> nat" where
  "digit_value c = (let k = of_char c in if k < 58 then k - 48 else k - 87)"

definition number_of :: "nat \<Rightarrow> string \<Rightarrow> nat" where
  "number_of b s = foldl (\<lambda>n c. b * n + digit_value c) 0 s"

definition int_digits :: "int \<Rightarrow> string" where
  "int_digits i = (if i < 0 then CHR 0x2D # digits_in 10 (nat (- i)) else digits_in 10 (nat i))"

section \<open>The stream\<close>

record ostream =
  out :: string
  hexbase :: bool
  fillc :: char
  leftadj :: bool
  fwidth :: nat

definition fresh_stream :: ostream where
  "fresh_stream = \<lparr>out = [], hexbase = False, fillc = CHR '' '', leftadj = False, fwidth = 0\<rparr>"

datatype insertion =
    Str string
  | ULong u64       \<comment> \<open>\<^verbatim>\<open>unsigned long long\<close>, \<^verbatim>\<open>uint32_t\<close>, \<^verbatim>\<open>uint16_t\<close>\<close>
  | SLong u64       \<comment> \<open>\<^verbatim>\<open>long\<close>\<close>
  | SetHex | SetDec
  | SetW nat
  | SetFill char
  | SetLeft | SetRight

definition pad :: "ostream \<Rightarrow> string \<Rightarrow> string" where
  "pad os s =
     (let p = replicate (fwidth os - length s) (fillc os) in if leftadj os then s @ p else p @ s)"

definition emit :: "ostream \<Rightarrow> string \<Rightarrow> ostream" where
  "emit os s = os\<lparr>out := out os @ pad os s, fwidth := 0\<rparr>"

primrec put :: "insertion \<Rightarrow> ostream \<Rightarrow> ostream" where
  "put (Str s) os = emit os s"
| "put (ULong w) os = emit os (digits_in (if hexbase os then 16 else 10) (unat w))"
| "put (SLong w) os = emit os (if hexbase os then digits_in 16 (unat w) else int_digits (sint w))"
| "put SetHex os = os\<lparr>hexbase := True\<rparr>"
| "put SetDec os = os\<lparr>hexbase := False\<rparr>"
| "put (SetW n) os = os\<lparr>fwidth := n\<rparr>"
| "put (SetFill c) os = os\<lparr>fillc := c\<rparr>"
| "put SetLeft os = os\<lparr>leftadj := True\<rparr>"
| "put SetRight os = os\<lparr>leftadj := False\<rparr>"

definition puts :: "insertion list \<Rightarrow> ostream \<Rightarrow> ostream" where
  "puts is os = fold put is os"

lemma puts_simps [simp]:
  "puts [] os = os"
  "puts (i # is) os = puts is (put i os)"
  "puts (is @ js) os = puts js (puts is os)"
  by (simp_all add: puts_def)

lemma emit_simps [simp]:
  "out (emit os s) = out os @ pad os s" "fwidth (emit os s) = 0" "hexbase (emit os s) = hexbase os"
  "fillc (emit os s) = fillc os" "leftadj (emit os s) = leftadj os"
  by (simp_all add: emit_def)

text \<open>A stream never loses what it holds.\<close>

lemma puts_extends: "\<exists>s. out (puts is os) = out os @ s"
proof (induction "is" arbitrary: os)
  case (Cons i "is")
  have "\<exists>s. out (put i os) = out os @ s" by (cases i) auto
  then show ?case using Cons.IH [of "put i os"] by auto
qed simp

text \<open>The sign extension of 40-bit addresses that both log writers apply before printing.\<close>

definition sign_extend40 :: "u64 \<Rightarrow> u64" where
  "sign_extend40 a = signed_drop_bit 24 (push_bit 24 a)"

lemma sign_extend40_bits:
  "n < 64 \<Longrightarrow> bit (sign_extend40 a) n \<longleftrightarrow> bit a (min n 39)"
  by (auto simp: sign_extend40_def bit_signed_drop_bit_iff bit_push_bit_iff min_def)

section \<open>Printing and reading back\<close>

lemma digit_value_digit: "d < 16 \<Longrightarrow> digit_value (digit d) = d"
  by (auto simp: less_Suc_eq numeral_eq_Suc digit_def digit_value_def)

lemma number_of_snoc: "number_of b (s @ [c]) = b * number_of b s + digit_value c"
  by (simp add: number_of_def)

lemma number_of_digits_in:
  assumes "2 \<le> b" "b \<le> 16"
  shows "number_of b (digits_in b n) = n"
  using assms
proof (induction b n rule: digits_in.induct)
  case (1 b n)
  show ?case
  proof (cases "n < b")
    case True
    with 1 show ?thesis
      by (subst digits_in.simps) (simp add: digit_value_digit, simp add: number_of_def digit_value_digit)
  next
    case False
    have "n mod b < 16" using 1(2,3) using mod_less_divisor [of b n] by linarith
    then show ?thesis
      using 1 False by (subst digits_in.simps) (simp add: number_of_snoc digit_value_digit)
  qed
qed

lemma number_of_pad: "number_of b (replicate k (CHR ''0'') @ s) = number_of b s"
proof -
  have "digit_value (CHR ''0'') = 0" by (simp add: digit_value_def)
  then have "foldl (\<lambda>n c. b * n + digit_value c) 0 (replicate k (CHR ''0'')) = 0"
    by (induction k) simp_all
  then show ?thesis by (simp add: number_of_def)
qed

lemma length_digits_in:
  assumes "2 \<le> b" "n < b ^ k" "0 < k"
  shows "length (digits_in b n) \<le> k"
  using assms
proof (induction b n arbitrary: k rule: digits_in.induct)
  case (1 b n)
  show ?case
  proof (cases "n < b")
    case True
    with 1 show ?thesis by (subst digits_in.simps) simp
  next
    case False
    then have "k \<noteq> 1" using 1(3) by auto
    then obtain j where k: "k = Suc j" "0 < j"
      using 1(4) by (cases k) auto
    have "n div b < b ^ j"
      using 1(2,3) k by (simp add: less_mult_imp_div_less mult.commute)
    then have "length (digits_in b (n div b)) \<le> j"
      using 1(1) [of j] 1(2) False k by simp
    then show ?thesis
      using 1(2) False k by (subst digits_in.simps) simp
  qed
qed

text \<open>A hexadecimal insertion padded with zeros to a width that holds the value.\<close>

definition hex_field :: "nat \<Rightarrow> u64 \<Rightarrow> string" where
  "hex_field n w =
     replicate (n - length (digits_in 16 (unat w))) (CHR ''0'') @ digits_in 16 (unat w)"

lemma hex_field_roundtrip: "number_of 16 (hex_field n w) = unat w"
  by (simp add: hex_field_def number_of_pad number_of_digits_in)

lemma length_hex_field:
  assumes "unat w < 16 ^ n" "0 < n"
  shows "length (hex_field n w) = n"
  using length_digits_in [of 16 "unat w" n] assms by (simp add: hex_field_def)

lemma length_hex_field_16: "length (hex_field 16 w) = 16"
  using unat_less_exp [of w] by (intro length_hex_field) simp_all

end
