(* ===== verification/Konata.thy ===== *)
theory Konata
  imports Ostream
begin

text \<open>
  The pipeline trace in the Kanata format, \<^verbatim>\<open>simulator/models/cxx/dpi_konata.cpp\<close>: one call per
  cycle with the state of every pipeline stage. The lines of the trace are the events below, with
  the text each line has; Spike's disassembler is the parameter \<open>disasm\<close>.
\<close>

section \<open>Inputs, state and trace lines\<close>

record konata_in =
  if1_valid :: u64  if2_valid :: u64  id_valid :: u64  ir_valid :: u64  rr_valid :: u64  exe_valid :: u64
  wb1_valid :: u64  wb2_valid :: u64  wb3_valid :: u64  wb4_valid :: u64
  wb1_fp_valid :: u64  wb2_fp_valid :: u64  wb1_simd_valid :: u64  wb2_simd_valid :: u64
  wb_store_valid :: u64
  if1_stall :: u64  if2_stall :: u64  id_stall :: u64  ir_stall :: u64  rr_stall :: u64  exe_stall :: u64
  if1_flush :: u64  if2_flush :: u64  id_flush :: u64  ir_flush :: u64  rr_flush :: u64  exe_flush :: u64
  exe_kill :: u64
  id_pc :: u64  id_inst :: u64
  if1_id :: u64  if2_id :: u64  id_id :: u64  ir_id :: u64  rr_id :: u64  exe_id :: u64  exe_unit :: u64
  wb1_id :: u64  wb2_id :: u64  wb3_id :: u64  wb4_id :: u64
  wb1_fp_id :: u64  wb2_fp_id :: u64  wb1_simd_id :: u64  wb2_simd_id :: u64  wb_store_id :: u64

datatype kanata_line =
    Cycle u64                   \<comment> \<open>\<^verbatim>\<open>C\<close>: cycles since the last line of this kind\<close>
  | Fetch u64                   \<comment> \<open>\<^verbatim>\<open>I\<close>: a new instruction\<close>
  | Label u64 u64 u64           \<comment> \<open>\<^verbatim>\<open>L\<close>: its address and its instruction word\<close>
  | Start u64 string            \<comment> \<open>\<^verbatim>\<open>S\<close>: a stage begins\<close>
  | End u64 string              \<comment> \<open>\<^verbatim>\<open>E\<close>: a stage ends\<close>
  | Retire u64 bool             \<comment> \<open>\<^verbatim>\<open>R\<close>: retired, or flushed\<close>

definition TAB :: string where "TAB = [CHR 0x09]"
definition NL :: string where "NL = [CHR 0x0A]"

definition HEX_PC_konata :: "u64 \<Rightarrow> insertion list" where
  "HEX_PC_konata x = [Str ''0x'', SetW 16, SetFill (CHR ''0''), SetHex, SLong x]"

primrec line_text :: "(u64 \<Rightarrow> string) \<Rightarrow> kanata_line \<Rightarrow> insertion list" where
  "line_text disasm (Cycle n) = [Str (''C'' @ TAB), SetDec, ULong n, Str NL]"
| "line_text disasm (Fetch i) =
     [Str (''I'' @ TAB), SetDec, ULong i, Str TAB, SetDec, ULong i, Str TAB, SLong 0, Str NL]"
| "line_text disasm (Label i pc inst) =
     [Str (''L'' @ TAB), SetDec, ULong i, Str TAB, SetDec, SLong 0, Str TAB] @ HEX_PC_konata pc @
     [Str '': '', Str (disasm inst), Str NL]"
| "line_text disasm (Start i st) =
     [Str (''S'' @ TAB), SetDec, ULong i, Str TAB, SetDec, SLong 0, Str (TAB @ st), Str NL]"
| "line_text disasm (End i st) =
     [Str (''E'' @ TAB), SetDec, ULong i, Str TAB, SetDec, SLong 0, Str (TAB @ st), Str NL]"
| "line_text disasm (Retire i fl) =
     [Str (''R'' @ TAB), SetDec, ULong i, Str TAB, SetDec, ULong i, Str TAB, SLong (of_bool fl), Str NL]"

record konata =
  lines :: "kanata_line list"
  enqueuedInsts :: "u64 list"     \<comment> \<open>\<^verbatim>\<open>std::set\<close>, in ascending order\<close>
  cycles :: u64
  last_if1_id :: u64
  last_if2_id :: u64
  last_id_id :: u64
  last_ir_id :: u64
  last_rr_id :: u64
  last_exe_id :: u64
  last_id_valid :: u64
  last_id_flush :: u64
  last_id_stall :: u64

definition konata_signature_init :: konata where
  "konata_signature_init =
     \<lparr>lines = [], enqueuedInsts = [], cycles = 1, last_if1_id = 1, last_if2_id = 1, last_id_id = 1,
      last_ir_id = 0, last_rr_id = 0, last_exe_id = 0, last_id_valid = 0, last_id_flush = 0,
      last_id_stall = 0\<rparr>"

definition trace_text :: "(u64 \<Rightarrow> string) \<Rightarrow> konata \<Rightarrow> ostream" where
  "trace_text disasm k =
     puts (concat (map (line_text disasm) (lines k))) (emit fresh_stream (''Kanata'' @ TAB @ ''0004'' @ NL))"

section \<open>One cycle\<close>

definition konata_idle :: "konata_in \<Rightarrow> bool" where
  "konata_idle x \<longleftrightarrow>
     \<not> (if1_valid x \<noteq> 0 \<and> if1_stall x = 0 \<or> if2_valid x \<noteq> 0 \<and> if2_stall x = 0 \<or>
        id_valid x \<noteq> 0 \<and> id_stall x = 0 \<or> exe_valid x \<noteq> 0 \<and> exe_stall x = 0 \<or>
        ir_valid x \<noteq> 0 \<and> ir_stall x = 0 \<or> rr_valid x \<noteq> 0 \<and> rr_stall x = 0 \<or>
        wb1_valid x \<noteq> 0 \<or> wb2_valid x \<noteq> 0 \<or> wb3_valid x \<noteq> 0 \<or> wb4_valid x \<noteq> 0 \<or>
        wb1_fp_valid x \<noteq> 0 \<or> wb2_fp_valid x \<noteq> 0 \<or> wb1_simd_valid x \<noteq> 0 \<or> wb2_simd_valid x \<noteq> 0 \<or>
        if1_flush x \<noteq> 0 \<or> if2_flush x \<noteq> 0 \<or> id_flush x \<noteq> 0 \<or>
        ir_flush x \<noteq> 0 \<or> rr_flush x \<noteq> 0 \<or> exe_flush x \<noteq> 0 \<or> exe_kill x \<noteq> 0)"

definition fetch_lines :: "konata_in \<Rightarrow> konata \<Rightarrow> kanata_line list" where
  "fetch_lines x k =
     (if if1_valid x \<noteq> 0 \<and> if1_stall x = 0 \<and> if1_flush x = 0 \<and> last_if1_id k \<noteq> if1_id x
      then [Fetch (if1_id x), Start (if1_id x) ''F1''] else []) @
     (if if2_flush x \<noteq> 0 then [Retire (if2_id x) True]
      else if if2_valid x \<noteq> 0 \<and> if2_stall x = 0 \<and> last_if2_id k \<noteq> if2_id x
      then [End (if2_id x) ''F1'', Start (if2_id x) ''F2''] else [])"

definition decode_lines :: "konata_in \<Rightarrow> konata \<Rightarrow> kanata_line list" where
  "decode_lines x k =
     (if id_flush x \<noteq> 0 then [Retire (id_id x) True]
      else if id_valid x \<noteq> 0 \<and> id_id x \<noteq> last_id_id k
      then [Label (id_id x) (sign_extend40 (id_pc x)) (id_inst x), End (id_id x) ''F2'', Start (id_id x) ''D'']
      else [])"

definition insert_sorted :: "u64 \<Rightarrow> u64 list \<Rightarrow> u64 list" where
  "insert_sorted i xs = (if i \<in> set xs then xs else insort i xs)"

text \<open>The instruction queue: the previously decoded instruction enters it, a flush empties it.\<close>

definition queue_enter :: "konata_in \<Rightarrow> konata \<Rightarrow> u64 list \<Rightarrow> kanata_line list \<times> u64 list" where
  "queue_enter x k q =
     (if last_id_valid k \<noteq> 0 \<and> last_id_stall k = 0 \<and> last_id_flush k = 0 \<and> ir_flush x = 0
      then ([End (last_id_id k) ''D'', Start (last_id_id k) ''Q''], insert_sorted (last_id_id k) q)
      else if last_id_valid k \<noteq> 0 \<and> last_id_stall k = 0 \<and> last_id_flush k = 0
      then ([Retire (last_id_id k) True], q)
      else ([], q))"

definition queue_leave :: "konata_in \<Rightarrow> u64 list \<Rightarrow> kanata_line list \<times> u64 list" where
  "queue_leave x q =
     (if ir_flush x \<noteq> 0 then (Retire (ir_id x) True # map (\<lambda>i. Retire i True) q, [])
      else if ir_valid x \<noteq> 0 \<and> ir_stall x = 0
      then ([End (ir_id x) ''Q'', Start (ir_id x) ''I''], removeAll (ir_id x) q)
      else ([], q))"

definition unit_stage :: "u64 \<Rightarrow> string" where
  "unit_stage u =
     (if u = 0 then ''A'' else if u = 1 then ''DIV'' else if u = 2 then ''MUL'' else if u = 3 then ''B''
      else if u = 4 then ''M'' else if u = 5 then ''V'' else if u = 6 then ''FP'' else ''E'')"

definition execute_lines :: "konata_in \<Rightarrow> kanata_line list" where
  "execute_lines x =
     (if rr_flush x \<noteq> 0 then [Retire (rr_id x) True]
      else if rr_valid x \<noteq> 0 \<and> ir_stall x = 0 then [End (rr_id x) ''I'', Start (rr_id x) ''R''] else []) @
     (if exe_flush x \<noteq> 0 \<or> exe_kill x \<noteq> 0 then [Retire (exe_id x) True]
      else if exe_valid x \<noteq> 0 \<and> rr_stall x = 0
      then [End (exe_id x) ''R'', Start (exe_id x) (unit_stage (exe_unit x))] else [])"

definition retire_lines :: "konata_in \<Rightarrow> kanata_line list" where
  "retire_lines x =
     (if wb1_valid x \<noteq> 0 then [Retire (wb1_id x) False] else []) @
     (if wb2_valid x \<noteq> 0 then [Retire (wb2_id x) False] else []) @
     (if wb3_valid x \<noteq> 0 then [Retire (wb3_id x) False] else []) @
     (if wb4_valid x \<noteq> 0 then [Retire (wb4_id x) False] else []) @
     (if wb1_fp_valid x \<noteq> 0 then [Retire (wb1_fp_id x) False] else []) @
     (if wb2_fp_valid x \<noteq> 0 then [Retire (wb2_fp_id x) False] else []) @
     (if wb1_simd_valid x \<noteq> 0 then [Retire (wb1_simd_id x) False] else []) @
     (if wb2_simd_valid x \<noteq> 0 then [Retire (wb2_simd_id x) False] else []) @
     (if wb_store_valid x \<noteq> 0 then [Retire (wb_store_id x) False] else [])"

definition konata_active :: "konata_in \<Rightarrow> konata \<Rightarrow> konata" where
  "konata_active x k =
     (let (enter, q) = queue_enter x k (enqueuedInsts k); (leave, q) = queue_leave x q
      in k\<lparr>lines := lines k @ [Cycle (cycles k)] @ fetch_lines x k @ decode_lines x k @ enter @ leave @
                      execute_lines x @ retire_lines x,
           enqueuedInsts := q, cycles := 1\<rparr>)"

definition konata_remember :: "konata_in \<Rightarrow> konata \<Rightarrow> konata" where
  "konata_remember x k =
     k\<lparr>last_if1_id := if1_id x,
       last_if2_id := (if if2_valid x \<noteq> 0 then if2_id x else last_if2_id k),
       last_id_id := (if id_valid x \<noteq> 0 then id_id x else last_id_id k),
       last_ir_id := (if ir_valid x \<noteq> 0 then ir_id x else last_ir_id k),
       last_rr_id := (if rr_valid x \<noteq> 0 then rr_id x else last_rr_id k),
       last_exe_id := (if exe_valid x \<noteq> 0 then exe_id x else last_exe_id k),
       last_id_valid := id_valid x, last_id_flush := id_flush x, last_id_stall := id_stall x\<rparr>"

definition konata_dump_file :: "konata_in \<Rightarrow> konata \<Rightarrow> konata" where
  "konata_dump_file x k =
     konata_remember x (if konata_idle x then k\<lparr>cycles := cycles k + 1\<rparr> else konata_active x k)"

text \<open>The DPI entry passes the valid bits of the stages \<^verbatim>\<open>RR\<close> and \<^verbatim>\<open>IR\<close> in exchanged positions.\<close>

definition konata_dump :: "konata_in \<Rightarrow> konata \<Rightarrow> konata" where
  "konata_dump x k = konata_dump_file (x\<lparr>ir_valid := rr_valid x, rr_valid := ir_valid x\<rparr>) k"

section \<open>Properties\<close>

definition konata_run :: "konata_in list \<Rightarrow> konata" where
  "konata_run xs = fold konata_dump xs konata_signature_init"

lemma konata_run_snoc: "konata_run (xs @ [x]) = konata_dump x (konata_run xs)"
  by (simp add: konata_run_def)

fun cycle_sum :: "kanata_line list \<Rightarrow> u64" where
  "cycle_sum [] = 0"
| "cycle_sum (Cycle n # ls) = n + cycle_sum ls"
| "cycle_sum (_ # ls) = cycle_sum ls"

lemma cycle_sum_append [simp]: "cycle_sum (xs @ ys) = cycle_sum xs + cycle_sum ys"
  by (induction xs rule: cycle_sum.induct) auto

lemma cycle_sum_none:
  "cycle_sum (fetch_lines x k) = 0" "cycle_sum (decode_lines x k) = 0"
  "cycle_sum (fst (queue_enter x k q)) = 0" "cycle_sum (fst (queue_leave x q)) = 0"
  "cycle_sum (execute_lines x) = 0" "cycle_sum (retire_lines x) = 0"
proof -
  have "cycle_sum (map (\<lambda>i. Retire i True) q) = 0" by (induction q) auto
  then show "cycle_sum (fst (queue_leave x q)) = 0" by (simp add: queue_leave_def)
qed (simp_all add: fetch_lines_def decode_lines_def queue_enter_def execute_lines_def retire_lines_def)

lemma remember_simps [simp]:
  "lines (konata_remember x k) = lines k" "cycles (konata_remember x k) = cycles k"
  "enqueuedInsts (konata_remember x k) = enqueuedInsts k"
  by (simp_all add: konata_remember_def)

lemma dump_file_cycles:
  "cycle_sum (lines (konata_dump_file x k)) + cycles (konata_dump_file x k) =
     cycle_sum (lines k) + cycles k + 1"
  by (simp add: konata_dump_file_def konata_active_def case_prod_beta cycle_sum_none)

text \<open>The trace accounts for every cycle: the cycle counts written so far and the pending
  count add up to the number of calls plus one, modulo \<open>2 ^ 64\<close>.\<close>

lemma konata_cycle_accounting:
  "cycle_sum (lines (konata_run xs)) + cycles (konata_run xs) = of_nat (length xs) + 1"
proof (induction xs rule: rev_induct)
  case Nil
  show ?case by (simp add: konata_run_def konata_signature_init_def)
next
  case (snoc x xs)
  then show ?case
    unfolding konata_run_snoc konata_dump_def dump_file_cycles by simp
qed

text \<open>The instructions whose last queue line is an entry.\<close>

definition queue_line :: "kanata_line \<Rightarrow> u64 set \<Rightarrow> u64 set" where
  "queue_line l S =
     (case l of Start i st \<Rightarrow> if st = ''Q'' then insert i S else S
      | End i st \<Rightarrow> if st = ''Q'' then S - {i} else S | _ \<Rightarrow> S)"

definition in_queue :: "kanata_line list \<Rightarrow> u64 set" where
  "in_queue ls = fold queue_line ls {}"

lemma fold_queue_line_none:
  "(\<And>l. l \<in> set ls \<Longrightarrow> (\<forall>i. l \<noteq> Start i ''Q'' \<and> l \<noteq> End i ''Q'')) \<Longrightarrow> fold queue_line ls S = S"
  by (induction ls arbitrary: S) (auto simp: queue_line_def split: kanata_line.splits)

lemma queue_line_none [simp]:
  "fold queue_line (fetch_lines x k) S = S" "fold queue_line (decode_lines x k) S = S"
  "fold queue_line (execute_lines x) S = S" "fold queue_line (retire_lines x) S = S"
  by (rule fold_queue_line_none;
      auto simp: fetch_lines_def decode_lines_def execute_lines_def retire_lines_def unit_stage_def
        split: if_splits)+

lemma queue_line_simps [simp]:
  "queue_line (Cycle n) S = S" "queue_line (Retire i f) S = S"
  "queue_line (Start i ''Q'') S = insert i S" "queue_line (End i ''Q'') S = S - {i}"
  "queue_line (Start i ''I'') S = S" "queue_line (End i ''D'') S = S"
  by (simp_all add: queue_line_def)

lemma set_insert_sorted [simp]: "set (insert_sorted i xs) = insert i (set xs)"
  by (auto simp: insert_sorted_def set_insort_key)

definition queue_inv :: "konata \<Rightarrow> bool" where
  "queue_inv k \<longleftrightarrow> sorted (enqueuedInsts k) \<and> distinct (enqueuedInsts k) \<and>
     set (enqueuedInsts k) \<subseteq> in_queue (lines k)"

lemma queue_inv_step:
  assumes "queue_inv k"
  shows "queue_inv (konata_dump_file x k)"
proof -
  obtain enter q1 where e: "queue_enter x k (enqueuedInsts k) = (enter, q1)" by fastforce
  obtain leave q2 where l: "queue_leave x q1 = (leave, q2)" by fastforce
  let ?S = "in_queue (lines k)"
  have q1: "sorted q1 \<and> distinct q1 \<and> set q1 \<subseteq> fold queue_line enter ?S"
    using e assms
    by (auto simp: queue_enter_def queue_inv_def insert_sorted_def sorted_insort distinct_insort set_insort_key
        split: if_splits)
  have "set q2 \<subseteq> fold queue_line leave S" if "set q1 \<subseteq> S" for S
    using l that by (auto simp: queue_leave_def split: if_splits)
  moreover have "sorted q2 \<and> distinct q2"
    using l q1 by (auto simp: queue_leave_def removeAll_filter_not_eq sorted_wrt_filter split: if_splits)
  ultimately have "sorted q2 \<and> distinct q2 \<and> set q2 \<subseteq> fold queue_line leave (fold queue_line enter ?S)"
    using q1 by blast
  then show ?thesis
    using e l assms unfolding konata_dump_file_def konata_active_def queue_inv_def
    by (auto simp: in_queue_def)
qed

text \<open>A flush of the issue stage empties the queue and writes a flush line for every instruction
  that was in it.\<close>

lemma konata_flush_empties:
  assumes "ir_flush x \<noteq> 0"
  shows "enqueuedInsts (konata_dump x k) = [] \<and>
     (\<forall>i \<in> set (enqueuedInsts k). Retire i True \<in> set (drop (length (lines k)) (lines (konata_dump x k))))"
proof -
  have "\<not> konata_idle (x\<lparr>ir_valid := rr_valid x, rr_valid := ir_valid x\<rparr>)"
    using assms by (simp add: konata_idle_def)
  then show ?thesis
    using assms
    by (simp add: konata_dump_def konata_dump_file_def konata_active_def queue_enter_def queue_leave_def)
qed

lemma queue_inv_run: "queue_inv (konata_run xs)"
proof (induction xs rule: rev_induct)
  case Nil
  show ?case by (simp add: konata_run_def konata_signature_init_def queue_inv_def)
next
  case (snoc x xs)
  then show ?case
    by (simp add: konata_run_snoc konata_dump_def queue_inv_step)
qed

text \<open>The queue in terms of the signals alone. The instruction decoded in the previous cycle enters
  it in a cycle with activity, unless the decode stage was stalled or flushed or the issue stage is
  flushed now; an issue flush removes every instruction, and the register-read valid bit (passed in
  the issue stage's position) without an issue stall removes the one the issue stage names.\<close>

definition cycle_active :: "konata_in \<Rightarrow> bool" where
  "cycle_active x \<longleftrightarrow> \<not> konata_idle (x\<lparr>ir_valid := rr_valid x, rr_valid := ir_valid x\<rparr>)"

definition enters :: "konata_in list \<Rightarrow> nat \<Rightarrow> u64 \<Rightarrow> bool" where
  "enters xs t i \<longleftrightarrow>
     0 < t \<and> t < length xs \<and> cycle_active (xs ! t) \<and> ir_flush (xs ! t) = 0 \<and> id_valid (xs ! (t - 1)) \<noteq> 0 \<and>
     id_stall (xs ! (t - 1)) = 0 \<and> id_flush (xs ! (t - 1)) = 0 \<and> i = id_id (xs ! (t - 1))"

definition leaves :: "konata_in \<Rightarrow> u64 \<Rightarrow> bool" where
  "leaves x i \<longleftrightarrow> ir_flush x \<noteq> 0 \<or> rr_valid x \<noteq> 0 \<and> ir_stall x = 0 \<and> i = ir_id x"

definition queued :: "konata_in list \<Rightarrow> u64 set" where
  "queued xs = {i. \<exists>t. enters xs t i \<and> (\<forall>u. t \<le> u \<and> u < length xs \<longrightarrow> \<not> leaves (xs ! u) i)}"

text \<open>What the state remembers of the previous cycle.\<close>

lemma konata_last:
  "last_id_valid (konata_run (xs @ [x])) = id_valid x" "last_id_stall (konata_run (xs @ [x])) = id_stall x"
  "last_id_flush (konata_run (xs @ [x])) = id_flush x"
  "id_valid x \<noteq> 0 \<Longrightarrow> last_id_id (konata_run (xs @ [x])) = id_id x"
  by (simp_all add: konata_run_snoc konata_dump_def konata_dump_file_def konata_remember_def)

lemma last_decoded_enters:
  assumes "cycle_active x" "ir_flush x = 0"
  shows "enters (xs @ [x]) (length xs) i \<longleftrightarrow>
     last_id_valid (konata_run xs) \<noteq> 0 \<and> last_id_stall (konata_run xs) = 0 \<and> last_id_flush (konata_run xs) = 0 \<and>
     i = last_id_id (konata_run xs)"
proof (cases xs rule: rev_cases)
  case Nil
  then show ?thesis by (simp add: enters_def konata_run_def konata_signature_init_def)
next
  case (snoc ys y)
  then show ?thesis
    using assms by (auto simp: enters_def konata_last nth_append)
qed

lemma queued_snoc:
  "queued (xs @ [x]) = {i. (i \<in> queued xs \<or> enters (xs @ [x]) (length xs) i) \<and> \<not> leaves x i}"
proof -
  have e: "enters (xs @ [x]) t i \<longleftrightarrow> enters xs t i" if "t < length xs" for t i
    using that by (auto simp: enters_def nth_append)
  define stays where "stays t i \<longleftrightarrow> (\<forall>u. t \<le> u \<and> u < length xs \<longrightarrow> \<not> leaves (xs ! u) i)" for t i
  have l: "(\<forall>u. t \<le> u \<and> u < length (xs @ [x]) \<longrightarrow> \<not> leaves ((xs @ [x]) ! u) i) \<longleftrightarrow> stays t i \<and> \<not> leaves x i"
    if "t \<le> length xs" for t i
    using that unfolding stays_def by (auto simp: nth_append less_Suc_eq)
  have b: "enters (xs @ [x]) t i \<Longrightarrow> t \<le> length xs" "enters xs t i \<Longrightarrow> t < length xs" for t i
    by (auto simp: enters_def)
  have q: "i \<in> queued xs \<longleftrightarrow> (\<exists>t. enters xs t i \<and> stays t i)" for i
    by (simp add: queued_def stays_def)
  have "i \<in> queued (xs @ [x]) \<longleftrightarrow> (\<exists>t. enters (xs @ [x]) t i \<and> stays t i \<and> \<not> leaves x i)" for i
    unfolding queued_def mem_Collect_eq by (intro ex_cong1 conj_cong refl l b(1))
  moreover have "stays (length xs) i" for i by (auto simp: stays_def)
  ultimately have "i \<in> queued (xs @ [x]) \<longleftrightarrow>
      (i \<in> queued xs \<or> enters (xs @ [x]) (length xs) i) \<and> \<not> leaves x i" for i
    unfolding q by (metis e b le_neq_implies_less)
  then show ?thesis by blast
qed

lemma set_queue_step:
  "set (enqueuedInsts (konata_dump x (konata_run xs))) =
     {i. (i \<in> set (enqueuedInsts (konata_run xs)) \<or> enters (xs @ [x]) (length xs) i) \<and> \<not> leaves x i}"
proof (cases "cycle_active x")
  case True
  then show ?thesis
    using last_decoded_enters [of x xs]
    by (auto simp: cycle_active_def konata_dump_def konata_dump_file_def konata_active_def queue_enter_def
        queue_leave_def leaves_def case_prod_beta)
next
  case False
  then have "\<not> leaves x i \<and> \<not> enters (xs @ [x]) (length xs) i" for i
    by (auto simp: cycle_active_def konata_idle_def leaves_def enters_def)
  then show ?thesis
    using False by (simp add: cycle_active_def konata_dump_def konata_dump_file_def)
qed

text \<open>C32: in every run the tracked instruction queue is, in ascending order and without
  duplicates, exactly the set of instructions that entered it in some cycle and have not left it
  since, by the decode, issue and register-read signals of the run; the trace has for each of them
  a start of the stage \<open>Q\<close> that is not followed by its end; and a cycle \<open>x\<close> with an issue flush after the run empties
  the queue and writes a flush line for each of them.\<close>

theorem konata_queue_tracks:
  "sorted (enqueuedInsts (konata_run xs)) \<and> distinct (enqueuedInsts (konata_run xs)) \<and>
   set (enqueuedInsts (konata_run xs)) =
     {i. \<exists>t. enters xs t i \<and> (\<forall>u. t \<le> u \<and> u < length xs \<longrightarrow> \<not> leaves (xs ! u) i)} \<and>
   set (enqueuedInsts (konata_run xs)) \<subseteq> in_queue (lines (konata_run xs)) \<and>
   (ir_flush x \<noteq> 0 \<longrightarrow> enqueuedInsts (konata_run (xs @ [x])) = [] \<and>
      (\<forall>i \<in> set (enqueuedInsts (konata_run xs)).
         Retire i True \<in> set (drop (length (lines (konata_run xs))) (lines (konata_run (xs @ [x]))))))"
proof -
  have "set (enqueuedInsts (konata_run xs)) = queued xs"
  proof (induction xs rule: rev_induct)
    case Nil
    show ?case by (simp add: queued_def enters_def konata_run_def konata_signature_init_def)
  next
    case (snoc x xs)
    show ?case
      unfolding konata_run_snoc set_queue_step queued_snoc snoc.IH ..
  qed
  then show ?thesis
    using queue_inv_run [of xs] konata_flush_empties [of x "konata_run xs"]
    unfolding queue_inv_def queued_def konata_run_snoc by blast
qed

definition no_activity :: konata_in where
  "no_activity =
     \<lparr>if1_valid = 0, if2_valid = 0, id_valid = 0, ir_valid = 0, rr_valid = 0, exe_valid = 0,
      wb1_valid = 0, wb2_valid = 0, wb3_valid = 0, wb4_valid = 0, wb1_fp_valid = 0, wb2_fp_valid = 0,
      wb1_simd_valid = 0, wb2_simd_valid = 0, wb_store_valid = 0,
      if1_stall = 0, if2_stall = 0, id_stall = 0, ir_stall = 0, rr_stall = 0, exe_stall = 0,
      if1_flush = 0, if2_flush = 0, id_flush = 0, ir_flush = 0, rr_flush = 0, exe_flush = 0, exe_kill = 0,
      id_pc = 0, id_inst = 0, if1_id = 0, if2_id = 0, id_id = 0, ir_id = 0, rr_id = 0, exe_id = 0,
      exe_unit = 0, wb1_id = 0, wb2_id = 0, wb3_id = 0, wb4_id = 0, wb1_fp_id = 0, wb2_fp_id = 0,
      wb1_simd_id = 0, wb2_simd_id = 0, wb_store_id = 0\<rparr>"

definition sample_pipeline :: "konata_in list" where
  "sample_pipeline =
     [no_activity\<lparr>id_valid := 1, id_id := 5\<rparr>, no_activity\<lparr>id_valid := 1, id_id := 6, if1_valid := 1\<rparr>,
      no_activity\<lparr>if1_valid := 1, rr_valid := 1, ir_id := 5\<rparr>]"

text \<open>Instructions 5 and 6 are decoded, 5 is issued: 6 is in the queue, and a flush reports it.\<close>

theorem konata_queue_tracks_witness:
  "6 \<in> set (enqueuedInsts (konata_run sample_pipeline)) \<and> 5 \<notin> set (enqueuedInsts (konata_run sample_pipeline)) \<and>
   Retire 6 True \<in> set (drop (length (lines (konata_run sample_pipeline)))
     (lines (konata_run (sample_pipeline @ [no_activity\<lparr>ir_flush := 1\<rparr>]))))"
proof -
  note t = konata_queue_tracks [of sample_pipeline "no_activity\<lparr>ir_flush := 1\<rparr>"]
  have 6: "enters sample_pipeline 2 6" "\<not> leaves (sample_pipeline ! 2) 6" "length sample_pipeline = 3"
    by (simp_all add: sample_pipeline_def enters_def leaves_def cycle_active_def konata_idle_def no_activity_def)
  have 5: "enters sample_pipeline t 5 \<Longrightarrow> t = 1" "leaves (sample_pipeline ! 2) 5" for t
    by (auto simp: sample_pipeline_def enters_def leaves_def no_activity_def less_Suc_eq numeral_3_eq_3)
  have "\<forall>u. 2 \<le> u \<and> u < length sample_pipeline \<longrightarrow> \<not> leaves (sample_pipeline ! u) 6"
    using 6(2,3) by (auto simp: less_Suc_eq numeral_3_eq_3 numeral_2_eq_2)
  then have 1: "6 \<in> set (enqueuedInsts (konata_run sample_pipeline))"
    using t 6(1) by blast
  moreover have "5 \<notin> set (enqueuedInsts (konata_run sample_pipeline))"
  proof
    assume "5 \<in> set (enqueuedInsts (konata_run sample_pipeline))"
    then obtain t where "enters sample_pipeline t 5"
      "\<forall>u. t \<le> u \<and> u < length sample_pipeline \<longrightarrow> \<not> leaves (sample_pipeline ! u) 5"
      using t by blast
    then show False using 5(1) [of t] 5(2) 6(3) by fastforce
  qed
  moreover have "ir_flush (no_activity\<lparr>ir_flush := 1\<rparr>) \<noteq> 0" by simp
  ultimately show ?thesis using t by blast
qed

text \<open>A store that retires in a cycle with no other activity leaves no line in the trace: its
  valid bit is missing from the activity test.\<close>

lemma konata_store_lost:
  "lines (konata_dump (no_activity\<lparr>wb_store_valid := 1, wb_store_id := i\<rparr>) k) = lines k"
  by (simp add: no_activity_def konata_dump_def konata_dump_file_def konata_idle_def)

text \<open>The issue-stage lines of the trace follow the valid bit of the register-read stage, because
  \<^verbatim>\<open>konata_dump\<close> passes the two bits in exchanged order: with no flush and no stall, an instruction
  is shown to leave the queue exactly when \<^verbatim>\<open>rr_valid\<close> is set.\<close>

lemma konata_valid_exchanged:
  assumes "if1_valid x \<noteq> 0" "if1_stall x = 0" "ir_flush x = 0" "ir_stall x = 0"
  shows "End (ir_id x) ''Q'' \<in> set (drop (length (lines k)) (lines (konata_dump x k))) \<longleftrightarrow> rr_valid x \<noteq> 0"
  using assms
  by (auto simp: konata_dump_def konata_dump_file_def konata_idle_def konata_active_def queue_enter_def
      queue_leave_def fetch_lines_def decode_lines_def execute_lines_def retire_lines_def)

section \<open>The text of the trace\<close>

definition dec :: "u64 \<Rightarrow> string" where "dec n = digits_in 10 (unat n)"

primrec line_string :: "(u64 \<Rightarrow> string) \<Rightarrow> kanata_line \<Rightarrow> string" where
  "line_string disasm (Cycle n) = ''C'' @ TAB @ dec n @ NL"
| "line_string disasm (Fetch i) = ''I'' @ TAB @ dec i @ TAB @ dec i @ TAB @ ''0'' @ NL"
| "line_string disasm (Label i pc inst) =
     ''L'' @ TAB @ dec i @ TAB @ ''0'' @ TAB @ ''0x'' @ hex_field 16 pc @ '': '' @ disasm inst @ NL"
| "line_string disasm (Start i st) = ''S'' @ TAB @ dec i @ TAB @ ''0'' @ TAB @ st @ NL"
| "line_string disasm (End i st) = ''E'' @ TAB @ dec i @ TAB @ ''0'' @ TAB @ st @ NL"
| "line_string disasm (Retire i fl) =
     ''R'' @ TAB @ dec i @ TAB @ dec i @ TAB @ (if fl then ''1'' else ''0'') @ NL"

lemma small_digits [simp]: "digits_in 10 0 = ''0''" "digits_in 10 (Suc 0) = ''1''" "digits_in 10 1 = ''1''"
  by (simp_all add: digits_in.simps digit_def)

lemma puts_line:
  assumes "\<not> leftadj os" "fwidth os = 0"
  shows "\<exists>os'. puts (line_text disasm l) os = os' \<and> out os' = out os @ line_string disasm l \<and>
     \<not> leftadj os' \<and> fwidth os' = 0"
  using assms
  by (cases l) (auto simp: HEX_PC_konata_def pad_def Let_def emit_def dec_def int_digits_def hex_field_def)

lemma puts_lines:
  assumes "\<not> leftadj os" "fwidth os = 0"
  shows "out (puts (concat (map (line_text disasm) ls)) os) = out os @ concat (map (line_string disasm) ls)"
  using assms
proof (induction ls arbitrary: os)
  case (Cons l ls)
  show ?case
    using puts_line [OF Cons.prems, of disasm l] Cons.IH by auto
qed simp

text \<open>The text of the trace file is the header followed by one line per event, with numbers in
  decimal and the address as sixteen hexadecimal digits; no formatting state leaks from one line
  into the next.\<close>

lemma konata_text:
  "out (trace_text disasm k) =
     ''Kanata'' @ TAB @ ''0004'' @ NL @ concat (map (line_string disasm) (lines k))"
  unfolding trace_text_def
  by (subst puts_lines) (simp_all add: fresh_stream_def pad_def Let_def)

end
