(* ===== verification/Commit_Log.thy ===== *)
theory Commit_Log
  imports Ostream Perfect_Memory
begin

text \<open>
  The instruction log, \<^verbatim>\<open>simulator/models/cxx/dpi_commit_log.cpp\<close>: one call per committed
  instruction, writing what Spike writes for it. The text goes through the stream model, so that
  the sticky base, fill and adjustment of the C++ stream act as they do in the code. Spike's
  disassembler and register names are the parameters \<open>disasm\<close> and \<open>csr_name\<close>, and the value of
  \<^verbatim>\<open>last_fflags\<close> before the first commit that sets it is arbitrary.
\<close>

section \<open>Data\<close>

record commit_data =
  fflags_wr_valid :: u64
  mem_addr :: u64
  mem_type :: u64
  csr_tval :: u64
  csr_xcpt_cause :: u64
  csr_xcpt :: u64
  csr_rw_data :: u64
  csr_priv_lvl :: u64
  xcpt_cause :: u64
  xcpt :: u64
  vl :: u64
  lmul :: u64
  sew :: u64
  csr_data :: u64
  csr_dst :: u64
  csr_wr_valid :: u64
  data :: "u32 list"
  vreg_wr_valid :: u64
  freg_wr_valid :: u64
  reg_wr_valid :: u64
  vdst :: u64
  fdst :: u64
  dst :: u64
  inst :: u64
  pc :: u64
  core :: u64

record commit_log =
  signature :: "u64 list"
  signatureFile :: ostream
  last_fflags :: u64
  csr_changes :: "(u64 \<times> u64) list"
  amo_writes :: "u64 list"

definition CommitLog :: "u64 \<Rightarrow> commit_log" where
  "CommitLog junk = \<lparr>signature = replicate 32 0, signatureFile = fresh_stream, last_fflags = junk,
     csr_changes = [], amo_writes = []\<rparr>"

definition csr_change :: "u64 \<Rightarrow> u64 \<Rightarrow> commit_log \<Rightarrow> commit_log" where
  "csr_change addr value s = s\<lparr>csr_changes := csr_changes s @ [(addr, value)]\<rparr>"

definition commit_log_dump_amo_write :: "u32 \<Rightarrow> u64 \<Rightarrow> commit_log \<Rightarrow> commit_log" where
  "commit_log_dump_amo_write baseAddress d s = s\<lparr>amo_writes := d # amo_writes s\<rparr>"

section \<open>The formatting macros\<close>

definition hex_right :: "nat \<Rightarrow> insertion list" where
  "hex_right n = [SetRight, SetW n, SetFill (CHR ''0''), SetHex]"

definition HEX_PC :: "u64 \<Rightarrow> insertion list" where "HEX_PC x = Str ''0x'' # hex_right 16 @ [SLong x]"
definition HEX_INST :: "u64 \<Rightarrow> insertion list" where "HEX_INST x = Str ''0x'' # hex_right 8 @ [SLong x]"
definition HEX_DATA :: "u64 \<Rightarrow> insertion list" where "HEX_DATA x = Str ''0x'' # hex_right 16 @ [SLong x]"
definition HEX_WORD :: "u32 \<Rightarrow> insertion list" where "HEX_WORD x = Str ''0x'' # hex_right 8 @ [ULong (ucast x)]"
definition HEX_HALF :: "u16 \<Rightarrow> insertion list" where "HEX_HALF x = Str ''0x'' # hex_right 4 @ [ULong (ucast x)]"
definition HEX_BYTE :: "u64 \<Rightarrow> insertion list" where "HEX_BYTE x = Str ''0x'' # hex_right 2 @ [SLong (x AND 0xff)]"
definition HEX_VDATA :: "u32 \<Rightarrow> insertion list" where "HEX_VDATA x = hex_right 8 @ [SLong (ucast x)]"
definition dec_left :: "string \<Rightarrow> u64 \<Rightarrow> insertion list" where
  "dec_left r x = [Str r, SetLeft, SetW 2, SetFill (CHR '' ''), SetDec, SLong x]"
definition DEC_DST :: "u64 \<Rightarrow> insertion list" where "DEC_DST x = dec_left ''x'' x"
definition DEC_FDST :: "u64 \<Rightarrow> insertion list" where "DEC_FDST x = dec_left ''f'' x"
definition DEC_VDST :: "u64 \<Rightarrow> insertion list" where "DEC_VDST x = dec_left ''v'' x"
definition DEC_PRIV :: "u64 \<Rightarrow> insertion list" where "DEC_PRIV x = [SetW 1, SetDec, SLong x]"
definition DEC_CSR :: "u64 \<Rightarrow> insertion list" where
  "DEC_CSR x = [Str ''c'', SetRight, SetW 3, SetDec, SLong x]"
definition newline :: insertion where "newline = Str [CHR 0x0A]"

section \<open>Exceptions\<close>

definition cause_name :: "u64 \<Rightarrow> insertion" where
  "cause_name cause =
     (if cause = 0x0 then Str ''trap_misaligned_fetch''
      else if cause = 0x1 then Str ''trap_fault_fetch''
      else if cause = 0x2 then Str ''trap_illegal_instruction''
      else if cause = 0x3 then Str ''trap_breakpoint''
      else if cause = 0x4 then Str ''trap_load_address_misaligned''
      else if cause = 0x5 then Str ''trap_fault_load''
      else if cause = 0x6 then Str ''trap_store_address_misaligned''
      else if cause = 0x7 then Str ''trap_fault_store''
      else if cause = 0x8 then Str ''trap_user_ecall''
      else if cause = 0x9 then Str ''trap_supervisor_ecall''
      else if cause = 0xB then Str ''trap_machine_ecall''
      else if cause = 0xC then Str ''trap_instruction_page_fault''
      else if cause = 0xD then Str ''trap_load_page_fault''
      else if cause = 0xF then Str ''trap_store_page_fault''
      else ULong cause)"

definition is_ecall :: "u64 \<Rightarrow> bool" where
  "is_ecall cause \<longleftrightarrow> cause = 0x8 \<or> cause = 0x9 \<or> cause = 0xB"

definition dump_xcpt :: "u64 \<Rightarrow> u64 \<Rightarrow> u64 \<Rightarrow> insertion list" where
  "dump_xcpt cause epc tval =
     [Str ''core   0: exception '', cause_name cause, Str '', epc ''] @ HEX_PC epc @ [newline] @
     (if \<not> is_ecall cause then [Str ''core   0:           tval ''] @ HEX_DATA tval @ [newline] else [])"

section \<open>A committed instruction\<close>

text \<open>The register of the floating-point flags is printed first and its changes are used up.\<close>

fun take_fflags ::
  "bool \<Rightarrow> (u64 \<times> u64) list \<Rightarrow> u64 \<times> bool \<Rightarrow> insertion list \<times> (u64 \<times> u64) list \<times> u64 \<times> bool" where
  "take_fflags wr [] (lastf, found) = ([], [], lastf, found)"
| "take_fflags wr ((csr, value) # cs) (lastf, found) =
     (if csr = 0x001 \<and> wr
      then let (is, rest, st) = take_fflags wr cs (value, True)
           in (Str '' c1_fflags '' # HEX_DATA value @ is, rest, st)
      else let (is, rest, st) = take_fflags wr cs (lastf, found)
           in (is, (csr, value) # rest, st))"

definition fflags_part :: "bool \<Rightarrow> commit_log \<Rightarrow> insertion list \<times> (u64 \<times> u64) list \<times> u64" where
  "fflags_part wr s =
     (let (is, rest, lastf, found) = take_fflags wr (csr_changes s) (last_fflags s, False)
      in (is @ (if wr \<and> \<not> found then Str '' c1_fflags '' # HEX_DATA lastf else []), rest, lastf))"

definition sew_text :: "u64 \<Rightarrow> insertion list" where
  "sew_text x = (if x = 0 then [Str '' e8''] else if x = 1 then [Str '' e16'']
     else if x = 2 then [Str '' e32''] else if x = 3 then [Str '' e64''] else [])"

definition lmul_text :: "u64 \<Rightarrow> insertion list" where
  "lmul_text x = (if x = 0 then [Str '' m1''] else if x = 1 then [Str '' m2'']
     else if x = 2 then [Str '' m4''] else if x = 3 then [Str '' m8'']
     else if x = 5 then [Str '' mf8''] else if x = 6 then [Str '' mf4''] else if x = 7 then [Str '' mf2'']
     else [])"

definition opcode_of :: "commit_data \<Rightarrow> u64" where "opcode_of c = inst c AND 0x7f"
definition func3_of :: "commit_data \<Rightarrow> u64" where "func3_of c = drop_bit 12 (inst c) AND 0x7"
definition func6_of :: "commit_data \<Rightarrow> u64" where "func6_of c = drop_bit 26 (inst c) AND 0x3f"

definition is_vext :: "commit_data \<Rightarrow> bool" where
  "is_vext c \<longleftrightarrow> opcode_of c = 0x57 \<and> func3_of c = 0x2 \<and> func6_of c = 0x0c"

definition is_vse :: "commit_data \<Rightarrow> bool" where
  "is_vse c \<longleftrightarrow> opcode_of c = 0x27 \<and> func3_of c = 0x7"

definition vector_part :: "commit_data \<Rightarrow> insertion list" where
  "vector_part c =
     (if vreg_wr_valid c \<noteq> 0 \<or> is_vext c \<or> is_vse c
      then sew_text (sew c) @ lmul_text (lmul c) @ [Str '' l'', ULong (vl c)] @
        (if vreg_wr_valid c \<noteq> 0
         then [Str '' ''] @ DEC_VDST (vdst c) @ [Str '' 0x''] @
              concat (map (\<lambda>i. HEX_VDATA (data c ! i)) (rev [0..<4]))
         else [])
      else [])"

definition csr_text :: "(u64 \<Rightarrow> string) \<Rightarrow> u64 \<times> u64 \<Rightarrow> insertion list" where
  "csr_text csr_name = (\<lambda>(csr, value).
     if csr = 0x001 then []
     else if csr = 0x300
     then [Str '' ''] @ DEC_CSR csr @ [Str ''_'', Str (csr_name csr), Str '' ''] @ HEX_DATA (value AND NOT 0x600)
     else if csr = 0x003
     then [Str '' c1_fflags ''] @ HEX_DATA (value AND 0x1f) @
          [Str '' c2_frm ''] @ HEX_DATA (drop_bit 5 value AND 0x7)
     else [Str '' ''] @ DEC_CSR csr @ [Str ''_'', Str (csr_name csr), Str '' ''] @ HEX_DATA value)"

definition scalar_data :: "commit_data \<Rightarrow> u64" where
  "scalar_data c = push_bit 32 (ucast (data c ! 1)) OR ucast (data c ! 0)"

definition store_text :: "commit_data \<Rightarrow> insertion list" where
  "store_text c =
     (let f = func3_of c in
      if f = 0 \<or> f = 4 then HEX_BYTE (scalar_data c)
      else if f = 1 \<or> f = 5 then HEX_HALF (ucast (scalar_data c))
      else if f = 2 then HEX_WORD (ucast (scalar_data c))
      else HEX_DATA (scalar_data c))"

definition memory_part :: "commit_data \<Rightarrow> u64 list \<Rightarrow> insertion list \<times> u64 list" where
  "memory_part c amos =
     (let a = sign_extend40 (mem_addr c) in
      if mem_type c = 1 then ([Str '' mem ''] @ HEX_DATA a, amos)
      else if mem_type c = 2 then ([Str '' mem ''] @ HEX_DATA a @ [Str '' ''] @ store_text c, amos)
      else if mem_type c = 3
      then (case amos of [] \<Rightarrow> ([], [])
            | amo # rest \<Rightarrow> ([Str '' mem ''] @ HEX_DATA a @ [Str '' mem ''] @ HEX_DATA a @ [Str '' ''] @
                (if func3_of c = 2 then HEX_WORD (ucast amo) else HEX_DATA amo), rest))
      else ([], amos))"

definition register_part :: "commit_data \<Rightarrow> u64 list \<Rightarrow> insertion list" where
  "register_part c sig =
     (if reg_wr_valid c \<noteq> 0 then [Str '' ''] @ DEC_DST (dst c) @ [Str '' ''] @ HEX_DATA (sig ! unat (dst c)) else []) @
     (if freg_wr_valid c \<noteq> 0 then [Str '' ''] @ DEC_FDST (dst c) @ [Str '' ''] @ HEX_DATA (sig ! unat (dst c)) else [])"

definition commit_part ::
  "(u64 \<Rightarrow> string) \<Rightarrow> commit_data \<Rightarrow> commit_log \<Rightarrow> insertion list \<times> commit_log" where
  "commit_part csr_name c s =
     (let (fl, changes, lastf) = fflags_part (fflags_wr_valid c \<noteq> 0) s;
          (m, amos) = memory_part c (amo_writes s)
      in ([Str ''core    '', ULong (core c), Str '':  ''] @ DEC_PRIV (csr_priv_lvl c) @ [Str '' ''] @
          HEX_PC (pc c) @ [Str '' (''] @ HEX_INST (inst c) @ [Str '')''] @ fl @
          register_part c (signature s) @ vector_part c @ concat (map (csr_text csr_name) changes) @ m @ [newline],
          s\<lparr>csr_changes := filter (\<lambda>(csr, _). csr = 0x001) changes, last_fflags := lastf, amo_writes := amos\<rparr>))"

definition commit_head :: "(u64 \<Rightarrow> string) \<Rightarrow> dpi_memory \<Rightarrow> commit_data \<Rightarrow> insertion list" where
  "commit_head disasm g c =
     (let symbol = memory_symbol_from_addr g (pc c) in
      (if symbol \<noteq> [] then [Str ''core    '', ULong (core c), Str '':  >>>>  '', Str symbol, newline] else []) @
      (if xcpt_cause c \<noteq> 0xC \<or> xcpt c = 0
       then [Str ''core   '', ULong (core c), Str '': ''] @ HEX_PC (pc c) @ [Str '' (''] @ HEX_INST (inst c) @
            [Str '') '', Str (disasm (inst c)), newline]
       else []))"

definition commit_body :: "(u64 \<Rightarrow> string) \<Rightarrow> commit_data \<Rightarrow> commit_log \<Rightarrow> insertion list \<times> commit_log" where
  "commit_body csr_name c s =
     (if xcpt c \<noteq> 0
      then (dump_xcpt (xcpt_cause c) (pc c) (if inst c = 0x9f019073 then 0 else csr_tval c), s)
      else if csr_xcpt c \<noteq> 0
      then (dump_xcpt (csr_xcpt_cause c) (pc c) (if csr_tval c \<noteq> 0 then csr_tval c else inst c),
            s\<lparr>csr_changes := []\<rparr>)
      else commit_part csr_name c s)"

definition dump_file ::
  "(u64 \<Rightarrow> string) \<Rightarrow> (u64 \<Rightarrow> string) \<Rightarrow> dpi_memory \<Rightarrow> commit_data \<Rightarrow> commit_log \<Rightarrow> commit_log res" where
  "dump_file disasm csr_name g c s =
     (let writes_reg = (reg_wr_valid c \<noteq> 0 \<or> freg_wr_valid c \<noteq> 0) in
      res_bind (require (writes_reg \<longrightarrow> unat (dst c) < 32) OutOfBounds) (\<lambda>_.
      let s = (if writes_reg then s\<lparr>signature := (signature s)[unat (dst c) := scalar_data c]\<rparr> else s);
          (body, s) = commit_body csr_name c s
      in Inr (s\<lparr>signatureFile := puts (commit_head disasm g c @ body) (signatureFile s)\<rparr>)))"

definition commit_log_call ::
  "(u64 \<Rightarrow> string) \<Rightarrow> (u64 \<Rightarrow> string) \<Rightarrow> dpi_memory \<Rightarrow> commit_data \<Rightarrow> commit_log \<Rightarrow> commit_log res" where
  "commit_log_call disasm csr_name g c s = dump_file disasm csr_name g c s"

section \<open>State changes of a commit\<close>

lemma take_fflags_result:
  "snd (take_fflags wr cs (lastf, found)) =
     (filter (\<lambda>(csr, _). \<not> (csr = 0x001 \<and> wr)) cs,
      (let fl = filter (\<lambda>(csr, _). csr = 0x001 \<and> wr) cs
       in (if fl = [] then lastf else snd (last fl), found \<or> fl \<noteq> [])))"
  by (induction wr cs "(lastf, found)" arbitrary: lastf found rule: take_fflags.induct)
    (auto simp: case_prod_beta Let_def)

lemma fflags_part_result:
  "snd (fflags_part wr s) =
     (filter (\<lambda>(csr, _). \<not> (csr = 0x001 \<and> wr)) (csr_changes s),
      (let fl = filter (\<lambda>(csr, _). csr = 0x001 \<and> wr) (csr_changes s)
       in if fl = [] then last_fflags s else snd (last fl)))"
  using take_fflags_result [of wr "csr_changes s" "last_fflags s" False]
  by (simp add: fflags_part_def case_prod_beta Let_def)

definition writes_register :: "commit_data \<Rightarrow> bool" where
  "writes_register c \<longleftrightarrow> reg_wr_valid c \<noteq> 0 \<or> freg_wr_valid c \<noteq> 0"

definition fflags_of :: "(u64 \<times> u64) list \<Rightarrow> u64 list" where
  "fflags_of cs = map snd (filter (\<lambda>(csr, _). csr = 0x001) cs)"

lemma commit_part_state:
  "snd (commit_part csr_name c s) =
     s\<lparr>csr_changes := (if fflags_wr_valid c \<noteq> 0 then [] else filter (\<lambda>(csr, _). csr = 0x001) (csr_changes s)),
       last_fflags := (if fflags_wr_valid c \<noteq> 0 \<and> fflags_of (csr_changes s) \<noteq> []
                       then last (fflags_of (csr_changes s)) else last_fflags s),
       amo_writes := (if mem_type c = 3 then tl (amo_writes s) else amo_writes s)\<rparr>"
proof -
  have "filter (\<lambda>(csr, _). csr = 0x001) (filter (\<lambda>(csr, _). csr \<noteq> 0x001) cs) = []" for cs :: "(u64 \<times> u64) list"
    by (induction cs) auto
  moreover have "snd (memory_part c amos) = (if mem_type c = 3 then tl amos else amos)" for amos
    by (cases amos) (auto simp: memory_part_def Let_def)
  ultimately show ?thesis
    by (auto simp: commit_part_def case_prod_beta Let_def fflags_part_result fflags_of_def last_map
        cong: filter_cong)
qed

text \<open>C33: the state after a call. The call fails exactly when it writes a register above 31; otherwise
  the register copy holds the new value. After an instruction without exception the pending changes
  are at most the flag changes of a later instruction, none if this one wrote the flags, and the
  remembered flags are the last ones it consumed; an exception keeps the pending changes, a CSR
  exception drops them.\<close>

theorem dump_file_state:
  "if writes_register c \<and> 32 \<le> unat (dst c) then dump_file disasm csr_name g c s = Inl OutOfBounds
   else \<exists>s'. dump_file disasm csr_name g c s = Inr s' \<and>
     signature s' = (if writes_register c then (signature s)[unat (dst c) := scalar_data c] else signature s) \<and>
     csr_changes s' =
       (if xcpt c \<noteq> 0 then csr_changes s
        else if csr_xcpt c \<noteq> 0 \<or> fflags_wr_valid c \<noteq> 0 then []
        else filter (\<lambda>(csr, _). csr = 0x001) (csr_changes s)) \<and>
     last_fflags s' =
       (if xcpt c = 0 \<and> csr_xcpt c = 0 \<and> fflags_wr_valid c \<noteq> 0 \<and> fflags_of (csr_changes s) \<noteq> []
        then last (fflags_of (csr_changes s)) else last_fflags s) \<and>
     amo_writes s' =
       (if xcpt c = 0 \<and> csr_xcpt c = 0 \<and> mem_type c = 3 then tl (amo_writes s) else amo_writes s)"
proof -
  have "signature (snd (commit_body csr_name c s)) = signature s"
    "csr_changes (snd (commit_body csr_name c s)) =
       (if xcpt c \<noteq> 0 then csr_changes s
        else if csr_xcpt c \<noteq> 0 \<or> fflags_wr_valid c \<noteq> 0 then []
        else filter (\<lambda>(csr, _). csr = 0x001) (csr_changes s))"
    "last_fflags (snd (commit_body csr_name c s)) =
       (if xcpt c = 0 \<and> csr_xcpt c = 0 \<and> fflags_wr_valid c \<noteq> 0 \<and> fflags_of (csr_changes s) \<noteq> []
        then last (fflags_of (csr_changes s)) else last_fflags s)"
    "amo_writes (snd (commit_body csr_name c s)) =
       (if xcpt c = 0 \<and> csr_xcpt c = 0 \<and> mem_type c = 3 then tl (amo_writes s) else amo_writes s)" for s
    by (simp_all add: commit_body_def commit_part_state)
  then show ?thesis
    by (simp add: dump_file_def writes_register_def require_def Let_def case_prod_beta)
qed

text \<open>The log only grows: a call appends to the text and changes nothing already written.\<close>

lemma dump_file_appends:
  assumes "dump_file disasm csr_name g c s = Inr s'"
  shows "\<exists>t. out (signatureFile s') = out (signatureFile s) @ t"
proof -
  have "signatureFile (snd (commit_body csr_name c s)) = signatureFile s" for s
    by (simp add: commit_body_def commit_part_state)
  then have "\<exists>is. signatureFile s' = puts is (signatureFile s)"
    using assms
    by (auto simp: dump_file_def require_def Let_def case_prod_beta simp del: puts_simps split: if_splits)
  then show ?thesis using puts_extends by metis
qed

section \<open>The text of a register write\<close>

lemma puts_Str: "fwidth os = 0 \<Longrightarrow> put (Str t) os = os\<lparr>out := out os @ t\<rparr>"
  by (simp add: emit_def pad_def)

lemma puts_hex_right:
  "fwidth os = 0 \<Longrightarrow> puts (Str ''0x'' # hex_right n @ [SLong x]) os =
     os\<lparr>out := out os @ ''0x'' @ hex_field n x, hexbase := True, fillc := CHR ''0'', leftadj := False\<rparr>"
  by (simp add: hex_right_def emit_def pad_def Let_def hex_field_def)

lemmas puts_hex =
  puts_hex_right [of _ 16, folded HEX_PC_def] puts_hex_right [of _ 16, folded HEX_DATA_def]
  puts_hex_right [of _ 8, folded HEX_INST_def]

definition left2 :: "string \<Rightarrow> string" where
  "left2 t = t @ replicate (2 - length t) (CHR '' '')"

lemma puts_dec_left:
  "fwidth os = 0 \<Longrightarrow> puts (dec_left r x) os =
     os\<lparr>out := out os @ r @ left2 (int_digits (sint x)), hexbase := False, fillc := CHR '' '', leftadj := True\<rparr>"
  by (simp add: dec_left_def emit_def pad_def Let_def left2_def)

lemma digits_in_nonempty: "digits_in b n \<noteq> []"
  by (subst digits_in.simps) simp

lemma puts_priv:
  "fwidth os = 0 \<Longrightarrow> puts (DEC_PRIV x) os = os\<lparr>out := out os @ int_digits (sint x), hexbase := False\<rparr>"
proof -
  have "length (int_digits (sint x)) \<noteq> 0" by (simp add: int_digits_def digits_in_nonempty)
  then have "1 - length (int_digits (sint x)) = 0" by linarith
  then show "fwidth os = 0 \<Longrightarrow> puts (DEC_PRIV x) os = os\<lparr>out := out os @ int_digits (sint x), hexbase := False\<rparr>"
    by (simp add: DEC_PRIV_def emit_def pad_def Let_def)
qed

lemma digits_small: "n < 10 \<Longrightarrow> digits_in (if b then 16 else 10) n = [digit n]"
  by (subst digits_in.simps) simp

definition plain_commit :: "commit_data \<Rightarrow> bool" where
  "plain_commit c \<longleftrightarrow> xcpt c = 0 \<and> csr_xcpt c = 0 \<and> fflags_wr_valid c = 0 \<and> freg_wr_valid c = 0 \<and>
     vreg_wr_valid c = 0 \<and> \<not> is_vext c \<and> \<not> is_vse c \<and> mem_type c = 0 \<and> reg_wr_valid c \<noteq> 0 \<and>
     unat (dst c) < 32 \<and> unat (core c) < 10"

text \<open>The exact text of an integer register write: the disassembly line and the commit line
  with the privilege level, the address and the instruction in hexadecimal, the register and the
  sixteen digits of the value written, whatever formatting state earlier lines left in the stream.\<close>

lemma commit_register_text:
  assumes "plain_commit c" "csr_changes s = []" "memory_symbol_from_addr g (pc c) = []"
    and "fwidth (signatureFile s) = 0" "length (signature s) = 32"
  shows "\<exists>s'. dump_file disasm csr_name g c s = Inr s' \<and> fwidth (signatureFile s') = 0 \<and>
     out (signatureFile s') = out (signatureFile s) @
       ''core   '' @ [digit (unat (core c))] @ '': 0x'' @ hex_field 16 (pc c) @ '' (0x'' @ hex_field 8 (inst c) @
       '') '' @ disasm (inst c) @ [CHR 0x0A] @
       ''core    '' @ [digit (unat (core c))] @ '':  '' @ int_digits (sint (csr_priv_lvl c)) @
       '' 0x'' @ hex_field 16 (pc c) @ '' (0x'' @ hex_field 8 (inst c) @ '') x'' @
       left2 (int_digits (sint (dst c))) @ '' 0x'' @ hex_field 16 (scalar_data c) @ [CHR 0x0A]"
proof -
  let ?s = "s\<lparr>signature := (signature s)[unat (dst c) := scalar_data c]\<rparr>"
  have head: "commit_head disasm g c = [Str ''core   '', ULong (core c), Str '': ''] @ HEX_PC (pc c) @
      [Str '' (''] @ HEX_INST (inst c) @ [Str '') '', Str (disasm (inst c)), newline]"
    using assms(1,3) by (simp add: commit_head_def plain_commit_def)
  have body: "fst (commit_body csr_name c ?s) =
      [Str ''core    '', ULong (core c), Str '':  ''] @ DEC_PRIV (csr_priv_lvl c) @ [Str '' ''] @
      HEX_PC (pc c) @ [Str '' (''] @ HEX_INST (inst c) @ [Str '')'', Str '' ''] @ DEC_DST (dst c) @ [Str '' ''] @
      HEX_DATA (scalar_data c) @ [newline]"
    using assms(1,2,5)
    by (simp add: commit_body_def commit_part_def plain_commit_def fflags_part_def memory_part_def
        register_part_def vector_part_def case_prod_beta Let_def)
  have ok: "dump_file disasm csr_name g c s = Inr ((snd (commit_body csr_name c ?s))
      \<lparr>signatureFile := puts (commit_head disasm g c @ fst (commit_body csr_name c ?s)) (signatureFile s)\<rparr>)"
    using assms(1)
    by (auto simp: dump_file_def plain_commit_def require_def Let_def case_prod_beta commit_body_def commit_part_state)
  have core: "put (ULong (core c)) os = os\<lparr>out := out os @ [digit (unat (core c))]\<rparr>" if "fwidth os = 0" for os
    using assms(1) that digits_small [of "unat (core c)" "hexbase os"]
    by (simp add: plain_commit_def emit_def pad_def)
  show ?thesis
    unfolding ok head body DEC_DST_def newline_def using assms(4)
    by (simp add: puts_Str core puts_hex puts_priv puts_dec_left del: put.simps)
qed

definition sample_commit :: commit_data where
  "sample_commit =
     \<lparr>fflags_wr_valid = 0, mem_addr = 0, mem_type = 0, csr_tval = 0, csr_xcpt_cause = 0, csr_xcpt = 0,
      csr_rw_data = 0, csr_priv_lvl = 3, xcpt_cause = 0, xcpt = 0, vl = 0, lmul = 0, sew = 0, csr_data = 0,
      csr_dst = 0, csr_wr_valid = 0, data = [0x2a, 0, 0, 0], vreg_wr_valid = 0, freg_wr_valid = 0,
      reg_wr_valid = 1, vdst = 0, fdst = 0, dst = 5, inst = 0x2a00293, pc = 0x80000000, core = 0\<rparr>"

definition no_symbols :: dpi_memory where
  "no_symbols = \<lparr>memoryContents = Memory32, symbols = [], reverseSymbols = []\<rparr>"

lemma replicate_numeral: "replicate (numeral k) x = x # replicate (pred_numeral k) x"
  by (simp add: numeral_eq_Suc)

lemma sample_plain: "plain_commit sample_commit"
  by (simp add: plain_commit_def sample_commit_def is_vext_def is_vse_def opcode_of_def)

theorem dump_file_state_witness:
  "\<exists>s'. dump_file (\<lambda>_. []) (\<lambda>_. []) no_symbols (sample_commit\<lparr>fflags_wr_valid := 1\<rparr>)
       ((CommitLog 0)\<lparr>csr_changes := [(1, 5), (0x300, 7), (1, 6)]\<rparr>) = Inr s' \<and>
     signature s' ! 5 = 0x2a \<and> csr_changes s' = [] \<and> last_fflags s' = 6"
  using dump_file_state [of "sample_commit\<lparr>fflags_wr_valid := 1\<rparr>" "\<lambda>_. []" "\<lambda>_. []" no_symbols
      "(CommitLog 0)\<lparr>csr_changes := [(1, 5), (0x300, 7), (1, 6)]\<rparr>"]
  by (auto simp: sample_commit_def CommitLog_def writes_register_def scalar_data_def fflags_of_def)

end
