(* ===== verification/Remote_Bitbang.thy ===== *)
theory Remote_Bitbang
  imports Prelude
begin

text \<open>
  The JTAG bridge, \<^verbatim>\<open>simulator/bsc-dm/SimJTAG\<close>: one command character is taken from a TCP client
  at every simulation tick and drives the pins of the debug transport module, or returns the
  sampled \<^verbatim>\<open>TDO\<close>. The socket calls are the parameters: the results the calls give, in order, are
  lists that the model consumes, and a loop that polls for ever on an exhausted list \<open>Diverges\<close>.
\<close>

datatype accept_result = Accepted int | Accept_again | Accept_error
datatype read_result = Got char | Eof | Read_again | Read_error
datatype write_result = Sent | Sent_nothing | Write_error

record socket_calls =
  accepts :: "accept_result list"
  reads :: "read_result list"
  writes :: "write_result list"
  replies :: string

record remote_bitbang =
  err :: int
  tck :: u8
  tms :: u8
  tdi :: u8
  trstn :: u8
  tdo :: u8
  quit :: u8
  socket_fd :: int
  client_fd :: int
  net :: socket_calls

text \<open>The constructor, for a socket that could be opened (\<open>None\<close> if a set-up call failed).\<close>

definition remote_bitbang_new :: "int option \<Rightarrow> u8 \<Rightarrow> socket_calls \<Rightarrow> remote_bitbang res" where
  "remote_bitbang_new sock tdo0 calls =
     (case sock of None \<Rightarrow> Inl Aborted
      | Some fd \<Rightarrow> Inr \<lparr>err = 0, tck = 1, tms = 1, tdi = 1, trstn = 1, tdo = tdo0, quit = 0,
                        socket_fd = fd, client_fd = 0, net = calls\<rparr>)"

primrec accept_loop :: "accept_result list \<Rightarrow> (int \<times> accept_result list) res" where
  "accept_loop [] = Inl Diverges"
| "accept_loop (r # rs) =
     (case r of Accepted fd \<Rightarrow> Inr (fd, rs) | Accept_again \<Rightarrow> accept_loop rs | Accept_error \<Rightarrow> Inl Aborted)"

definition bb_accept :: "remote_bitbang \<Rightarrow> remote_bitbang res" where
  "bb_accept s =
     res_bind (accept_loop (accepts (net s)))
       (\<lambda>(fd, rs). Inr (s\<lparr>client_fd := fd, net := (net s)\<lparr>accepts := rs\<rparr>\<rparr>))"

primrec read_loop :: "read_result list \<Rightarrow> (char \<times> read_result list) res" where
  "read_loop [] = Inl Diverges"
| "read_loop (r # rs) =
     (case r of Got c \<Rightarrow> Inr (c, rs) | Eof \<Rightarrow> read_loop rs | Read_again \<Rightarrow> read_loop rs
      | Read_error \<Rightarrow> Inl Aborted)"

primrec write_loop :: "write_result list \<Rightarrow> write_result list res" where
  "write_loop [] = Inl Diverges"
| "write_loop (r # rs) =
     (case r of Sent \<Rightarrow> Inr rs | Sent_nothing \<Rightarrow> write_loop rs | Write_error \<Rightarrow> Inl Aborted)"

definition bb_reset :: "remote_bitbang \<Rightarrow> remote_bitbang" where
  "bb_reset s = s"

definition set_pins :: "u8 \<Rightarrow> u8 \<Rightarrow> u8 \<Rightarrow> remote_bitbang \<Rightarrow> remote_bitbang" where
  "set_pins c m i s = s\<lparr>tck := c, tms := m, tdi := i\<rparr>"

definition dispatch :: "char \<Rightarrow> remote_bitbang \<Rightarrow> char option \<times> remote_bitbang" where
  "dispatch command s =
     (if command = CHR ''B'' then (None, s)
      else if command = CHR ''b'' then (None, s)
      else if command = CHR ''r'' then (None, bb_reset s)
      else if command = CHR ''0'' then (None, set_pins 0 0 0 s)
      else if command = CHR ''1'' then (None, set_pins 0 0 1 s)
      else if command = CHR ''2'' then (None, set_pins 0 1 0 s)
      else if command = CHR ''3'' then (None, set_pins 0 1 1 s)
      else if command = CHR ''4'' then (None, set_pins 1 0 0 s)
      else if command = CHR ''5'' then (None, set_pins 1 0 1 s)
      else if command = CHR ''6'' then (None, set_pins 1 1 0 s)
      else if command = CHR ''7'' then (None, set_pins 1 1 1 s)
      else if command = CHR ''R'' then (Some (if tdo s \<noteq> 0 then CHR ''1'' else CHR ''0''), s)
      else if command = CHR ''Q'' then (None, s\<lparr>quit := 1\<rparr>)
      else (None, s))"

definition send_reply :: "char option \<Rightarrow> remote_bitbang \<Rightarrow> remote_bitbang res" where
  "send_reply reply s =
     (case reply of None \<Rightarrow> Inr s
      | Some c \<Rightarrow> res_bind (write_loop (writes (net s)))
          (\<lambda>ws. Inr (s\<lparr>net := (net s)\<lparr>writes := ws, replies := replies (net s) @ [c]\<rparr>\<rparr>)))"

definition execute_command :: "remote_bitbang \<Rightarrow> remote_bitbang res" where
  "execute_command s =
     res_bind (read_loop (reads (net s))) (\<lambda>(command, rs).
     let (reply, s) = dispatch command (s\<lparr>net := (net s)\<lparr>reads := rs\<rparr>\<rparr>) in
     res_bind (send_reply reply s) (\<lambda>s.
     Inr (if quit s \<noteq> 0 then s\<lparr>client_fd := 0\<rparr> else s)))"

text \<open>\<open>tick\<close> returns the values it leaves on the pins \<^verbatim>\<open>TCK\<close>, \<^verbatim>\<open>TMS\<close>, \<^verbatim>\<open>TDI\<close> and \<^verbatim>\<open>TRSTn\<close>.\<close>

type_synonym pins = "u8 \<times> u8 \<times> u8 \<times> u8"

definition tick :: "u8 \<Rightarrow> remote_bitbang \<Rightarrow> (pins \<times> remote_bitbang) res" where
  "tick jtag_tdo s =
     res_bind (if 0 < client_fd s then execute_command (s\<lparr>tdo := jtag_tdo\<rparr>) else bb_accept s)
       (\<lambda>s. Inr ((tck s, tms s, tdi s, trstn s), s))"

definition jtag_tick ::
  "int option \<Rightarrow> u8 \<Rightarrow> socket_calls \<Rightarrow> u8 \<Rightarrow> remote_bitbang option \<Rightarrow>
     (int \<times> pins \<times> remote_bitbang option) res" where
  "jtag_tick sock tdo0 calls jtag_TDO jtag =
     res_bind (case jtag of None \<Rightarrow> remote_bitbang_new sock tdo0 calls | Some s \<Rightarrow> Inr s) (\<lambda>s.
     res_bind (tick jtag_TDO s) (\<lambda>(pins, s).
     Inr (if quit s \<noteq> 0 then err s * 2 + 1 else 0, pins, Some s)))"

section \<open>The pins\<close>

text \<open>A digit command is the octal number whose bits are \<^verbatim>\<open>TCK\<close>, \<^verbatim>\<open>TMS\<close> and \<^verbatim>\<open>TDI\<close>.\<close>

definition digit_char :: "nat \<Rightarrow> char" where
  "digit_char n = char_of (48 + n)"

definition digit_pins :: "nat \<Rightarrow> pins" where
  "digit_pins n = (of_bool (bit n 2), of_bool (bit n 1), of_bool (bit n 0), 1)"

lemma dispatch_digit:
  assumes "n < 8"
  shows "dispatch (digit_char n) s =
     (None, set_pins (of_bool (bit n 2)) (of_bool (bit n 1)) (of_bool (bit n 0)) s)"
proof -
  have "n \<in> {0, 1, 2, 3, 4, 5, 6, 7}" using assms by auto
  then show ?thesis
    by (elim insertE emptyE; simp add: dispatch_def digit_char_def char_of_def bit_iff_odd)
qed

text \<open>The waveform of a session: one tick per element of \<open>tdos\<close>.\<close>

primrec ticks :: "u8 list \<Rightarrow> remote_bitbang \<Rightarrow> (pins list \<times> remote_bitbang) res" where
  "ticks [] s = Inr ([], s)"
| "ticks (d # ds) s =
     res_bind (tick d s) (\<lambda>(p, s). res_bind (ticks ds s) (\<lambda>(ps, s). Inr (p # ps, s)))"

definition connected :: "remote_bitbang \<Rightarrow> bool" where
  "connected s \<longleftrightarrow> 0 < client_fd s \<and> quit s = 0 \<and> trstn s = 1"

lemma tick_digit:
  assumes "connected s" "reads (net s) = Got (digit_char n) # rs" "n < 8"
  shows "\<exists>s'. tick d s = Inr (digit_pins n, s') \<and> connected s' \<and> reads (net s') = rs \<and>
     replies (net s') = replies (net s)"
  using assms
  by (simp add: tick_def execute_command_def dispatch_digit send_reply_def set_pins_def connected_def
      digit_pins_def)

text \<open>C7: the digits a connected client sends appear on the pins as their bits, one tick each and
  in order, with the reset never asserted.\<close>

theorem ticks_waveform:
  assumes "connected s" "reads (net s) = map (\<lambda>n. Got (digit_char n)) ns @ rs" "\<forall>n \<in> set ns. n < 8"
    "length ds = length ns"
  shows "\<exists>s'. ticks ds s = Inr (map digit_pins ns, s') \<and> connected s' \<and> reads (net s') = rs"
  using assms
proof (induction ns arbitrary: s ds)
  case Nil
  then show ?case by simp
next
  case (Cons n ns)
  obtain d ds' where ds: "ds = d # ds'" using Cons.prems(4) by (cases ds) auto
  obtain s1 where s1: "tick d s = Inr (digit_pins n, s1)" "connected s1"
    "reads (net s1) = map (\<lambda>n. Got (digit_char n)) ns @ rs"
    using tick_digit [of s n "map (\<lambda>n. Got (digit_char n)) ns @ rs" d] Cons.prems by auto
  then show ?case
    using Cons.IH [OF s1(2,3), of ds'] Cons.prems(3,4) ds by auto
qed

definition sample_bridge :: remote_bitbang where
  "sample_bridge = \<lparr>err = 0, tck = 1, tms = 1, tdi = 1, trstn = 1, tdo = 0, quit = 0, socket_fd = 3,
     client_fd = 4, net = \<lparr>accepts = [], reads = map Got ''62RQ'', writes = [Sent], replies = []\<rparr>\<rparr>"

theorem ticks_waveform_witness:
  "\<exists>s'. ticks [0, 0] sample_bridge = Inr ([(1, 1, 0, 1), (0, 1, 0, 1)], s') \<and> connected s' \<and>
     reads (net s') = map Got ''RQ''"
  using ticks_waveform [of sample_bridge "[6, 2]" "map Got ''RQ''" "[0, 0]"]
  by (simp add: sample_bridge_def connected_def digit_char_def digit_pins_def char_of_def bit_iff_odd)

text \<open>\<^verbatim>\<open>R\<close> answers with the value of \<^verbatim>\<open>TDO\<close> in the tick that executes it, exactly once, even
  when the socket accepts nothing at first, and leaves the pins as they were.\<close>

lemma tick_read:
  assumes "connected s" "reads (net s) = replicate k Read_again @ Got (CHR ''R'') # rs"
    "writes (net s) = replicate j Sent_nothing @ Sent # ws"
  shows "\<exists>s'. tick d s = Inr ((tck s, tms s, tdi s, trstn s), s') \<and> connected s' \<and> reads (net s') = rs \<and>
     replies (net s') = replies (net s) @ [if d \<noteq> 0 then CHR ''1'' else CHR ''0'']"
proof -
  have "read_loop (replicate k Read_again @ Got c # rs) = Inr (c, rs)" for c
    by (induction k) simp_all
  moreover have "write_loop (replicate j Sent_nothing @ Sent # ws) = Inr ws"
    by (induction j) simp_all
  ultimately show ?thesis
    using assms by (simp add: tick_def execute_command_def dispatch_def send_reply_def connected_def)
qed

text \<open>With a client connected but silent, a tick does not return: it polls until a character
  arrives.\<close>

lemma tick_polls:
  assumes "0 < client_fd s" "\<forall>r \<in> set (reads (net s)). r = Read_again \<or> r = Eof"
  shows "tick d s = Inl Diverges"
proof -
  have "read_loop rs = Inl Diverges" if "\<forall>r \<in> set rs. r = Read_again \<or> r = Eof" for rs
    using that by (induction rs) auto
  then show ?thesis
    using assms by (simp add: tick_def execute_command_def)
qed

text \<open>Invariants of every tick.\<close>

definition bridge_inv :: "remote_bitbang \<Rightarrow> bool" where
  "bridge_inv s \<longleftrightarrow> err s = 0 \<and> trstn s = 1 \<and> tck s \<le> 1 \<and> tms s \<le> 1 \<and> tdi s \<le> 1 \<and> quit s \<le> 1"

lemma dispatch_inv: "bridge_inv s \<Longrightarrow> dispatch c s = (r, s') \<Longrightarrow> bridge_inv s'"
  by (auto simp: dispatch_def bridge_inv_def set_pins_def bb_reset_def split: if_splits)

lemma send_reply_inv: "bridge_inv s \<Longrightarrow> send_reply r s = Inr s' \<Longrightarrow> bridge_inv s'"
  by (auto simp: send_reply_def bridge_inv_def res_bind_Inr_iff split: option.splits)

lemma execute_command_inv:
  assumes "bridge_inv s" "execute_command s = Inr s'"
  shows "bridge_inv s'"
proof -
  obtain c rs r s1 s2 where d: "dispatch c (s\<lparr>net := (net s)\<lparr>reads := rs\<rparr>\<rparr>) = (r, s1)"
    and w: "send_reply r s1 = Inr s2" and s': "s' = (if quit s2 \<noteq> 0 then s2\<lparr>client_fd := 0\<rparr> else s2)"
    using assms(2) by (auto simp: execute_command_def res_bind_Inr_iff case_prod_beta Let_def) (metis prod.collapse)
  have "bridge_inv (s\<lparr>net := (net s)\<lparr>reads := rs\<rparr>\<rparr>)" using assms(1) by (simp add: bridge_inv_def)
  then have "bridge_inv s2" using d w dispatch_inv send_reply_inv by blast
  then show ?thesis using s' by (simp add: bridge_inv_def)
qed

lemma tick_inv: "bridge_inv s \<Longrightarrow> tick d s = Inr (p, s') \<Longrightarrow> bridge_inv s'"
  using execute_command_inv [of "s\<lparr>tdo := d\<rparr>"]
  by (auto simp: tick_def bb_accept_def res_bind_Inr_iff bridge_inv_def split: if_splits prod.splits)

text \<open>The bridge as a transition system: one step per call of \<^verbatim>\<open>jtag_tick\<close>.\<close>

inductive jtag_reachable :: "int \<Rightarrow> socket_calls \<Rightarrow> remote_bitbang option \<Rightarrow> bool" where
  start: "jtag_reachable sock calls None"
| step: "jtag_reachable sock calls s \<Longrightarrow> jtag_tick (Some sock) tdo0 calls d s = Inr (code, p, s') \<Longrightarrow>
     jtag_reachable sock calls s'"

lemma jtag_tick_inv:
  assumes "case s of None \<Rightarrow> True | Some b \<Rightarrow> bridge_inv b" "jtag_tick (Some sock) tdo0 calls d s = Inr (code, p, s')"
  shows "\<exists>b'. s' = Some b' \<and> bridge_inv b' \<and> code = (if quit b' \<noteq> 0 then 1 else 0) \<and> snd (snd (snd p)) = 1"
proof -
  obtain b b' where n: "(case s of None \<Rightarrow> remote_bitbang_new (Some sock) tdo0 calls | Some s \<Rightarrow> Inr s) = Inr b"
    and b: "tick d b = Inr (p, b')" "s' = Some b'" "code = (if quit b' \<noteq> 0 then err b' * 2 + 1 else 0)"
    using assms(2) by (auto simp: jtag_tick_def res_bind_Inr_iff)
  have "bridge_inv b"
    using n assms(1) by (auto simp: remote_bitbang_new_def bridge_inv_def split: option.splits)
  then have "bridge_inv b'" using b tick_inv by blast
  moreover have "snd (snd (snd p)) = trstn b'" using b(1) by (auto simp: tick_def res_bind_Inr_iff)
  ultimately show ?thesis using b(2,3) by (simp add: bridge_inv_def)
qed

section \<open>The history of a session\<close>

text \<open>The characters among the results of the socket reads, and the pins they leave: those of the
  last digit, all ones before the first.\<close>

definition commands :: "read_result list \<Rightarrow> string" where
  "commands rs = concat (map (\<lambda>r. case r of Got c \<Rightarrow> [c] | _ \<Rightarrow> []) rs)"

definition pins_command :: "pins \<Rightarrow> char \<Rightarrow> pins" where
  "pins_command p c =
     (if c \<in> set (map digit_char [0..<8]) then digit_pins (of_char c - 48) else p)"

definition command_pins :: "string \<Rightarrow> pins" where
  "command_pins cs = foldl pins_command (1, 1, 1, 1) cs"

definition answer :: "u8 \<Rightarrow> string \<Rightarrow> string" where
  "answer d cs = (if cs = ''R'' then [if d \<noteq> 0 then CHR ''1'' else CHR ''0''] else [])"

lemma commands_append [simp]: "commands (xs @ ys) = commands xs @ commands ys"
  by (simp add: commands_def)

lemma commands_simps [simp]: "commands [] = []" "commands (Got c # rs) = c # commands rs"
  "commands (Eof # rs) = commands rs" "commands (Read_again # rs) = commands rs"
  "commands (Read_error # rs) = commands rs"
  by (simp_all add: commands_def)

lemma command_pins_append [simp]: "command_pins (cs @ [c]) = pins_command (command_pins cs) c"
  by (simp add: command_pins_def)

lemma read_loop_command:
  "read_loop rs = Inr (c, rs') \<Longrightarrow> \<exists>now. rs = now @ rs' \<and> commands now = [c]"
proof (induction rs)
  case (Cons r rs)
  show ?case
  proof (cases r)
    case (Got c')
    then show ?thesis using Cons.prems by (intro exI [of _ "[r]"]) auto
  next
    case Read_error
    then show ?thesis using Cons.prems by simp
  qed (use Cons in \<open>auto; metis append_Cons commands_simps(3,4)\<close>)+
qed simp

abbreviation bridge_pins :: "remote_bitbang \<Rightarrow> pins" where
  "bridge_pins s \<equiv> (tck s, tms s, tdi s, trstn s)"

lemma dispatch_history:
  assumes "trstn s = 1" "dispatch c s = (r, s')"
  shows "bridge_pins s' = pins_command (bridge_pins s) c" "quit s' = (if c = CHR ''Q'' then 1 else quit s)"
    "net s' = net s" "r = (if c = CHR ''R'' then Some (if tdo s \<noteq> 0 then CHR ''1'' else CHR ''0'') else None)"
proof -
  have d: "[0..<8] = [0, 1, 2, 3, 4, 5, 6, 7 :: nat]" by (simp add: upt_rec)
  show "bridge_pins s' = pins_command (bridge_pins s) c"
    using assms
    by (simp add: dispatch_def bb_reset_def set_pins_def pins_command_def d digit_char_def digit_pins_def
        char_of_def bit_iff_odd split: if_splits) (auto simp: digit_pins_def bit_iff_odd)
  show "quit s' = (if c = CHR ''Q'' then 1 else quit s)" "net s' = net s"
    "r = (if c = CHR ''R'' then Some (if tdo s \<noteq> 0 then CHR ''1'' else CHR ''0'') else None)"
    using assms by (auto simp: dispatch_def bb_reset_def set_pins_def split: if_splits)
qed

text \<open>What the results of the reads consumed so far say about the bridge.\<close>

definition bridge_history :: "read_result list \<Rightarrow> remote_bitbang \<Rightarrow> bool" where
  "bridge_history pre s \<longleftrightarrow>
     quit s = (if CHR ''Q'' \<in> set (commands pre) then 1 else 0) \<and> bridge_pins s = command_pins (commands pre)"

text \<open>A tick consumes the reads \<open>now\<close>, which hold one command if a client is connected and none
  otherwise, and appends the answer to that command.\<close>

definition tick_consumes :: "u8 \<Rightarrow> bool \<Rightarrow> socket_calls \<Rightarrow> read_result list \<Rightarrow> socket_calls \<Rightarrow> bool" where
  "tick_consumes d client n now n' \<longleftrightarrow>
     reads n = now @ reads n' \<and> length (commands now) = (if client then 1 else 0) \<and>
     replies n' = replies n @ answer d (commands now)"

lemma execute_command_history:
  assumes "bridge_inv s" "bridge_history pre s" "execute_command s = Inr s'"
  shows "\<exists>now. tick_consumes (tdo s) True (net s) now (net s') \<and> bridge_history (pre @ now) s'"
proof -
  obtain c rs r s1 s2 where l: "read_loop (reads (net s)) = Inr (c, rs)"
    and d: "dispatch c (s\<lparr>net := (net s)\<lparr>reads := rs\<rparr>\<rparr>) = (r, s1)"
    and w: "send_reply r s1 = Inr s2" and s': "s' = (if quit s2 \<noteq> 0 then s2\<lparr>client_fd := 0\<rparr> else s2)"
    using assms(3) by (auto simp: execute_command_def res_bind_Inr_iff case_prod_beta Let_def) (metis prod.collapse)
  obtain now where now: "reads (net s) = now @ rs" "commands now = [c]"
    using read_loop_command [OF l] by blast
  note h = dispatch_history [OF _ d]
  have n1: "net s1 = (net s)\<lparr>reads := rs\<rparr>" using h(3) assms(1) by (simp add: bridge_inv_def)
  have s2: "reads (net s2) = reads (net s1)" "replies (net s2) = replies (net s1) @ (case r of None \<Rightarrow> [] | Some c \<Rightarrow> [c])"
    "bridge_pins s2 = bridge_pins s1" "quit s2 = quit s1"
    using w by (auto simp: send_reply_def res_bind_Inr_iff split: option.splits)
  have "tick_consumes (tdo s) True (net s) now (net s')"
    using now n1 s2(1,2) h(4) assms(1) s' by (simp add: tick_consumes_def answer_def bridge_inv_def)
  moreover have "bridge_history (pre @ now) s'"
    using assms(1,2) s2(3,4) h(1,2) s' now(2) by (simp add: bridge_history_def bridge_inv_def)
  ultimately show ?thesis by blast
qed

lemma tick_history:
  assumes "bridge_inv s" "bridge_history pre s" "tick d s = Inr (p, s')"
  shows "\<exists>now. tick_consumes d (0 < client_fd s) (net s) now (net s') \<and> bridge_history (pre @ now) s' \<and>
     p = bridge_pins s'"
proof (cases "0 < client_fd s")
  case True
  then have "execute_command (s\<lparr>tdo := d\<rparr>) = Inr s'" "p = bridge_pins s'"
    using assms(3) by (auto simp: tick_def res_bind_Inr_iff)
  moreover have "bridge_inv (s\<lparr>tdo := d\<rparr>)" "bridge_history pre (s\<lparr>tdo := d\<rparr>)"
    using assms(1,2) by (simp_all add: bridge_inv_def bridge_history_def)
  ultimately show ?thesis
    using execute_command_history [of "s\<lparr>tdo := d\<rparr>" pre s'] True by auto
next
  case False
  then show ?thesis
    using assms(2,3)
    by (intro exI [of _ "[]"])
      (auto simp: tick_def bb_accept_def res_bind_Inr_iff tick_consumes_def bridge_history_def answer_def)
qed

definition jtag_calls :: "socket_calls \<Rightarrow> remote_bitbang option \<Rightarrow> socket_calls" where
  "jtag_calls calls s = (case s of None \<Rightarrow> calls | Some b \<Rightarrow> net b)"

definition jtag_client :: "remote_bitbang option \<Rightarrow> bool" where
  "jtag_client s = (case s of None \<Rightarrow> False | Some b \<Rightarrow> 0 < client_fd b)"

lemma jtag_tick_history:
  assumes "case s of None \<Rightarrow> pre = [] | Some b \<Rightarrow> bridge_inv b \<and> bridge_history pre b"
    "jtag_tick (Some sock) tdo0 calls d s = Inr (code, p, s')"
  shows "\<exists>b' now. s' = Some b' \<and> bridge_inv b' \<and> bridge_history (pre @ now) b' \<and> p = bridge_pins b' \<and>
     code = (if quit b' \<noteq> 0 then 1 else 0) \<and>
     tick_consumes d (jtag_client s) (jtag_calls calls s) now (net b')"
proof -
  obtain b b' where n: "(case s of None \<Rightarrow> remote_bitbang_new (Some sock) tdo0 calls | Some s \<Rightarrow> Inr s) = Inr b"
    and b: "tick d b = Inr (p, b')" "s' = Some b'"
    using assms(2) by (auto simp: jtag_tick_def res_bind_Inr_iff)
  have i: "bridge_inv b \<and> bridge_history pre b \<and> net b = jtag_calls calls s \<and> (0 < client_fd b) = jtag_client s"
    using n assms(1)
    by (auto simp: remote_bitbang_new_def bridge_inv_def bridge_history_def command_pins_def jtag_calls_def
        jtag_client_def split: option.splits)
  have "case s of None \<Rightarrow> True | Some b \<Rightarrow> bridge_inv b" using assms(1) by (auto split: option.splits)
  then show ?thesis
    using tick_history [of b pre d p b'] i b jtag_tick_inv [OF _ assms(2)] by fastforce
qed

lemma jtag_reachable_history:
  assumes "jtag_reachable sock calls s"
  shows "\<exists>pre. (case s of None \<Rightarrow> pre = [] | Some b \<Rightarrow> bridge_inv b \<and> bridge_history pre b) \<and>
     reads calls = pre @ reads (jtag_calls calls s)"
  using assms
proof induction
  case (start sock calls)
  then show ?case by (simp add: jtag_calls_def)
next
  case (step sock calls s tdo0 d code p s')
  then obtain pre where pre: "case s of None \<Rightarrow> pre = [] | Some b \<Rightarrow> bridge_inv b \<and> bridge_history pre b"
    "reads calls = pre @ reads (jtag_calls calls s)" by blast
  obtain b' now where "s' = Some b'" "bridge_inv b'" "bridge_history (pre @ now) b'"
    "tick_consumes d (jtag_client s) (jtag_calls calls s) now (net b')"
    using jtag_tick_history [OF pre(1) step.hyps(2)] by blast
  then show ?case
    using pre(2) by (intro exI [of _ "pre @ now"]) (simp add: jtag_calls_def tick_consumes_def)
qed

text \<open>C31: in every reachable state of the bridge a call of \<^verbatim>\<open>jtag_tick\<close> that returns takes exactly one
  command from the client, if one is connected (and none otherwise), and answers it with the sampled
  \<^verbatim>\<open>TDO\<close> exactly if it is \<^verbatim>\<open>R\<close>. With \<open>pre\<close> and \<open>now\<close> the results of the reads of all earlier
  calls and of this call, the pins it returns are the bits of the last digit among all the commands
  (ones before the first digit) with the reset released, and the code it returns is 1 exactly if
  \<^verbatim>\<open>Q\<close> was among them.\<close>

theorem jtag_reachable_inv:
  assumes "jtag_reachable sock calls s" "jtag_tick (Some sock) tdo0 calls d s = Inr (code, p, s')"
  shows "\<exists>b' pre now. s' = Some b' \<and> bridge_inv b' \<and>
     reads calls = pre @ reads (jtag_calls calls s) \<and> reads (jtag_calls calls s) = now @ reads (net b') \<and>
     length (commands now) = (if jtag_client s then 1 else 0) \<and>
     replies (net b') = replies (jtag_calls calls s) @ answer d (commands now) \<and>
     p = command_pins (commands (pre @ now)) \<and>
     code = (if CHR ''Q'' \<in> set (commands (pre @ now)) then 1 else 0)"
proof -
  obtain pre where pre: "case s of None \<Rightarrow> pre = [] | Some b \<Rightarrow> bridge_inv b \<and> bridge_history pre b"
    "reads calls = pre @ reads (jtag_calls calls s)"
    using jtag_reachable_history [OF assms(1)] by blast
  obtain b' now where "s' = Some b'" "bridge_inv b'" "bridge_history (pre @ now) b'" "p = bridge_pins b'"
    "code = (if quit b' \<noteq> 0 then 1 else 0)" "tick_consumes d (jtag_client s) (jtag_calls calls s) now (net b')"
    using jtag_tick_history [OF pre(1) assms(2)] by blast
  then show ?thesis
    using pre(2) unfolding bridge_history_def tick_consumes_def
    by (intro exI [of _ b'] exI [of _ pre] exI [of _ now]) auto
qed

definition sample_calls :: socket_calls where
  "sample_calls = \<lparr>accepts = [Accept_again, Accepted 4], reads = [Read_again, Got (CHR ''Q'')], writes = [],
     replies = []\<rparr>"

definition sample_waiting :: remote_bitbang where
  "sample_waiting = \<lparr>err = 0, tck = 1, tms = 1, tdi = 1, trstn = 1, tdo = 0, quit = 0, socket_fd = 3,
     client_fd = 4, net = sample_calls\<lparr>accepts := []\<rparr>\<rparr>"

lemma sample_waiting_reached: "jtag_reachable 3 sample_calls (Some sample_waiting)"
  by (rule jtag_reachable.step [OF jtag_reachable.start [of 3 sample_calls], of 0 0 0 "(1, 1, 1, 1)"])
    (simp add: jtag_tick_def remote_bitbang_new_def tick_def bb_accept_def sample_calls_def sample_waiting_def)

text \<open>The second call of a session in which the client connects and sends \<^verbatim>\<open>Q\<close>.\<close>

theorem jtag_reachable_inv_witness:
  "\<exists>b'. jtag_tick (Some 3) 0 sample_calls 0 (Some sample_waiting) = Inr (1, (1, 1, 1, 1), Some b') \<and>
     bridge_inv b' \<and> reads (net b') = [] \<and> replies (net b') = []"
proof -
  obtain code p b where t: "jtag_tick (Some 3) 0 sample_calls 0 (Some sample_waiting) = Inr (code, p, Some b)"
    "code = 1" "p = (1, 1, 1, 1)" "reads (net b) = []" "replies (net b) = []"
    by (simp add: jtag_tick_def tick_def execute_command_def dispatch_def send_reply_def sample_calls_def
        sample_waiting_def)
  show ?thesis
    using jtag_reachable_inv [OF sample_waiting_reached t(1)] t by auto
qed

end
