(* ===== verification/Cache_Directory.thy ===== *)
theory Cache_Directory
  imports Prelude
begin

text \<open>
  The reference cache directory of the testbench,
  \<^verbatim>\<open>sc_verif_lib/modules/generic_cache/include/generic_cache_directory_{base,plru}.h\<close>: tags and
  valid bits of a set-associative cache with pseudo-LRU replacement. The arrays hold \<open>ways * sets\<close>
  entries, entry \<open>(way, set)\<close> at index \<open>way * sets + set\<close>; they are uninitialised until \<open>reset\<close>.
  The abstraction is the set of cached lines.
\<close>

section \<open>The directory\<close>

record cache_dir =
  tag_m :: "u64 list"
  val_m :: "bool list"
  plru_m :: "bool list"
  ways_m :: nat
  sets_m :: nat
  bytes_m :: nat

definition UINT_MAX :: nat where "UINT_MAX = 2 ^ 32 - 1"

text \<open>The constructor: three assertions and uninitialised arrays of \<open>nways * nsets\<close> entries.\<close>

definition GenericCacheDirectoryPlru ::
  "(nat \<Rightarrow> u64) \<Rightarrow> (nat \<Rightarrow> bool) \<Rightarrow> (nat \<Rightarrow> bool) \<Rightarrow> nat \<Rightarrow> nat \<Rightarrow> nat \<Rightarrow> cache_dir res" where
  "GenericCacheDirectoryPlru tags vals plrus nways nsets nbytes =
     res_bind (require (nsets > 0) AssertFailed) (\<lambda>_.
     res_bind (require (nways > 0) AssertFailed) (\<lambda>_.
     res_bind (require (nbytes > 0) AssertFailed) (\<lambda>_.
     Inr \<lparr>tag_m = map tags [0..<nways * nsets], val_m = map vals [0..<nways * nsets],
          plru_m = map plrus [0..<nways * nsets], ways_m = nways, sets_m = nsets, bytes_m = nbytes\<rparr>)))"

definition slot :: "cache_dir \<Rightarrow> nat \<Rightarrow> nat \<Rightarrow> nat" where
  "slot d way st = way * sets_m d + st"

definition getCacheTag :: "cache_dir \<Rightarrow> nat \<Rightarrow> nat \<Rightarrow> u64" where
  "getCacheTag d way st = tag_m d ! slot d way st"

definition getCacheValid :: "cache_dir \<Rightarrow> nat \<Rightarrow> nat \<Rightarrow> bool" where
  "getCacheValid d way st = val_m d ! slot d way st"

definition getCachePlru :: "cache_dir \<Rightarrow> nat \<Rightarrow> nat \<Rightarrow> bool" where
  "getCachePlru d way st = plru_m d ! slot d way st"

definition setCacheTag :: "nat \<Rightarrow> nat \<Rightarrow> u64 \<Rightarrow> cache_dir \<Rightarrow> cache_dir" where
  "setCacheTag way st t d = d\<lparr>tag_m := (tag_m d)[slot d way st := t]\<rparr>"

definition setCacheValid :: "nat \<Rightarrow> nat \<Rightarrow> bool \<Rightarrow> cache_dir \<Rightarrow> cache_dir" where
  "setCacheValid way st v d = d\<lparr>val_m := (val_m d)[slot d way st := v]\<rparr>"

definition setCachePlru :: "nat \<Rightarrow> nat \<Rightarrow> bool \<Rightarrow> cache_dir \<Rightarrow> cache_dir" where
  "setCachePlru way st v d = d\<lparr>plru_m := (plru_m d)[slot d way st := v]\<rparr>"

definition getNline_tag :: "cache_dir \<Rightarrow> u64 \<Rightarrow> nat \<Rightarrow> u64" where
  "getNline_tag d tag st = tag * of_nat (sets_m d) + of_nat st"

definition getNline :: "cache_dir \<Rightarrow> u64 \<Rightarrow> u64" where
  "getNline d addr = addr div of_nat (bytes_m d)"

definition getAddr :: "cache_dir \<Rightarrow> u64 \<Rightarrow> nat \<Rightarrow> u64" where
  "getAddr d tag st = getNline_tag d tag st * of_nat (bytes_m d)"

definition getAddrTag :: "cache_dir \<Rightarrow> u64 \<Rightarrow> u64" where
  "getAddrTag d addr = addr div (of_nat (sets_m d) * of_nat (bytes_m d))"

definition getAddrSet :: "cache_dir \<Rightarrow> u64 \<Rightarrow> nat" where
  "getAddrSet d addr = unat ((addr div of_nat (bytes_m d)) mod of_nat (sets_m d))"

definition base_reset :: "cache_dir \<Rightarrow> cache_dir" where
  "base_reset d =
     for_upto (ways_m d) (\<lambda>way. for_upto (sets_m d) (\<lambda>st d.
       setCacheTag way st 0 (setCacheValid way st False d))) d"

definition plru_reset :: "cache_dir \<Rightarrow> cache_dir" where
  "plru_reset d =
     for_upto (ways_m d) (\<lambda>way. for_upto (sets_m d) (\<lambda>st. setCachePlru way st False)) (base_reset d)"

definition hit :: "cache_dir \<Rightarrow> u64 \<Rightarrow> bool \<times> nat \<times> nat" where
  "hit d addr =
     (let st = getAddrSet d addr; tag = getAddrTag d addr in
      case find (\<lambda>way. getCacheValid d way st \<and> tag = getCacheTag d way st) [0..<ways_m d] of
        Some way \<Rightarrow> (True, way, st)
      | None \<Rightarrow> (False, UINT_MAX, UINT_MAX))"

definition inval_way :: "nat \<Rightarrow> nat \<Rightarrow> cache_dir \<Rightarrow> (bool \<times> cache_dir) res" where
  "inval_way way st d =
     (if slot d way st < length (val_m d)
      then Inr (getCacheValid d way st, setCacheValid way st False d)
      else Inl OutOfBounds)"

definition inval_addr :: "u64 \<Rightarrow> cache_dir \<Rightarrow> bool \<times> cache_dir" where
  "inval_addr addr d =
     (let st = getAddrSet d addr; tag = getAddrTag d addr in
      case find (\<lambda>way. getCacheTag d way st = tag) [0..<ways_m d] of
        Some way \<Rightarrow> (True, setCacheValid way st False d)
      | None \<Rightarrow> (False, d))"

definition all_recent :: "cache_dir \<Rightarrow> nat \<Rightarrow> bool" where
  "all_recent d st = fold (\<lambda>way b. b \<and> getCachePlru d way st) [0..<ways_m d] True"

definition replUpdate :: "nat \<Rightarrow> nat \<Rightarrow> cache_dir \<Rightarrow> cache_dir" where
  "replUpdate way st d =
     (let d = setCachePlru way st True d in
      if all_recent d st
      then for_upto (ways_m d) (\<lambda>way' d. if way' \<noteq> way then setCachePlru way' st False d else d) d
      else d)"

text \<open>\<open>repl\<close> returns whether a line was evicted, its tag (0 if none), and the way and set filled.\<close>

definition repl :: "u64 \<Rightarrow> cache_dir \<Rightarrow> (bool \<times> u64 \<times> nat \<times> nat \<times> cache_dir) res" where
  "repl addr d =
     (let st = getAddrSet d addr; tag = getAddrTag d addr in
      case find (\<lambda>way. \<not> getCacheValid d way st) [0..<ways_m d] of
        Some way \<Rightarrow>
          Inr (False, 0, way, st, replUpdate way st (setCacheTag way st tag (setCacheValid way st True d)))
      | None \<Rightarrow>
          (case find (\<lambda>way. \<not> getCachePlru d way st) [0..<ways_m d] of
             Some way \<Rightarrow>
               Inr (True, getCacheTag d way st, way, st, replUpdate way st (setCacheTag way st tag d))
           | None \<Rightarrow> Inl AssertFailed))"

definition alloc :: "u64 \<Rightarrow> cache_dir \<Rightarrow> (bool \<times> u64 \<times> nat \<times> nat \<times> cache_dir) res" where
  "alloc addr d = repl addr d"

definition cache_access :: "u64 \<Rightarrow> bool \<Rightarrow> cache_dir \<Rightarrow> (bool \<times> nat \<times> nat) \<times> cache_dir" where
  "cache_access addr update_repl_flags d =
     (let (h, way, st) = hit d addr in
      if h then ((True, way, st), if update_repl_flags then replUpdate way st d else d)
      else ((False, UINT_MAX, UINT_MAX), d))"

text \<open>The entries \<^verbatim>\<open>printTrace\<close> lists: set, way and tag of every valid entry, way by way.\<close>

definition printTrace :: "cache_dir \<Rightarrow> (nat \<times> nat \<times> u64) list" where
  "printTrace d =
     [(st, way, getCacheTag d way st). way \<leftarrow> [0..<ways_m d], st \<leftarrow> [0..<sets_m d], getCacheValid d way st]"

section \<open>Entries and their updates\<close>

definition shape :: "cache_dir \<Rightarrow> bool" where
  "shape d \<longleftrightarrow> 0 < ways_m d \<and> 0 < sets_m d \<and> 0 < bytes_m d \<and> sets_m d * bytes_m d < 2 ^ 64 \<and>
     length (tag_m d) = ways_m d * sets_m d \<and> length (val_m d) = ways_m d * sets_m d \<and>
     length (plru_m d) = ways_m d * sets_m d"

lemma slot_less: "way < ways_m d \<Longrightarrow> st < sets_m d \<Longrightarrow> slot d way st < ways_m d * sets_m d"
proof -
  assume "way < ways_m d" "st < sets_m d"
  then have "way * sets_m d + st < (way + 1) * sets_m d" by simp
  also have "\<dots> \<le> ways_m d * sets_m d" using \<open>way < ways_m d\<close> by (intro mult_le_mono1) simp
  finally show ?thesis by (simp add: slot_def)
qed

lemma slot_eq_iff:
  "st < sets_m d \<Longrightarrow> st' < sets_m d \<Longrightarrow> slot d way st = slot d way' st' \<longleftrightarrow> way = way' \<and> st = st'"
proof -
  assume a: "st < sets_m d" "st' < sets_m d"
  have "(way * sets_m d + st) div sets_m d = way" "(way * sets_m d + st) mod sets_m d = st"
    "(way' * sets_m d + st') div sets_m d = way'" "(way' * sets_m d + st') mod sets_m d = st'"
    using a by simp_all
  then show ?thesis unfolding slot_def by metis
qed

lemma set_sizes [simp]:
  "ways_m (setCacheTag way st t d) = ways_m d" "sets_m (setCacheTag way st t d) = sets_m d"
  "bytes_m (setCacheTag way st t d) = bytes_m d" "shape (setCacheTag way st t d) = shape d"
  "ways_m (setCacheValid way st v d) = ways_m d" "sets_m (setCacheValid way st v d) = sets_m d"
  "bytes_m (setCacheValid way st v d) = bytes_m d" "shape (setCacheValid way st v d) = shape d"
  "ways_m (setCachePlru way st v d) = ways_m d" "sets_m (setCachePlru way st v d) = sets_m d"
  "bytes_m (setCachePlru way st v d) = bytes_m d" "shape (setCachePlru way st v d) = shape d"
  by (simp_all add: setCacheTag_def setCacheValid_def setCachePlru_def shape_def)

lemma slot_set [simp]:
  "slot (setCacheTag way st t d) = slot d" "slot (setCacheValid way st v d) = slot d"
  "slot (setCachePlru way st v d) = slot d"
  by (simp_all add: slot_def fun_eq_iff)

lemma get_set_other [simp, lookups]:
  "getCacheValid (setCacheTag way st t d) = getCacheValid d" "getCachePlru (setCacheTag way st t d) = getCachePlru d"
  "getCacheTag (setCacheValid way st v d) = getCacheTag d" "getCachePlru (setCacheValid way st v d) = getCachePlru d"
  "getCacheTag (setCachePlru way st v d) = getCacheTag d" "getCacheValid (setCachePlru way st v d) = getCacheValid d"
  unfolding getCacheValid_def getCacheTag_def getCachePlru_def fun_eq_iff slot_set
  by (simp_all add: setCacheTag_def setCacheValid_def setCachePlru_def)

lemma get_set [lookups]:
  assumes "shape d" "way < ways_m d" "st < sets_m d" "way' < ways_m d" "st' < sets_m d"
  shows "getCacheTag (setCacheTag way st t d) way' st' = (if way' = way \<and> st' = st then t else getCacheTag d way' st')"
    "getCacheValid (setCacheValid way st v d) way' st' = (if way' = way \<and> st' = st then v else getCacheValid d way' st')"
    "getCachePlru (setCachePlru way st v d) way' st' = (if way' = way \<and> st' = st then v else getCachePlru d way' st')"
  unfolding getCacheTag_def getCacheValid_def getCachePlru_def slot_set
  using assms slot_less [OF assms(2,3)] slot_eq_iff [of st d st' way way']
  by (simp_all add: setCacheTag_def setCacheValid_def setCachePlru_def shape_def nth_list_update)

section \<open>Reset\<close>

text \<open>A doubly nested loop that establishes a property cell by cell.\<close>

lemma for_upto_cells:
  assumes "I d" "\<And>k d. k < n \<Longrightarrow> I d \<Longrightarrow> I (f k d) \<and> P k (f k d)"
    and "\<And>k j d. k < n \<Longrightarrow> I d \<Longrightarrow> P j d \<Longrightarrow> P j (f k d)"
  shows "I (for_upto n f d) \<and> (\<forall>k < n. P k (for_upto n f d)) \<and> (\<forall>j. P j d \<longrightarrow> P j (for_upto n f d))"
  using assms
proof (induction n)
  case (Suc n)
  have "I (for_upto n f d) \<and> (\<forall>k < n. P k (for_upto n f d)) \<and> (\<forall>j. P j d \<longrightarrow> P j (for_upto n f d))"
    using Suc.prems by (intro Suc.IH) simp_all
  then show ?case using Suc.prems(2,3) by (auto simp: less_Suc_eq)
qed simp

lemma nested_for_cells:
  assumes "I d" "\<And>w s d. w < n \<Longrightarrow> s < m \<Longrightarrow> I d \<Longrightarrow> I (f w s d) \<and> P w s (f w s d)"
    and "\<And>w s w' s' d. w < n \<Longrightarrow> s < m \<Longrightarrow> I d \<Longrightarrow> P w' s' d \<Longrightarrow> P w' s' (f w s d)"
  shows "I (for_upto n (\<lambda>w. for_upto m (f w)) d) \<and>
    (\<forall>w < n. \<forall>s < m. P w s (for_upto n (\<lambda>w. for_upto m (f w)) d))"
proof -
  have cells: "I (for_upto m (f w) d) \<and> (\<forall>s < m. P w s (for_upto m (f w) d))" if "w < n" "I d" for w d
    using for_upto_cells [of I d m "f w" "P w", OF that(2)] assms(2,3) that(1) by simp
  have keep: "P w' s' (for_upto m (f w) d)" if "w < n" "I d" "P w' s' d" for w w' s' d
    using for_upto_cells [of "\<lambda>d. I d \<and> P w' s' d" d m "f w" "\<lambda>_ _. True"] that assms(2,3) by simp
  have "I (for_upto n (\<lambda>w. for_upto m (f w)) d) \<and>
      (\<forall>w < n. \<forall>s < m. P w s (for_upto n (\<lambda>w. for_upto m (f w)) d)) \<and>
      (\<forall>w. (\<forall>s < m. P w s d) \<longrightarrow> (\<forall>s < m. P w s (for_upto n (\<lambda>w. for_upto m (f w)) d)))"
  proof (rule for_upto_cells [where P = "\<lambda>w d. \<forall>s < m. P w s d"])
    show "I d" by (rule assms(1))
    show "I (for_upto m (f k) d) \<and> (\<forall>s < m. P k s (for_upto m (f k) d))" if "k < n" "I d" for k d
      by (rule cells [OF that])
    show "\<forall>s < m. P j s (for_upto m (f k) d)" if "k < n" "I d" "\<forall>s < m. P j s d" for k j d
      using keep [OF that(1,2)] that(3) by simp
  qed
  then show ?thesis by simp
qed

definition dims :: "cache_dir \<Rightarrow> nat \<times> nat \<times> nat" where
  "dims d = (ways_m d, sets_m d, bytes_m d)"

definition cleared :: "cache_dir \<Rightarrow> nat \<Rightarrow> nat \<Rightarrow> cache_dir \<Rightarrow> bool" where
  "cleared d w s d' \<longleftrightarrow>
     (w < ways_m d \<and> s < sets_m d \<longrightarrow> \<not> getCacheValid d' w s \<and> getCacheTag d' w s = 0)"

lemma dims_sizes: "dims d' = dims d \<longleftrightarrow> ways_m d' = ways_m d \<and> sets_m d' = sets_m d \<and> bytes_m d' = bytes_m d"
  by (simp add: dims_def)

lemma base_reset_cells:
  assumes "shape d"
  shows "(shape (base_reset d) \<and> dims (base_reset d) = dims d) \<and>
     (\<forall>w < ways_m d. \<forall>s < sets_m d. cleared d w s (base_reset d))"
  unfolding base_reset_def
proof (rule nested_for_cells)
  fix w s d'
  assume "w < ways_m d" "s < sets_m d" "shape d' \<and> dims d' = dims d"
  then show "(shape (setCacheTag w s 0 (setCacheValid w s False d')) \<and>
       dims (setCacheTag w s 0 (setCacheValid w s False d')) = dims d) \<and>
      cleared d w s (setCacheTag w s 0 (setCacheValid w s False d'))"
    by (simp add: dims_sizes cleared_def get_set)
  fix w' s'
  assume "cleared d w' s' d'"
  with \<open>w < ways_m d\<close> \<open>s < sets_m d\<close> \<open>shape d' \<and> dims d' = dims d\<close>
  show "cleared d w' s' (setCacheTag w s 0 (setCacheValid w s False d'))"
    by (simp add: dims_sizes cleared_def get_set)
qed (use assms in simp)

lemma plru_reset_cells:
  assumes "shape d"
  shows "shape (plru_reset d) \<and> dims (plru_reset d) = dims d \<and>
    (\<forall>w < ways_m d. \<forall>s < sets_m d.
       \<not> getCacheValid (plru_reset d) w s \<and> getCacheTag (plru_reset d) w s = 0 \<and> \<not> getCachePlru (plru_reset d) w s)"
proof -
  let ?I = "\<lambda>d'. (shape d' \<and> dims d' = dims d) \<and> (\<forall>w < ways_m d. \<forall>s < sets_m d. cleared d w s d')"
  let ?P = "\<lambda>w s d'. w < ways_m d \<and> s < sets_m d \<longrightarrow> \<not> getCachePlru d' w s"
  have "?I (plru_reset d) \<and> (\<forall>w < ways_m d. \<forall>s < sets_m d. ?P w s (plru_reset d))"
    unfolding plru_reset_def
  proof (rule nested_for_cells)
    show "?I (base_reset d)" using base_reset_cells [OF assms] .
    fix w s d'
    assume w: "w < ways_m d" "s < sets_m d" and I: "?I d'"
    then show "?I (setCachePlru w s False d') \<and> ?P w s (setCachePlru w s False d')"
      by (simp add: dims_sizes cleared_def get_set)
    show "?P w' s' (setCachePlru w s False d')" if "?P w' s' d'" for w' s'
      using w I that by (simp add: dims_sizes get_set)
  qed
  then show ?thesis by (auto simp: cleared_def)
qed

section \<open>The replacement bits\<close>

lemma all_recent_iff: "all_recent d st \<longleftrightarrow> (\<forall>w < ways_m d. getCachePlru d w st)"
proof -
  have "fold (\<lambda>way b. b \<and> P way) xs b \<longleftrightarrow> b \<and> (\<forall>x \<in> set xs. P x)" for P :: "nat \<Rightarrow> bool" and xs b
    by (induction xs arbitrary: b) auto
  then show ?thesis by (auto simp: all_recent_def)
qed

lemma clear_others:
  assumes "shape d" "st < sets_m d" "n \<le> ways_m d"
  shows "\<exists>bs. for_upto n (\<lambda>way' d. if way' \<noteq> way then setCachePlru way' st False d else d) d = d\<lparr>plru_m := bs\<rparr> \<and>
     length bs = length (plru_m d) \<and>
     (\<forall>w s. w < ways_m d \<longrightarrow> s < sets_m d \<longrightarrow> bs ! slot d w s = (getCachePlru d w s \<and> \<not> (s = st \<and> w < n \<and> w \<noteq> way)))"
  using assms(3)
proof (induction n)
  case 0
  show ?case by (intro exI [of _ "plru_m d"]) (simp add: getCachePlru_def)
next
  case (Suc n)
  then obtain bs where bs: "for_upto n (\<lambda>way' d. if way' \<noteq> way then setCachePlru way' st False d else d) d = d\<lparr>plru_m := bs\<rparr>"
    "length bs = length (plru_m d)"
    "\<forall>w s. w < ways_m d \<longrightarrow> s < sets_m d \<longrightarrow> bs ! slot d w s = (getCachePlru d w s \<and> \<not> (s = st \<and> w < n \<and> w \<noteq> way))"
    by auto
  have less: "slot d n st < length bs"
    using Suc.prems assms(1,2) bs(2) slot_less [of n d st] by (simp add: shape_def)
  show ?case
  proof (cases "n = way")
    case True
    then show ?thesis
      using bs by (intro exI [of _ bs]) (auto simp: less_Suc_eq)
  next
    case False
    have "slot (d\<lparr>plru_m := bs\<rparr>) = slot d" by (simp add: slot_def fun_eq_iff)
    moreover have "(bs[slot d n st := False]) ! slot d w s =
        (getCachePlru d w s \<and> \<not> (s = st \<and> w < Suc n \<and> w \<noteq> way))" if "w < ways_m d" "s < sets_m d" for w s
      using that bs(3) less False assms(2) slot_eq_iff [of st d s n w]
      by (auto simp: nth_list_update less_Suc_eq)
    ultimately show ?thesis
      using bs(1,2) False by (intro exI [of _ "bs[slot d n st := False]"]) (simp add: setCachePlru_def)
  qed
qed

lemma replUpdate_bits:
  assumes "shape d" "way < ways_m d" "st < sets_m d"
  obtains bs where "replUpdate way st d = d\<lparr>plru_m := bs\<rparr>" "length bs = length (plru_m d)"
    "\<And>w s. w < ways_m d \<Longrightarrow> s < sets_m d \<Longrightarrow> bs ! slot d w s =
       (if s \<noteq> st then getCachePlru d w s
        else w = way \<or> getCachePlru d w s \<and> \<not> (\<forall>w < ways_m d. w = way \<or> getCachePlru d w st))"
proof -
  let ?d = "setCachePlru way st True d"
  have p: "getCachePlru ?d w s = (if w = way \<and> s = st then True else getCachePlru d w s)"
    if "w < ways_m d" "s < sets_m d" for w s
    using that assms by (simp add: get_set)
  have all: "all_recent ?d st \<longleftrightarrow> (\<forall>w < ways_m d. w = way \<or> getCachePlru d w st)"
    using p assms(3) by (auto simp: all_recent_iff)
  have len: "length (plru_m ?d) = length (plru_m d)" and eq: "?d = d\<lparr>plru_m := plru_m ?d\<rparr>"
    by (simp_all add: setCachePlru_def)
  show thesis
  proof (cases "all_recent ?d st")
    case False
    then have "replUpdate way st d = d\<lparr>plru_m := plru_m ?d\<rparr>" using eq by (simp add: replUpdate_def Let_def)
    moreover have "plru_m ?d ! slot d w s = getCachePlru ?d w s" for w s
      by (simp add: getCachePlru_def)
    ultimately show thesis using that [of "plru_m ?d"] len p all False by (auto split: if_splits)
  next
    case True
    obtain bs where bs: "for_upto (ways_m ?d) (\<lambda>way' d. if way' \<noteq> way then setCachePlru way' st False d else d) ?d = ?d\<lparr>plru_m := bs\<rparr>"
      "length bs = length (plru_m ?d)"
      "\<forall>w s. w < ways_m ?d \<longrightarrow> s < sets_m ?d \<longrightarrow> bs ! slot ?d w s = (getCachePlru ?d w s \<and> \<not> (s = st \<and> w < ways_m ?d \<and> w \<noteq> way))"
      using clear_others [of ?d st "ways_m ?d" way] assms by auto
    have "replUpdate way st d = d\<lparr>plru_m := bs\<rparr>"
      using True bs(1) by (simp add: replUpdate_def Let_def setCachePlru_def)
    then show thesis using that [of bs] bs(2,3) len p all True by (auto split: if_splits)
  qed
qed

section \<open>The cached lines\<close>

text \<open>The abstraction: the numbers of the lines that have a valid entry.\<close>

definition line_at :: "cache_dir \<Rightarrow> nat \<Rightarrow> nat \<Rightarrow> nat" where
  "line_at d w s = unat (getCacheTag d w s) * sets_m d + s"

definition cached_lines :: "cache_dir \<Rightarrow> nat set" where
  "cached_lines d = {line_at d w s | w s. w < ways_m d \<and> s < sets_m d \<and> getCacheValid d w s}"

definition line_of :: "cache_dir \<Rightarrow> u64 \<Rightarrow> nat" where
  "line_of d addr = unat addr div bytes_m d"

text \<open>
  The invariant of the tags: no way below a valid one has the same tag. So a line is valid at most
  once, and a search by tag alone cannot stop at a stale entry below the valid one.
\<close>

definition tags_ok :: "cache_dir \<Rightarrow> bool" where
  "tags_ok d \<longleftrightarrow> (\<forall>s < sets_m d. \<forall>w < ways_m d. \<forall>w' < w. getCacheValid d w s \<longrightarrow>
     getCacheTag d w' s \<noteq> getCacheTag d w s)"

definition plru_ok :: "cache_dir \<Rightarrow> bool" where
  "plru_ok d \<longleftrightarrow> (\<forall>s < sets_m d. \<exists>w < ways_m d. \<not> getCachePlru d w s)"

definition dir_inv :: "cache_dir \<Rightarrow> bool" where
  "dir_inv d \<longleftrightarrow> shape d \<and> tags_ok d \<and> plru_ok d \<and> 1 < ways_m d"

lemma word_div_nat:
  "0 < n \<Longrightarrow> n < 2 ^ 64 \<Longrightarrow> unat (a div of_nat n :: u64) = unat a div n"
  "0 < n \<Longrightarrow> n < 2 ^ 64 \<Longrightarrow> unat (a mod of_nat n :: u64) = unat a mod n"
  by (simp_all add: unat_div_distrib unat_mod_distrib unat_of_nat)

lemma addr_split:
  assumes "shape d"
  shows "getAddrSet d addr < sets_m d"
    "line_of d addr = unat (getAddrTag d addr) * sets_m d + getAddrSet d addr"
proof -
  have sz: "0 < sets_m d" "0 < bytes_m d" "sets_m d * bytes_m d < 2 ^ 64"
    using assms by (simp_all add: shape_def)
  then have "sets_m d < 2 ^ 64" "bytes_m d < 2 ^ 64"
    by (metis le_less_trans mult.commute mult_le_mono2 nat_mult_1_right Suc_leI One_nat_def)+
  then have st: "getAddrSet d addr = unat addr div bytes_m d mod sets_m d"
    using sz by (simp add: getAddrSet_def word_div_nat)
  have "unat (getAddrTag d addr) = unat addr div (bytes_m d * sets_m d)"
    using sz word_div_nat(1) [of "sets_m d * bytes_m d" addr] by (simp add: getAddrTag_def mult.commute)
  with st show "line_of d addr = unat (getAddrTag d addr) * sets_m d + getAddrSet d addr"
    by (simp add: line_of_def div_mult2_eq)
  show "getAddrSet d addr < sets_m d" using st sz by simp
qed

lemma line_at_eq:
  assumes "shape d" "s < sets_m d"
  shows "line_at d w s = line_of d addr \<longleftrightarrow> s = getAddrSet d addr \<and> getCacheTag d w s = getAddrTag d addr"
proof -
  have split: "x * n + a = y * n + b \<longleftrightarrow> x = y \<and> a = b" if "a < n" "b < n" for x y a b n :: nat
  proof
    assume eq: "x * n + a = y * n + b"
    have "(x * n + a) div n = x" "(x * n + a) mod n = a" "(y * n + b) div n = y" "(y * n + b) mod n = b"
      using that by simp_all
    then show "x = y \<and> a = b" using eq by metis
  qed simp
  show ?thesis
    unfolding line_at_def addr_split(2) [OF assms(1)]
    by (subst split [OF assms(2) addr_split(1) [OF assms(1)]]) (auto simp: word_unat_eq_iff)
qed

lemma cached_iff:
  assumes "shape d"
  shows "line_of d addr \<in> cached_lines d \<longleftrightarrow>
     (\<exists>w < ways_m d. getCacheValid d w (getAddrSet d addr) \<and> getCacheTag d w (getAddrSet d addr) = getAddrTag d addr)"
proof -
  have "line_of d addr \<in> cached_lines d \<longleftrightarrow>
      (\<exists>w s. line_at d w s = line_of d addr \<and> w < ways_m d \<and> s < sets_m d \<and> getCacheValid d w s)"
    unfolding cached_lines_def mem_Collect_eq by metis
  then show ?thesis
    using line_at_eq [OF assms] addr_split(1) [OF assms] by metis
qed

lemma find_upt_Some:
  "find P [0..<n] = Some w \<longleftrightarrow> w < n \<and> P w \<and> (\<forall>w' < w. \<not> P w')"
proof
  assume "find P [0..<n] = Some w"
  then show "w < n \<and> P w \<and> (\<forall>w' < w. \<not> P w')"
    by (auto simp: find_Some_iff)
next
  assume w: "w < n \<and> P w \<and> (\<forall>w' < w. \<not> P w')"
  then show "find P [0..<n] = Some w"
    unfolding find_Some_iff by (intro exI [of _ w]) simp
qed

lemma find_upt_None: "find P [0..<n] = None \<longleftrightarrow> (\<forall>w < n. \<not> P w)"
  by (auto simp: find_None_iff)

text \<open>A lookup hits exactly the cached lines.\<close>

lemma hit_iff:
  assumes "shape d"
  shows "fst (hit d addr) \<longleftrightarrow> line_of d addr \<in> cached_lines d"
proof -
  let ?P = "\<lambda>way. getCacheValid d way (getAddrSet d addr) \<and> getAddrTag d addr = getCacheTag d way (getAddrSet d addr)"
  have "fst (hit d addr) \<longleftrightarrow> find ?P [0..<ways_m d] \<noteq> None"
    by (auto simp: hit_def Let_def split: option.split)
  also have "\<dots> \<longleftrightarrow> (\<exists>w < ways_m d. ?P w)"
    unfolding find_upt_None by blast
  finally show ?thesis unfolding cached_iff [OF assms] by metis
qed

lemma hit_way:
  assumes "hit d addr = (True, way, st)"
  shows "way < ways_m d" "st = getAddrSet d addr" "getCacheValid d way st" "getCacheTag d way st = getAddrTag d addr"
  using assms by (auto simp: hit_def Let_def find_upt_Some split: option.splits)

section \<open>The operations on the set of lines\<close>

lemma cached_lines_cong:
  assumes "sets_m d' = sets_m d" "ways_m d' = ways_m d"
    "\<And>w s. w < ways_m d \<Longrightarrow> s < sets_m d \<Longrightarrow> getCacheValid d' w s = getCacheValid d w s \<and>
       (getCacheValid d w s \<longrightarrow> getCacheTag d' w s = getCacheTag d w s)"
  shows "cached_lines d' = cached_lines d"
  using assms unfolding cached_lines_def line_at_def by (metis (lifting))

lemma replUpdate_keeps:
  assumes "shape d" "way < ways_m d" "st < sets_m d"
  shows "shape (replUpdate way st d)" "dims (replUpdate way st d) = dims d"
    "getCacheValid (replUpdate way st d) = getCacheValid d" "getCacheTag (replUpdate way st d) = getCacheTag d"
    "tags_ok (replUpdate way st d) = tags_ok d" "cached_lines (replUpdate way st d) = cached_lines d"
proof -
  obtain bs where bs: "replUpdate way st d = d\<lparr>plru_m := bs\<rparr>" "length bs = length (plru_m d)"
    using replUpdate_bits [OF assms] by blast
  show g: "getCacheValid (replUpdate way st d) = getCacheValid d" "getCacheTag (replUpdate way st d) = getCacheTag d"
    unfolding bs(1) by (simp_all add: fun_eq_iff getCacheValid_def getCacheTag_def slot_def)
  show "shape (replUpdate way st d)" "dims (replUpdate way st d) = dims d"
    unfolding bs(1) using assms(1) bs(2) by (simp_all add: shape_def dims_def)
  have "sets_m (replUpdate way st d) = sets_m d" "ways_m (replUpdate way st d) = ways_m d"
    unfolding bs(1) by simp_all
  then show "tags_ok (replUpdate way st d) = tags_ok d" "cached_lines (replUpdate way st d) = cached_lines d"
    using g by (simp_all add: tags_ok_def cached_lines_def line_at_def)
qed

lemma replUpdate_plru:
  assumes "shape d" "way < ways_m d" "st < sets_m d" "w < ways_m d" "s < sets_m d"
  shows "getCachePlru (replUpdate way st d) w s =
     (if s \<noteq> st then getCachePlru d w s
      else w = way \<or> getCachePlru d w s \<and> \<not> (\<forall>w < ways_m d. w = way \<or> getCachePlru d w st))"
proof -
  obtain bs where bs: "replUpdate way st d = d\<lparr>plru_m := bs\<rparr>"
    "\<And>w s. w < ways_m d \<Longrightarrow> s < sets_m d \<Longrightarrow> bs ! slot d w s =
       (if s \<noteq> st then getCachePlru d w s
        else w = way \<or> getCachePlru d w s \<and> \<not> (\<forall>w < ways_m d. w = way \<or> getCachePlru d w st))"
    using replUpdate_bits [OF assms(1-3)] by blast
  have "getCachePlru (replUpdate way st d) w s = bs ! slot d w s"
    unfolding bs(1) by (simp add: getCachePlru_def slot_def)
  then show ?thesis using bs(2) assms(4,5) by simp
qed

lemma replUpdate_plru_ok:
  assumes "shape d" "plru_ok d" "1 < ways_m d" "way < ways_m d" "st < sets_m d"
  shows "plru_ok (replUpdate way st d)"
proof -
  have dm: "ways_m (replUpdate way st d) = ways_m d" "sets_m (replUpdate way st d) = sets_m d"
    using replUpdate_keeps(2) [OF assms(1,4,5)] by (simp_all add: dims_sizes)
  have "\<exists>w < ways_m d. \<not> getCachePlru (replUpdate way st d) w s" if s: "s < sets_m d" for s
  proof (cases "s = st \<and> (\<forall>w < ways_m d. w = way \<or> getCachePlru d w st)")
    case True
    have "\<exists>w < ways_m d. w \<noteq> way"
      using assms(3) by (cases "way = 0") (auto intro: exI [of _ 1] exI [of _ 0])
    then show ?thesis using True replUpdate_plru [OF assms(1,4,5) _ s] by metis
  next
    case False
    then have "\<exists>w < ways_m d. \<not> getCachePlru d w s \<and> (s = st \<longrightarrow> w \<noteq> way)"
      using assms(2) s by (auto simp: plru_ok_def)
    then show ?thesis using replUpdate_plru [OF assms(1,4,5) _ s] by metis
  qed
  then show ?thesis unfolding plru_ok_def dm by simp
qed

text \<open>The lines held outside one entry.\<close>

definition lines_but :: "cache_dir \<Rightarrow> nat \<Rightarrow> nat \<Rightarrow> nat set" where
  "lines_but d way st =
     {line_at d w s | w s. w < ways_m d \<and> s < sets_m d \<and> getCacheValid d w s \<and> (w, s) \<noteq> (way, st)}"

lemma tags_ok_unique:
  assumes "tags_ok d" "s < sets_m d" "w < ways_m d" "w' < ways_m d" "getCacheValid d w s" "getCacheValid d w' s"
    "getCacheTag d w s = getCacheTag d w' s"
  shows "w = w'"
  using assms unfolding tags_ok_def by (metis linorder_neqE_nat)

lemma line_at_inj:
  assumes "s < sets_m d" "s' < sets_m d"
  shows "line_at d w s = line_at d w' s' \<longleftrightarrow> s = s' \<and> getCacheTag d w s = getCacheTag d w' s'"
proof
  assume eq: "line_at d w s = line_at d w' s'"
  have "line_at d w s div sets_m d = unat (getCacheTag d w s)" "line_at d w s mod sets_m d = s"
    "line_at d w' s' div sets_m d = unat (getCacheTag d w' s')" "line_at d w' s' mod sets_m d = s'"
    using assms by (simp_all add: line_at_def)
  then show "s = s' \<and> getCacheTag d w s = getCacheTag d w' s'"
    using eq by (metis word_unat_eq_iff)
qed (auto simp: line_at_def)

lemma lines_but_invalid:
  "\<not> getCacheValid d way st \<Longrightarrow> lines_but d way st = cached_lines d"
  unfolding lines_but_def cached_lines_def by blast

lemma lines_but_valid:
  assumes "tags_ok d" "way < ways_m d" "st < sets_m d" "getCacheValid d way st"
  shows "lines_but d way st = cached_lines d - {line_at d way st}"
proof -
  have "line_at d w s = line_at d way st \<longleftrightarrow> w = way \<and> s = st"
    if "w < ways_m d" "s < sets_m d" "getCacheValid d w s" for w s
    using that assms line_at_inj [of s d st w way] tags_ok_unique [OF assms(1)] by auto
  then show ?thesis unfolding lines_but_def cached_lines_def by (auto; metis)
qed

lemma fill_lines:
  assumes "shape d" "way < ways_m d" "st < sets_m d"
    and "d1 = setCacheTag way st t (setCacheValid way st True d)"
  shows "cached_lines d1 = insert (unat t * sets_m d + st) (lines_but d way st)"
proof -
  have g: "getCacheValid d1 w s = (w = way \<and> s = st \<or> getCacheValid d w s)"
    "line_at d1 w s = (if w = way \<and> s = st then unat t * sets_m d + st else line_at d w s)"
    if "w < ways_m d" "s < sets_m d" for w s
    using that assms by (auto simp: get_set line_at_def)
  have dm: "ways_m d1 = ways_m d" "sets_m d1 = sets_m d" using assms(4) by simp_all
  show ?thesis
    unfolding cached_lines_def lines_but_def dm using g assms(2,3) by auto metis+
qed

lemma inval_lines:
  assumes "shape d" "way < ways_m d" "st < sets_m d"
  shows "cached_lines (setCacheValid way st False d) = lines_but d way st"
proof -
  have "getCacheValid (setCacheValid way st False d) w s = ((w, s) \<noteq> (way, st) \<and> getCacheValid d w s)"
    if "w < ways_m d" "s < sets_m d" for w s
    using that assms by (auto simp: get_set)
  moreover have "line_at (setCacheValid way st False d) w s = line_at d w s" for w s
    by (simp add: line_at_def)
  ultimately show ?thesis
    unfolding cached_lines_def lines_but_def by (auto; metis)
qed

lemma fill_tags_ok:
  assumes "shape d" "tags_ok d" "way < ways_m d" "st < sets_m d"
    and "\<And>w. w < ways_m d \<Longrightarrow> getCacheValid d w st \<Longrightarrow> getCacheTag d w st \<noteq> t"
    and "\<And>w. w < way \<Longrightarrow> getCacheValid d w st"
  shows "tags_ok (setCacheTag way st t (setCacheValid way st True d))"
proof -
  let ?d = "setCacheTag way st t (setCacheValid way st True d)"
  have g: "getCacheValid ?d w s = (w = way \<and> s = st \<or> getCacheValid d w s)"
    "getCacheTag ?d w s = (if w = way \<and> s = st then t else getCacheTag d w s)"
    if "w < ways_m d" "s < sets_m d" for w s
    using that assms(1,3,4) by (auto simp: get_set)
  have "getCacheTag ?d w' s \<noteq> getCacheTag ?d w s"
    if "s < sets_m d" "w < ways_m d" "w' < w" "getCacheValid ?d w s" for s w w'
    using that g [of w s] g [of w' s] assms(2,3,5,6) unfolding tags_ok_def by (auto split: if_splits)
  then show ?thesis by (simp add: tags_ok_def)
qed

lemma inval_tags_ok:
  assumes "shape d" "tags_ok d" "way < ways_m d" "st < sets_m d"
  shows "tags_ok (setCacheValid way st False d)"
  using assms by (auto simp: tags_ok_def get_set)

text \<open>The outcome of an allocation of a line that is not cached.\<close>

definition victim_line :: "cache_dir \<Rightarrow> u64 \<Rightarrow> nat \<Rightarrow> nat" where
  "victim_line d vtag st = unat vtag * sets_m d + st"

lemma set_same:
  assumes "shape d" "way < ways_m d" "st < sets_m d" "getCacheValid d way st"
  shows "setCacheValid way st True d = d"
proof -
  have "(val_m d)[slot d way st := True] = val_m d"
    using assms(4) by (simp add: getCacheValid_def list_update_same_conv)
      (metis list_update_id)
  then show ?thesis by (simp add: setCacheValid_def)
qed

lemma fill_result:
  assumes "dir_inv d" "way < ways_m d" "st = getAddrSet d addr" "line_of d addr \<notin> cached_lines d"
    and "\<And>w. w < way \<Longrightarrow> getCacheValid d w st"
    and "d' = replUpdate way st (setCacheTag way st (getAddrTag d addr) (setCacheValid way st True d))"
  shows "dir_inv d'" "dims d' = dims d" "cached_lines d' = insert (line_of d addr) (lines_but d way st)"
proof -
  let ?d = "setCacheTag way st (getAddrTag d addr) (setCacheValid way st True d)"
  have inv: "shape d" "tags_ok d" "plru_ok d" "1 < ways_m d" using assms(1) by (simp_all add: dir_inv_def)
  have st: "st < sets_m d" using addr_split(1) [OF inv(1)] assms(3) by simp
  have miss: "getCacheTag d w st \<noteq> getAddrTag d addr" if "w < ways_m d" "getCacheValid d w st" for w
    using assms(3,4) that unfolding cached_iff [OF inv(1)] by blast
  have sh: "shape ?d" "way < ways_m ?d" "st < sets_m ?d" using inv(1) assms(2) st by simp_all
  have pl: "plru_ok ?d" using inv(3) by (simp add: plru_ok_def)
  have tg: "tags_ok ?d" by (rule fill_tags_ok) (use inv assms(2,5) st miss in auto)
  have "1 < ways_m d'" "dims d' = dims ?d"
    using replUpdate_keeps(2) [OF sh] inv(4) assms(6) by (simp_all add: dims_sizes)
  then show "dir_inv d'" "dims d' = dims d"
    using replUpdate_keeps(1,5) [OF sh] tg replUpdate_plru_ok [OF sh(1) pl] inv(4) sh assms(6)
    by (simp_all add: dir_inv_def dims_sizes)
  show "cached_lines d' = insert (line_of d addr) (lines_but d way st)"
    using replUpdate_keeps(6) [OF sh] fill_lines [OF inv(1) assms(2) st refl, of "getAddrTag d addr"]
      addr_split(2) [OF inv(1), of addr] assms(3,6) by simp
qed

lemma alloc_miss:
  assumes "dir_inv d" "line_of d addr \<notin> cached_lines d"
  shows "\<exists>evicted vtag way st d'. alloc addr d = Inr (evicted, vtag, way, st, d') \<and>
     way < ways_m d \<and> st = getAddrSet d addr \<and> dir_inv d' \<and> dims d' = dims d \<and>
     (evicted \<longrightarrow> victim_line d vtag st \<in> cached_lines d \<and> \<not> getCachePlru d way st \<and>
        vtag = getCacheTag d way st \<and> (\<forall>w < ways_m d. getCacheValid d w st)) \<and>
     cached_lines d' = insert (line_of d addr)
       (if evicted then cached_lines d - {victim_line d vtag st} else cached_lines d)"
proof -
  have inv: "shape d" "tags_ok d" "plru_ok d" using assms(1) by (simp_all add: dir_inv_def)
  define st where "st = getAddrSet d addr"
  have st: "st < sets_m d" using addr_split(1) [OF inv(1)] st_def by simp
  show ?thesis
  proof (cases "find (\<lambda>way. \<not> getCacheValid d way st) [0..<ways_m d]")
    case (Some way)
    then have w: "way < ways_m d" "\<not> getCacheValid d way st" "\<And>w. w < way \<Longrightarrow> getCacheValid d w st"
      by (auto simp: find_upt_Some)
    show ?thesis
      using fill_result [OF assms(1) w(1) st_def assms(2) w(3) refl] Some w st_def lines_but_invalid [OF w(2)]
      by (simp add: alloc_def repl_def Let_def) auto
  next
    case None
    then have all: "\<And>w. w < ways_m d \<Longrightarrow> getCacheValid d w st" by (simp add: find_upt_None)
    obtain way where f: "find (\<lambda>way. \<not> getCachePlru d way st) [0..<ways_m d] = Some way"
      using inv(3) st unfolding plru_ok_def by (metis find_upt_None not_None_eq)
    then have w: "way < ways_m d" "\<not> getCachePlru d way st" by (auto simp: find_upt_Some)
    have same: "setCacheValid way st True d = d"
      by (rule set_same [OF inv(1) w(1) st all [OF w(1)]])
    have but: "lines_but d way st = cached_lines d - {victim_line d (getCacheTag d way st) st}"
      using lines_but_valid [OF inv(2) w(1) st all [OF w(1)]] by (simp add: line_at_def victim_line_def)
    have "line_at d way st \<in> cached_lines d"
      unfolding cached_lines_def using w(1) st all [OF w(1)] by blast
    then have vin: "victim_line d (getCacheTag d way st) st \<in> cached_lines d"
      by (simp add: line_at_def victim_line_def)
    have lt: "w < way \<Longrightarrow> getCacheValid d w st" for w using all w(1) by simp
    show ?thesis
      using fill_result [OF assms(1) w(1) st_def assms(2) lt refl] None f w st_def all but vin
      unfolding same by (simp add: alloc_def repl_def Let_def) auto
  qed
qed

lemma access_lines:
  assumes "dir_inv d" "cache_access addr upd d = ((h, way, st), d')"
  shows "h \<longleftrightarrow> line_of d addr \<in> cached_lines d" "dir_inv d'" "dims d' = dims d" "cached_lines d' = cached_lines d"
proof -
  have inv: "shape d" "tags_ok d" "plru_ok d" "1 < ways_m d" using assms(1) by (simp_all add: dir_inv_def)
  obtain h0 way0 st0 where hit: "hit d addr = (h0, way0, st0)" by (cases "hit d addr")
  have h: "h = h0" using assms(2) hit by (simp add: cache_access_def split: if_splits)
  then show "h \<longleftrightarrow> line_of d addr \<in> cached_lines d" using hit_iff [OF inv(1), of addr] hit by simp
  have "dir_inv d' \<and> dims d' = dims d \<and> cached_lines d' = cached_lines d"
  proof (cases "h0 \<and> upd")
    case False
    then have "d' = d" using assms(2) hit by (auto simp: cache_access_def split: if_splits)
    then show ?thesis using assms(1) by simp
  next
    case True
    then have d': "d' = replUpdate way0 st0 d" using assms(2) hit by (auto simp: cache_access_def)
    have w: "way0 < ways_m d" "st0 < sets_m d"
      using hit_way(1,2) [of d addr way0 st0] hit True addr_split(1) [OF inv(1)] by auto
    show ?thesis
      using replUpdate_keeps [OF inv(1) w] replUpdate_plru_ok [OF inv(1,3,4) w] inv
      unfolding d' dir_inv_def by (simp add: dims_sizes)
  qed
  then show "dir_inv d'" "dims d' = dims d" "cached_lines d' = cached_lines d" by simp_all
qed

lemma inval_way_lines:
  assumes "dir_inv d" "way < ways_m d" "st < sets_m d" "inval_way way st d = Inr (was, d')"
  shows "was = getCacheValid d way st" "dir_inv d'" "dims d' = dims d"
    "cached_lines d' = (if was then cached_lines d - {line_at d way st} else cached_lines d)"
proof -
  have inv: "shape d" "tags_ok d" "plru_ok d" "1 < ways_m d" using assms(1) by (simp_all add: dir_inv_def)
  have d': "d' = setCacheValid way st False d" and was: "was = getCacheValid d way st"
    using assms(4) by (auto simp: inval_way_def split: if_splits)
  show "was = getCacheValid d way st" by (rule was)
  show "dir_inv d'" "dims d' = dims d"
    using inv inval_tags_ok [OF inv(1,2) assms(2,3)] by (simp_all add: d' dir_inv_def plru_ok_def dims_sizes)
  show "cached_lines d' = (if was then cached_lines d - {line_at d way st} else cached_lines d)"
    using inval_lines [OF inv(1) assms(2,3)] lines_but_valid [OF inv(2) assms(2,3)] lines_but_invalid [of d way st]
    by (simp add: d' was)
qed

lemma inval_addr_lines:
  assumes "dir_inv d" "inval_addr addr d = (found, d')"
  shows "line_of d addr \<in> cached_lines d \<longrightarrow> found" "dir_inv d'" "dims d' = dims d"
    "cached_lines d' = cached_lines d - {line_of d addr}"
proof -
  define st where "st = getAddrSet d addr"
  have inv: "shape d" "tags_ok d" "plru_ok d" "1 < ways_m d" using assms(1) by (simp_all add: dir_inv_def)
  have st: "st < sets_m d" using addr_split(1) [OF inv(1)] st_def by simp
  have goal: "(line_of d addr \<in> cached_lines d \<longrightarrow> found) \<and> dir_inv d' \<and> dims d' = dims d \<and>
      cached_lines d' = cached_lines d - {line_of d addr}"
  proof (cases "find (\<lambda>way. getCacheTag d way st = getAddrTag d addr) [0..<ways_m d]")
    case None
    then have "line_of d addr \<notin> cached_lines d"
      unfolding cached_iff [OF inv(1)] find_upt_None st_def by blast
    then show ?thesis using None assms by (simp add: inval_addr_def st_def Let_def)
  next
    case (Some way)
    then have w: "way < ways_m d" "getCacheTag d way st = getAddrTag d addr"
      by (auto simp: find_upt_Some)
    have line: "line_at d way st = line_of d addr"
      using line_at_eq [OF inv(1) st, of way addr] w(2) st_def by simp
    have d': "inval_way way st d = Inr (getCacheValid d way st, d')" "found"
      using assms(2) Some slot_less [OF w(1) st] inv(1)
      by (simp_all add: inval_addr_def inval_way_def st_def Let_def shape_def)
    note i = inval_way_lines [OF assms(1) w(1) st d'(1)]
    have "line_of d addr \<notin> cached_lines d" if "\<not> getCacheValid d way st"
    proof
      assume "line_of d addr \<in> cached_lines d"
      then obtain w' where w': "w' < ways_m d" "getCacheValid d w' st" "getCacheTag d w' st = getAddrTag d addr"
        unfolding cached_iff [OF inv(1)] st_def by blast
      then have "\<not> way < w'" using inv(2) st w(2) unfolding tags_ok_def by metis
      moreover have "way \<le> w'" using Some w' unfolding find_upt_Some by (meson not_le_imp_less)
      ultimately show False using that w'(2) by (simp add: order.antisym)
    qed
    then show ?thesis using i d'(2) line by (auto split: if_splits)
  qed
  then show "line_of d addr \<in> cached_lines d \<longrightarrow> found" "dir_inv d'" "dims d' = dims d"
    "cached_lines d' = cached_lines d - {line_of d addr}" by simp_all
qed

section \<open>The directory as a set of lines\<close>

text \<open>
  The contract the scoreboard relies on: a bounded set of lines with lookup, insertion that may
  evict one line, and removal. \<open>lines\<close> is the abstraction, \<open>good\<close> the representation invariant.
\<close>

locale line_set =
  fixes good :: "'d \<Rightarrow> bool" and lines :: "'d \<Rightarrow> nat set" and line :: "'d \<Rightarrow> 'a \<Rightarrow> nat"
    and look :: "'a \<Rightarrow> 'd \<Rightarrow> bool \<times> 'd" and ins :: "'a \<Rightarrow> 'd \<Rightarrow> (nat option \<times> 'd) res"
    and del :: "'a \<Rightarrow> 'd \<Rightarrow> 'd"
  assumes look_ok: "good d \<Longrightarrow> look a d = (h, d') \<Longrightarrow>
      (h \<longleftrightarrow> line d a \<in> lines d) \<and> good d' \<and> lines d' = lines d \<and> line d' = line d"
    and ins_ok: "good d \<Longrightarrow> line d a \<notin> lines d \<Longrightarrow> \<exists>v d'. ins a d = Inr (v, d') \<and> good d' \<and> line d' = line d \<and>
      lines d' = insert (line d a) (case v of None \<Rightarrow> lines d | Some l \<Rightarrow> lines d - {l}) \<and>
      (\<forall>l. v = Some l \<longrightarrow> l \<in> lines d)"
    and del_ok: "good d \<Longrightarrow> good (del a d) \<and> line (del a d) = line d \<and> lines (del a d) = lines d - {line d a}"
begin

text \<open>The use of the directory: look the line up and allocate it on a miss.\<close>

definition touch :: "'a \<Rightarrow> 'd \<Rightarrow> 'd res" where
  "touch a d = (let (h, d) = look a d in if h then Inr d else res_bind (ins a d) (\<lambda>(v, d). Inr d))"

lemma touch_ok:
  assumes "good d"
  shows "\<exists>d'. touch a d = Inr d' \<and> good d' \<and> line d' = line d \<and> line d a \<in> lines d' \<and>
     (\<exists>v. lines d' = insert (line d a) (lines d - v) \<and> v \<subseteq> lines d \<and> card v \<le> 1)"
proof -
  obtain h d1 where l: "look a d = (h, d1)" by fastforce
  note k = look_ok [OF assms l]
  show ?thesis
  proof (cases h)
    case True
    then show ?thesis
      using k l by (intro exI [of _ d1] conjI exI [of _ "{}"]) (auto simp: touch_def)
  next
    case False
    then have "line d1 a \<notin> lines d1" using k by simp
    then obtain v d2 where i: "ins a d1 = Inr (v, d2)" "good d2" "line d2 = line d1"
      "lines d2 = insert (line d1 a) (case v of None \<Rightarrow> lines d1 | Some l \<Rightarrow> lines d1 - {l})"
      "\<forall>l. v = Some l \<longrightarrow> l \<in> lines d1"
      using ins_ok k by blast
    then show ?thesis
      using k l False
      by (intro exI [of _ d2] conjI exI [of _ "set_option v"]) (auto simp: touch_def split: option.splits)
  qed
qed

lemma touch_then_look:
  assumes "good d" "touch a d = Inr d'"
  shows "fst (look a d')"
  using touch_ok [OF assms(1), of a] assms(2) look_ok [of d' a "fst (look a d')" "snd (look a d')"] by auto

lemma del_then_look:
  assumes "good d"
  shows "\<not> fst (look a (del a d))"
  using del_ok [OF assms, of a] look_ok [of "del a d" a "fst (look a (del a d))" "snd (look a (del a d))"] by auto

end

definition dir_look :: "bool \<Rightarrow> u64 \<Rightarrow> cache_dir \<Rightarrow> bool \<times> cache_dir" where
  "dir_look upd addr d = (let ((h, _), d') = cache_access addr upd d in (h, d'))"

definition dir_ins :: "u64 \<Rightarrow> cache_dir \<Rightarrow> (nat option \<times> cache_dir) res" where
  "dir_ins addr d = res_bind (alloc addr d) (\<lambda>(evicted, vtag, way, st, d').
     Inr (if evicted then Some (victim_line d vtag st) else None, d'))"

lemma line_of_dims: "dims d' = dims d \<Longrightarrow> line_of d' = line_of d"
  by (simp add: dims_sizes line_of_def fun_eq_iff)

interpretation dir: line_set dir_inv cached_lines line_of "dir_look upd" dir_ins "\<lambda>a d. snd (inval_addr a d)"
proof
  fix d a h d'
  assume d: "dir_inv d" and "dir_look upd a d = (h, d')"
  then obtain way st where "cache_access a upd d = ((h, way, st), d')"
    by (cases "cache_access a upd d") (auto simp: dir_look_def)
  note al = access_lines [OF d this]
  then show "(h \<longleftrightarrow> line_of d a \<in> cached_lines d) \<and> dir_inv d' \<and>
      cached_lines d' = cached_lines d \<and> line_of d' = line_of d"
    using line_of_dims [OF al(3)] by simp
next
  fix d a
  assume "dir_inv d" "line_of d a \<notin> cached_lines d"
  from alloc_miss [OF this] obtain evicted vtag way st d' where
    al: "alloc a d = Inr (evicted, vtag, way, st, d')" "dir_inv d'" "dims d' = dims d"
    "evicted \<longrightarrow> victim_line d vtag st \<in> cached_lines d"
    "cached_lines d' = insert (line_of d a) (if evicted then cached_lines d - {victim_line d vtag st} else cached_lines d)"
    by metis
  then show "\<exists>v d'. dir_ins a d = Inr (v, d') \<and> dir_inv d' \<and> line_of d' = line_of d \<and>
      cached_lines d' = insert (line_of d a) (case v of None \<Rightarrow> cached_lines d | Some l \<Rightarrow> cached_lines d - {l}) \<and>
      (\<forall>l. v = Some l \<longrightarrow> l \<in> cached_lines d)"
    using line_of_dims [OF al(3)]
    by (intro exI [of _ "if evicted then Some (victim_line d vtag st) else None"] exI [of _ d'])
      (auto simp: dir_ins_def)
next
  fix d a
  assume "dir_inv d"
  then have i: "dir_inv (snd (inval_addr a d))" "dims (snd (inval_addr a d)) = dims d"
    "cached_lines (snd (inval_addr a d)) = cached_lines d - {line_of d a}"
    using inval_addr_lines [of d a "fst (inval_addr a d)" "snd (inval_addr a d)"] by simp_all
  show "dir_inv (snd (inval_addr a d)) \<and> line_of (snd (inval_addr a d)) = line_of d \<and>
      cached_lines (snd (inval_addr a d)) = cached_lines d - {line_of d a}"
    using i line_of_dims [OF i(2)] by simp
qed

section \<open>Reachable directories\<close>

text \<open>
  A directory after \<open>reset\<close>, driven the way the scoreboard drives it: lookups that may update the
  replacement bits, allocation of lines that miss, and invalidations.
\<close>

inductive dir_reachable :: "nat \<Rightarrow> nat \<Rightarrow> nat \<Rightarrow> cache_dir \<Rightarrow> bool" where
  reset: "GenericCacheDirectoryPlru tags vals plrus nways nsets nbytes = Inr d \<Longrightarrow>
    dir_reachable nways nsets nbytes (plru_reset d)"
| access: "dir_reachable nways nsets nbytes d \<Longrightarrow> cache_access addr upd d = (r, d') \<Longrightarrow>
    dir_reachable nways nsets nbytes d'"
| alloc: "dir_reachable nways nsets nbytes d \<Longrightarrow> \<not> fst (hit d addr) \<Longrightarrow>
    alloc addr d = Inr (evicted, vtag, way, st, d') \<Longrightarrow> dir_reachable nways nsets nbytes d'"
| inval_addr: "dir_reachable nways nsets nbytes d \<Longrightarrow> inval_addr addr d = (found, d') \<Longrightarrow>
    dir_reachable nways nsets nbytes d'"
| inval_way: "dir_reachable nways nsets nbytes d \<Longrightarrow> way < ways_m d \<Longrightarrow> st < sets_m d \<Longrightarrow>
    inval_way way st d = Inr (was, d') \<Longrightarrow> dir_reachable nways nsets nbytes d'"

lemma reset_inv:
  assumes "GenericCacheDirectoryPlru tags vals plrus nways nsets nbytes = Inr d" "1 < nways" "nsets * nbytes < 2 ^ 64"
  shows "dir_inv (plru_reset d)" "dims (plru_reset d) = (nways, nsets, nbytes)" "cached_lines (plru_reset d) = {}"
proof -
  have sh: "shape d" and dm: "dims d = (nways, nsets, nbytes)"
    using assms by (auto simp: GenericCacheDirectoryPlru_def res_bind_Inr_iff shape_def dims_def)
  note c = plru_reset_cells [OF sh]
  show dm': "dims (plru_reset d) = (nways, nsets, nbytes)" using c dm by simp
  then have sz: "ways_m (plru_reset d) = nways" "sets_m (plru_reset d) = nsets"
    "ways_m d = nways" "sets_m d = nsets"
    using dm by (simp_all add: dims_def)
  show "dir_inv (plru_reset d)"
    using c assms(2) unfolding dir_inv_def tags_ok_def plru_ok_def sz by auto
  show "cached_lines (plru_reset d) = {}"
    using c unfolding cached_lines_def sz by auto
qed

lemma reachable_inv:
  assumes "dir_reachable nways nsets nbytes d" "1 < nways" "nsets * nbytes < 2 ^ 64"
  shows "dir_inv d \<and> dims d = (nways, nsets, nbytes)"
  using assms
proof induction
  case (reset tags vals plrus nways nsets nbytes d)
  then show ?case using reset_inv by blast
next
  case (access nways nsets nbytes d addr upd r d')
  then show ?case using access_lines(2,3) [of d addr upd "fst r" "fst (snd r)" "snd (snd r)" d'] by simp
next
  case (alloc nways nsets nbytes d addr evicted vtag way st d')
  then have inv: "dir_inv d" "dims d = (nways, nsets, nbytes)" by simp_all
  then have "line_of d addr \<notin> cached_lines d" using alloc.hyps(2) hit_iff [of d addr] by (simp add: dir_inv_def)
  from alloc_miss [OF inv(1) this] show ?case using alloc.hyps(3) inv(2) by auto
next
  case (inval_addr nways nsets nbytes d addr found d')
  then show ?case using inval_addr_lines(2,3) [of d addr found d'] by simp
next
  case (inval_way nways nsets nbytes d way st was d')
  then show ?case using inval_way_lines(2,3) [of d way st was d'] by simp
qed

text \<open>C23: a directory with at least two ways, used through lookups, allocations of missing lines and
  invalidations after a reset, always has one entry per cached line, a way that is not recently used
  in every set, and at most \<open>ways\<close> lines per set; an allocation never fails its assertion.\<close>

theorem directory_reachable_ok:
  assumes "dir_reachable nways nsets nbytes d" "1 < nways" "nsets * nbytes < 2 ^ 64"
  shows "dir_inv d \<and> repl addr d \<noteq> Inl AssertFailed \<and>
     card {l \<in> cached_lines d. l mod nsets = s} \<le> nways"
proof -
  have inv: "dir_inv d" and dm: "dims d = (nways, nsets, nbytes)"
    using reachable_inv [OF assms] by simp_all
  have sz: "ways_m d = nways" "sets_m d = nsets" using dm by (simp_all add: dims_def)
  have "repl addr d \<noteq> Inl AssertFailed"
  proof -
    have "getAddrSet d addr < sets_m d" using inv addr_split(1) by (simp add: dir_inv_def)
    then have "find (\<lambda>way. \<not> getCachePlru d way (getAddrSet d addr)) [0..<ways_m d] \<noteq> None"
      using inv unfolding dir_inv_def plru_ok_def find_upt_None by blast
    then show ?thesis by (auto simp: repl_def Let_def split: option.splits)
  qed
  moreover have "{l \<in> cached_lines d. l mod nsets = s} \<subseteq> (\<lambda>w. line_at d w s) ` {..<nways}"
    unfolding cached_lines_def sz by (auto simp: line_at_def sz)
  then have "card {l \<in> cached_lines d. l mod nsets = s} \<le> nways"
    by (metis card_lessThan finite_lessThan surj_card_le)
  ultimately show ?thesis using inv by simp
qed

definition sample_dir :: cache_dir where
  "sample_dir = plru_reset \<lparr>tag_m = replicate 4 7, val_m = replicate 4 True, plru_m = replicate 4 True,
     ways_m = 2, sets_m = 2, bytes_m = 64\<rparr>"

lemma sample_dir_new:
  "GenericCacheDirectoryPlru (\<lambda>_. 7) (\<lambda>_. True) (\<lambda>_. True) 2 2 64 =
     Inr \<lparr>tag_m = replicate 4 7, val_m = replicate 4 True, plru_m = replicate 4 True,
          ways_m = 2, sets_m = 2, bytes_m = 64\<rparr>"
  by (simp add: GenericCacheDirectoryPlru_def upt_rec numeral_eq_Suc)

lemma sample_dir_reachable: "dir_reachable 2 2 64 sample_dir"
  unfolding sample_dir_def by (rule dir_reachable.reset [OF sample_dir_new])

theorem directory_reachable_ok_witness:
  "dir_inv sample_dir \<and> repl 0x80 sample_dir \<noteq> Inl AssertFailed \<and>
     card {l \<in> cached_lines sample_dir. l mod 2 = 0} \<le> 2"
  using directory_reachable_ok [OF sample_dir_reachable] by simp

text \<open>C24: allocating a line that is not cached makes it cached and keeps every other line except the
  victim, which is reported with its tag and was the line of a way that is not recently used in a
  full set.\<close>

theorem alloc_refines:
  assumes "dir_inv d" "line_of d addr \<notin> cached_lines d"
  shows "\<exists>evicted vtag way st d'. alloc addr d = Inr (evicted, vtag, way, st, d') \<and>
     dir_inv d' \<and> fst (hit d' addr) \<and>
     (evicted \<longrightarrow> victim_line d vtag st \<in> cached_lines d \<and> \<not> getCachePlru d way st \<and>
        (\<forall>w < ways_m d. getCacheValid d w st)) \<and>
     cached_lines d' = insert (line_of d addr)
       (if evicted then cached_lines d - {victim_line d vtag st} else cached_lines d)"
proof -
  from alloc_miss [OF assms] obtain evicted vtag way st d' where
    a: "alloc addr d = Inr (evicted, vtag, way, st, d')" "dir_inv d'" "dims d' = dims d"
      "evicted \<longrightarrow> victim_line d vtag st \<in> cached_lines d \<and> \<not> getCachePlru d way st \<and>
        vtag = getCacheTag d way st \<and> (\<forall>w < ways_m d. getCacheValid d w st)"
      "cached_lines d' = insert (line_of d addr)
       (if evicted then cached_lines d - {victim_line d vtag st} else cached_lines d)"
    by metis
  have "fst (hit d' addr)"
    using hit_iff [of d' addr] a(2,5) line_of_dims [OF a(3)] by (simp add: dir_inv_def)
  then show ?thesis using a by blast
qed

lemma sample_dir_facts: "dir_inv sample_dir" "cached_lines sample_dir = {}"
  using reset_inv [OF sample_dir_new] unfolding sample_dir_def by simp_all

theorem alloc_refines_witness:
  "\<exists>evicted vtag way st d'. alloc 0x80 sample_dir = Inr (evicted, vtag, way, st, d') \<and> fst (hit d' 0x80)"
  using alloc_refines [OF sample_dir_facts(1), of "0x80"] sample_dir_facts(2) by auto

text \<open>An invalidation by address removes exactly the line of this address, and reports it when it
  was cached. (It may also report success for a line that is not cached, when a stale tag matches.)\<close>

lemma inval_refines:
  assumes "dir_inv d" "inval_addr addr d = (found, d')"
  shows "dir_inv d' \<and> cached_lines d' = cached_lines d - {line_of d addr} \<and> \<not> fst (hit d' addr) \<and>
     (line_of d addr \<in> cached_lines d \<longrightarrow> found)"
proof -
  note i = inval_addr_lines [OF assms]
  have "\<not> fst (hit d' addr)"
    using hit_iff [of d' addr] i(2,4) line_of_dims [OF i(3)] by (simp add: dir_inv_def)
  then show ?thesis using i by simp
qed

text \<open>C25: the line that was just accessed survives the next allocation, whatever line is allocated.\<close>

theorem plru_protects_recent:
  assumes "dir_inv d" "line_of d a \<in> cached_lines d" "cache_access a True d = (r, d1)"
    and "line_of d b \<notin> cached_lines d" "alloc b d1 = Inr (evicted, vtag, way, st, d2)"
  shows "line_of d a \<in> cached_lines d2"
proof -
  obtain h way0 st0 where hit: "hit d a = (h, way0, st0)" by (cases "hit d a")
  have sh: "shape d" "tags_ok d" using assms(1) by (simp_all add: dir_inv_def)
  have "h" using hit_iff [OF sh(1), of a] hit assms(2) by simp
  note w = hit_way [of d a way0 st0, unfolded hit] 
  have w0: "way0 < ways_m d" "st0 = getAddrSet d a" "getCacheTag d way0 st0 = getAddrTag d a"
    using w \<open>h\<close> by simp_all
  have st0: "st0 < sets_m d" using addr_split(1) [OF sh(1)] w0(2) by simp
  have d1: "d1 = replUpdate way0 st0 d" and r: "r = (h, way0, st0)"
    using assms(3) hit \<open>h\<close> by (simp_all add: cache_access_def)
  note ac = access_lines [OF assms(1) assms(3) [unfolded r]]
  have plru: "getCachePlru d1 way0 st0" using replUpdate_plru [OF sh(1) w0(1) st0 w0(1) st0] d1 by simp
  have tags: "getCacheTag d1 = getCacheTag d" "getCacheValid d1 = getCacheValid d"
    using replUpdate_keeps(3,4) [OF sh(1) w0(1) st0] d1 by simp_all
  have dm: "ways_m d1 = ways_m d" "sets_m d1 = sets_m d" using ac(3) by (simp_all add: dims_sizes)
  have "line_of d1 b \<notin> cached_lines d1" using assms(4) ac(4) line_of_dims [OF ac(3)] by simp
  from alloc_miss [OF ac(2) this] assms(5) have al: "st = getAddrSet d1 b" "way < ways_m d1"
      "evicted \<longrightarrow> \<not> getCachePlru d1 way st \<and> vtag = getCacheTag d1 way st \<and> (\<forall>w < ways_m d1. getCacheValid d1 w st)"
      "cached_lines d2 = insert (line_of d1 b)
        (if evicted then cached_lines d1 - {victim_line d1 vtag st} else cached_lines d1)"
    by auto
  show ?thesis
  proof (cases evicted)
    case False
    then show ?thesis using al(4) ac(4) assms(2) by simp
  next
    case True
    have st: "st < sets_m d" using al(1) addr_split(1) [of d1 b] ac(2) dm by (simp add: dir_inv_def)
    have "victim_line d1 vtag st = line_at d way st"
      using al(3) True tags dm by (simp add: victim_line_def line_at_def)
    moreover have "line_of d a = line_at d way0 st0"
      using line_at_eq [OF sh(1) st0, of way0 a] w0 by simp
    moreover have "line_at d way0 st0 \<noteq> line_at d way st"
    proof
      assume "line_at d way0 st0 = line_at d way st"
      then have eq: "st0 = st" "getCacheTag d way0 st0 = getCacheTag d way st"
        using line_at_inj [OF st0 st] by auto
      have "getCacheValid d way0 st" "getCacheValid d way st" using al(2,3) True tags dm w0(1) by simp_all
      then have "way0 = way" using tags_ok_unique [OF sh(2) st w0(1)] al(2) eq dm by simp
      then show False using plru al(3) True eq(1) by simp
    qed
    ultimately show ?thesis using al(4) True ac(4) assms(2) by simp
  qed
qed

definition full_dir :: cache_dir where
  "full_dir = \<lparr>tag_m = [1, 2], val_m = [True, True], plru_m = [False, True], ways_m = 2, sets_m = 1, bytes_m = 64\<rparr>"

lemma full_dir_facts:
  "dir_inv full_dir" "line_of full_dir 64 \<in> cached_lines full_dir" "line_of full_dir 192 \<notin> cached_lines full_dir"
proof -
  show inv: "dir_inv full_dir"
    by (auto simp: dir_inv_def shape_def tags_ok_def plru_ok_def full_dir_def less_2_cases_iff
        getCacheTag_def getCachePlru_def slot_def)
  have "fst (hit full_dir 64)" "\<not> fst (hit full_dir 192)"
    by (simp_all add: hit_def full_dir_def getAddrSet_def getAddrTag_def getCacheValid_def getCacheTag_def slot_def
        upt_rec)
  then show "line_of full_dir 64 \<in> cached_lines full_dir" "line_of full_dir 192 \<notin> cached_lines full_dir"
    using hit_iff [of full_dir] inv by (simp_all add: dir_inv_def)
qed

theorem plru_protects_recent_witness:
  "\<exists>d1 vtag d2. cache_access 64 True full_dir = ((True, 0, 0), d1) \<and> alloc 192 d1 = Inr (True, vtag, 1, 0, d2) \<and>
     line_of full_dir 64 \<in> cached_lines d2"
proof -
  have "cache_access 64 True full_dir = ((True, 0, 0), full_dir\<lparr>plru_m := [True, False]\<rparr>)"
    "alloc 192 (full_dir\<lparr>plru_m := [True, False]\<rparr>) = Inr (True, 2, 1, 0, full_dir\<lparr>tag_m := [1, 3], plru_m := [False, True]\<rparr>)"
    by code_simp+
  then show ?thesis
    using plru_protects_recent [OF full_dir_facts(1,2) _ full_dir_facts(3)] by blast
qed

text \<open>With a single way the replacement bit of a full set can never be cleared, so the allocation
  of a second line in this set fails the assertion.\<close>

lemma one_way_alloc_fails:
  assumes "shape d" "ways_m d = 1" "alloc a d = Inr (evicted, vtag, way, st, d')"
    and "getAddrSet d b = getAddrSet d a"
  shows "alloc b d' = Inl AssertFailed"
proof -
  define s where "s = getAddrSet d a"
  have s: "s < sets_m d" using addr_split(1) [OF assms(1)] s_def by simp
  have f: "find P [0..<1] = (if P 0 then Some 0 else None)" for P :: "nat \<Rightarrow> bool" by simp
  obtain v where d': "d' = replUpdate 0 s (setCacheTag 0 s (getAddrTag d a) (if v then setCacheValid 0 s True d else d))"
      "\<not> v \<longrightarrow> getCacheValid d 0 s"
  proof -
    have "(\<exists>v. d' = replUpdate 0 s (setCacheTag 0 s (getAddrTag d a) (if v then setCacheValid 0 s True d else d)) \<and>
        (\<not> v \<longrightarrow> getCacheValid d 0 s))"
      using assms(2,3) unfolding alloc_def repl_def Let_def s_def [symmetric] assms(2) f
      by (cases "getCacheValid d 0 s") (auto split: if_splits intro: exI [of _ True] exI [of _ False])
    then show thesis using that by blast
  qed
  let ?d = "setCacheTag 0 s (getAddrTag d a) (if v then setCacheValid 0 s True d else d)"
  have sh: "shape ?d" "0 < ways_m ?d" "s < sets_m ?d" using assms(1,2) s by auto
  have "getCacheValid ?d 0 s" using d'(2) assms(1,2) s by (auto simp: get_set)
  then have v: "getCacheValid d' 0 s" using replUpdate_keeps(3) [OF sh] d'(1) by simp
  have p: "getCachePlru d' 0 s" using replUpdate_plru [OF sh sh(2,3)] d'(1) by simp
  have "dims d' = dims d" using replUpdate_keeps(2) [OF sh] d'(1) by (auto simp: dims_sizes)
  then have "getAddrSet d' b = s" "ways_m d' = 1"
    using assms(2,4) by (auto simp: dims_sizes getAddrSet_def s_def)
  then show ?thesis using v p by (simp add: alloc_def repl_def Let_def f)
qed

end
