(* ===== verification/Mem_Model.thy ===== *)
theory Mem_Model
  imports Prelude
begin

text \<open>
  The memory behind the cache in the testbench,
  \<^verbatim>\<open>sc_verif_lib/modules/mem_model/include/mem_model.h\<close>: 64-bit words in a \<^verbatim>\<open>std::map\<close>, filled
  with random words on first access. The values of \<^verbatim>\<open>rand()\<close> are the stream \<open>rnd\<close>, of which the
  state counts the calls.
\<close>

section \<open>Masked stores\<close>

text \<open>
  The contract of a word store with masked writes: a read returns the current word and keeps it, a
  masked write replaces exactly the selected bits, and the words at other addresses that were
  already \<open>known\<close> stay as they are.
\<close>

locale masked_store =
  fixes rd :: "'s \<Rightarrow> 'a \<Rightarrow> 'w::len word \<times> 's" and wr :: "'s \<Rightarrow> 'a \<Rightarrow> 'w word \<Rightarrow> 'w word \<Rightarrow> 's"
    and known :: "'s \<Rightarrow> 'a \<Rightarrow> bool"
  assumes rd_known: "known (snd (rd s a)) a" "known (wr s a w m) a"
    and rd_keeps: "known s b \<Longrightarrow> known (snd (rd s a)) b \<and> fst (rd (snd (rd s a)) b) = fst (rd s b)"
    and rd_again: "fst (rd (snd (rd s a)) a) = fst (rd s a)"
    and wr_same: "fst (rd (wr s a w m) a) = merge_mask (fst (rd s a)) w m"
    and wr_other: "b \<noteq> a \<Longrightarrow> known s b \<Longrightarrow> known (wr s a w m) b \<and> fst (rd (wr s a w m) b) = fst (rd s b)"
begin

lemma wr_full: "fst (rd (wr s a w (- 1)) a) = w"
  by (simp add: wr_same)

lemma wr_wr:
  "fst (rd (wr (wr s a v m) a w n) a) = merge_mask (fst (rd s a)) (merge_mask v w n) (m OR n)"
  by (simp add: wr_same merge_mask_twice)

lemma wr_commute:
  "m AND n = 0 \<Longrightarrow> fst (rd (wr (wr s a v m) a w n) a) = fst (rd (wr (wr s a w n) a v m) a)"
  unfolding wr_same by (rule merge_mask_commute)

text \<open>A sequence of writes: what a later read of a known address returns is the merge of the writes
  to this address, in order.\<close>

definition writes_seq :: "('a \<times> 'w word \<times> 'w word) list \<Rightarrow> 's \<Rightarrow> 's" where
  "writes_seq ws s = fold (\<lambda>(a, w, m) s. wr s a w m) ws s"

lemma writes_seq_read:
  assumes "known s a"
  shows "fst (rd (writes_seq ws s) a) =
     fold (\<lambda>(a', w, m) v. if a' = a then merge_mask v w m else v) ws (fst (rd s a))"
  using assms
proof (induction ws arbitrary: s)
  case (Cons x ws)
  obtain a' w m where x: "x = (a', w, m)" by (cases x) auto
  show ?case
    using Cons.IH [of "wr s a' w m"] Cons.prems wr_other [of a a' s w m] rd_known(2) [of s a w m]
    by (cases "a' = a") (simp_all add: writes_seq_def x wr_same)
qed (simp add: writes_seq_def)

end

section \<open>The memory\<close>

record mem_model =
  mem_array_m :: "(u64, u64) std_map"
  init_random :: bool
  init_val_m :: u64
  rand_calls :: nat

text \<open>The constructor ignores its mode argument: the memory is always initialised at random.\<close>

definition mem_model_new :: "bool \<Rightarrow> u64 \<Rightarrow> nat \<Rightarrow> mem_model" where
  "mem_model_new init_mode init_val calls =
     \<lparr>mem_array_m = [], init_random = True, init_val_m = init_val, rand_calls = calls\<rparr>"

definition init_value :: "(nat \<Rightarrow> u64) \<Rightarrow> mem_model \<Rightarrow> u64 \<times> mem_model" where
  "init_value rnd m =
     (if init_random m
      then (push_bit 32 (rnd (rand_calls m)) OR rnd (rand_calls m + 1), m\<lparr>rand_calls := rand_calls m + 2\<rparr>)
      else (init_val_m m, m))"

definition readMemory :: "(nat \<Rightarrow> u64) \<Rightarrow> mem_model \<Rightarrow> u64 \<Rightarrow> u64 \<times> mem_model" where
  "readMemory rnd m word_addr =
     (case map_find (mem_array_m m) word_addr of
        Some v \<Rightarrow> (v, m)
      | None \<Rightarrow>
          (let (value, m) = init_value rnd m
           in (value, m\<lparr>mem_array_m := map_insert word_addr value (mem_array_m m)\<rparr>)))"

definition writeMemory :: "(nat \<Rightarrow> u64) \<Rightarrow> mem_model \<Rightarrow> u64 \<Rightarrow> u64 \<Rightarrow> u64 \<Rightarrow> mem_model" where
  "writeMemory rnd m word_addr data msk =
     (case map_find (mem_array_m m) word_addr of
        Some v \<Rightarrow> m\<lparr>mem_array_m := map_set word_addr ((v AND NOT msk) OR (data AND msk)) (mem_array_m m)\<rparr>
      | None \<Rightarrow>
          (let (value, m) = init_value rnd m
           in m\<lparr>mem_array_m := map_insert word_addr ((value AND NOT msk) OR (data AND msk)) (mem_array_m m)\<rparr>))"

definition beToMask :: "u8 \<Rightarrow> u64" where
  "beToMask be =
     for_upto 8 (\<lambda>j msk. if drop_bit j be AND 1 \<noteq> 0 then msk OR push_bit (j * 8) 0xff else msk) 0"

lemma init_value_array [simp]: "mem_array_m (snd (init_value rnd m)) = mem_array_m m"
  by (simp add: init_value_def)

lemma drop_bit_and_one: "drop_bit j (w :: 'a::len word) AND 1 \<noteq> 0 \<longleftrightarrow> bit w j"
proof -
  have "drop_bit j w AND 1 = of_bool (bit w j)"
    by (simp add: and_one_eq mod2_eq_if bit_iff_odd_drop_bit)
  then show ?thesis by simp
qed

lemma bit_0xff: "bit (0xff :: 'a::len word) k \<longleftrightarrow> k < 8 \<and> k < LENGTH('a)"
proof -
  have eq: "(0xff :: 'a word) = mask 8" by (simp add: mask_eq_exp_minus_1)
  show ?thesis unfolding eq bit_mask_iff by (auto simp: possible_bit_def)
qed

lemma bit_beToMask [bitwise]: "bit (beToMask be) n \<longleftrightarrow> n < 64 \<and> bit be (n div 8)"
proof -
  have "bit (for_upto k (\<lambda>j msk. if drop_bit j be AND 1 \<noteq> 0 then msk OR push_bit (j * 8) 0xff else msk) 0 :: u64) n
      \<longleftrightarrow> n < 64 \<and> n div 8 < k \<and> bit be (n div 8)" for k
  proof (induction k)
    case (Suc k)
    have "bit (push_bit (k * 8) 0xff :: u64) n \<longleftrightarrow> n < 64 \<and> n div 8 = k"
      unfolding bit_push_bit_iff bit_0xff by auto
    then show ?case
      using Suc by (auto simp: drop_bit_and_one bit_or_iff less_Suc_eq simp del: bit_push_bit_iff)
  qed simp
  moreover have "bit be (n div 8) \<Longrightarrow> n div 8 < 8" using bit_imp_le_length [of be "n div 8"] by simp
  ultimately show ?thesis unfolding beToMask_def by blast
qed

text \<open>The memory honours the contract of a masked store.\<close>

interpretation mm: masked_store "readMemory rnd" "writeMemory rnd" "\<lambda>m a. map_find (mem_array_m m) a \<noteq> None"
  by unfold_locales
    (auto simp: readMemory_def writeMemory_def merge_mask_def map_find_insert case_prod_beta
      split: option.splits)

text \<open>What the memory returns after any sequence of masked writes: for an address that was read
  or written before, the merge of the writes to this address in program order, whatever the other
  addresses and the random initial values.\<close>

lemma memory_reads_merge:
  assumes "map_find (mem_array_m m) a = Some v"
  shows "fst (readMemory rnd (fold (\<lambda>(a', w, k) m. writeMemory rnd m a' w k) ws m) a) =
     fold (\<lambda>(a', w, k) v. if a' = a then merge_mask v w k else v) ws v"
  using mm.writes_seq_read [of m a rnd ws] assms
  by (simp add: mm.writes_seq_def readMemory_def)

text \<open>The first write to an address merges into the same word that a first read would return,
  and that word is then stable: reads repeat it.\<close>

lemma memory_first_write:
  "fst (readMemory rnd (writeMemory rnd m a w k) a) = merge_mask (fst (readMemory rnd m a)) w k \<and>
   fst (readMemory rnd (snd (readMemory rnd m a)) a) = fst (readMemory rnd m a)"
  using mm.wr_same mm.rd_again by blast

end
