(* ===== verification/Ram_Model.thy ===== *)
theory Ram_Model
  imports Mem_Model
begin

text \<open>
  The scoreboard's copy of the memory, \<^verbatim>\<open>sc_verif_lib/modules/mem_model/include/ram_model.h\<close>: an
  array of \<open>N\<close> bytes and a bitmap of the bytes that have been written. An index past the end of an
  array is \<open>OutOfBounds\<close>.
\<close>

record ram_model =
  mem_m :: "u8 list"
  bmap_m :: "u8 list"

definition ram_new :: "nat \<Rightarrow> (nat \<Rightarrow> u8) \<Rightarrow> ram_model" where
  "ram_new N junk = \<lparr>mem_m = map junk [0..<N], bmap_m = replicate (N div 8) 0\<rparr>"

definition getBit :: "u8 \<Rightarrow> nat \<Rightarrow> nat" where
  "getBit byte pos = unat (drop_bit pos byte AND 1)"

definition setBit :: "nat \<Rightarrow> u8 \<Rightarrow> u8" where
  "setBit pos byte = byte OR push_bit pos 1"

definition getBmap :: "nat \<Rightarrow> ram_model \<Rightarrow> nat \<Rightarrow> bool" where
  "getBmap N r addr = (let off = addr mod N in getBit (bmap_m r ! (off div 8)) (off mod 8) \<noteq> 0)"

definition setBmap :: "nat \<Rightarrow> nat \<Rightarrow> ram_model \<Rightarrow> ram_model" where
  "setBmap N addr r =
     (let off = addr mod N
      in r\<lparr>bmap_m := (bmap_m r)[off div 8 := setBit (off mod 8) (bmap_m r ! (off div 8))]\<rparr>)"

definition ram_read_byte :: "nat \<Rightarrow> ram_model \<Rightarrow> nat \<Rightarrow> nat \<Rightarrow> u8 list \<times> u8 list \<Rightarrow> (u8 list \<times> u8 list) res" where
  "ram_read_byte N r off i = (\<lambda>(buf, valid).
     if off + i < length (mem_m r)
     then Inr (buf @ [mem_m r ! (off + i)],
               if getBmap N r (off + i) then valid[i div 8 := setBit (i mod 8) (valid ! (i div 8))] else valid)
     else Inl OutOfBounds)"

definition ram_read :: "nat \<Rightarrow> ram_model \<Rightarrow> nat \<Rightarrow> u64 \<Rightarrow> (u8 list \<times> u8 list) res" where
  "ram_read N r n addr =
     (let off = unat addr mod N
      in for_res (ram_read_byte N r off) [0..<n] ([], replicate ((n + 7) div 8) 0))"

definition ram_write_byte :: "nat \<Rightarrow> u8 list \<Rightarrow> u8 list \<Rightarrow> nat \<Rightarrow> nat \<Rightarrow> ram_model \<Rightarrow> ram_model res" where
  "ram_write_byte N buf be off i r =
     (if getBit (be ! (i div 8)) (i mod 8) \<noteq> 0
      then if off + i < length (mem_m r)
           then Inr (setBmap N (off + i) (r\<lparr>mem_m := (mem_m r)[off + i := buf ! i]\<rparr>))
           else Inl OutOfBounds
      else Inr r)"

definition ram_write :: "nat \<Rightarrow> ram_model \<Rightarrow> u8 list \<Rightarrow> u8 list \<Rightarrow> nat \<Rightarrow> u64 \<Rightarrow> ram_model res" where
  "ram_write N r buf be n addr =
     (let off = unat addr mod N in for_res (ram_write_byte N buf be off) [0..<n] r)"

section \<open>Bytes and written marks\<close>

lemma getBit_bit: "getBit b k \<noteq> 0 \<longleftrightarrow> bit b k" "0 < getBit b k \<longleftrightarrow> bit b k" "getBit b k = 0 \<longleftrightarrow> \<not> bit b k"
  using drop_bit_and_one [of k b] unat_eq_zero [of "drop_bit k b AND 1"] by (auto simp: getBit_def)

lemma bit_setBit: "k < 8 \<Longrightarrow> bit (setBit k b) j \<longleftrightarrow> j = k \<or> bit b j"
  by (auto simp: setBit_def bit_or_iff push_bit_eq_mult bit_exp_iff)

definition ram_wf :: "nat \<Rightarrow> ram_model \<Rightarrow> bool" where
  "ram_wf N r \<longleftrightarrow> 0 < N \<and> 8 dvd N \<and> length (mem_m r) = N \<and> length (bmap_m r) = N div 8"

definition written :: "ram_model \<Rightarrow> nat \<Rightarrow> bool" where
  "written r a \<longleftrightarrow> bit (bmap_m r ! (a div 8)) (a mod 8)"

definition enabled :: "u8 list \<Rightarrow> nat \<Rightarrow> bool" where
  "enabled be i \<longleftrightarrow> bit (be ! (i div 8)) (i mod 8)"

lemma getBmap_written: "a < N \<Longrightarrow> getBmap N r a = written r a"
  unfolding getBmap_def written_def Let_def getBit_bit by simp

lemma ram_write_byte_ok:
  assumes "ram_wf N r" "off + i < N"
  shows "\<exists>r'. ram_write_byte N buf be off i r = Inr r' \<and> ram_wf N r' \<and>
     (\<forall>a < N. mem_m r' ! a = (if a = off + i \<and> enabled be i then buf ! i else mem_m r ! a) \<and>
              written r' a = (a = off + i \<and> enabled be i \<or> written r a))"
proof (cases "enabled be i")
  case False
  then show ?thesis using assms(1) by (simp add: ram_write_byte_def getBit_bit enabled_def)
next
  case True
  let ?k = "off + i"
  let ?r = "setBmap N ?k (r\<lparr>mem_m := (mem_m r)[?k := buf ! i]\<rparr>)"
  have k: "?k div 8 < length (bmap_m r)"
    using assms by (auto simp: ram_wf_def less_mult_imp_div_less elim!: dvdE)
  have "written ?r a = (a = ?k \<or> written r a)" for a
  proof (cases "a div 8 = ?k div 8")
    case same: True
    then have "a mod 8 = ?k mod 8 \<longleftrightarrow> a = ?k" by (metis mod_div_mult_eq)
    then show ?thesis using same k assms(2) by (simp add: written_def setBmap_def Let_def bit_setBit)
  next
    case diff: False
    then have "a \<noteq> ?k" by blast
    then show ?thesis using diff assms(2) by (simp add: written_def setBmap_def Let_def)
  qed
  moreover have "mem_m ?r = (mem_m r)[?k := buf ! i]" "ram_wf N ?r"
    using assms(1) by (simp_all add: setBmap_def Let_def ram_wf_def)
  ultimately show ?thesis
    using assms True by (simp add: ram_write_byte_def getBit_bit enabled_def ram_wf_def nth_list_update)
qed

lemma ram_write_ok:
  assumes "ram_wf N r" "off = unat addr mod N" "off + n \<le> N"
  shows "\<exists>r'. ram_write N r buf be n addr = Inr r' \<and> ram_wf N r' \<and>
     (\<forall>a < N. mem_m r' ! a = (if off \<le> a \<and> a < off + n \<and> enabled be (a - off) then buf ! (a - off) else mem_m r ! a) \<and>
              written r' a = (off \<le> a \<and> a < off + n \<and> enabled be (a - off) \<or> written r a))"
  unfolding ram_write_def assms(2) [symmetric] Let_def
proof (rule for_res_invariant [where a = 0 and P = "\<lambda>k r'. ram_wf N r' \<and>
     (\<forall>a < N. mem_m r' ! a = (if off \<le> a \<and> a < off + k \<and> enabled be (a - off) then buf ! (a - off) else mem_m r ! a) \<and>
              written r' a = (off \<le> a \<and> a < off + k \<and> enabled be (a - off) \<or> written r a))"])
  fix i s
  assume i: "i \<in> set [0..<n]" and P: "ram_wf N s \<and>
     (\<forall>a < N. mem_m s ! a = (if off \<le> a \<and> a < off + i \<and> enabled be (a - off) then buf ! (a - off) else mem_m r ! a) \<and>
              written s a = (off \<le> a \<and> a < off + i \<and> enabled be (a - off) \<or> written r a))"
  have "off + i < N" using i assms(3) by simp
  from ram_write_byte_ok [OF conjunct1 [OF P] this, of buf be] obtain s' where
    s': "ram_write_byte N buf be off i s = Inr s'" "ram_wf N s'"
      "\<forall>a < N. mem_m s' ! a = (if a = off + i \<and> enabled be i then buf ! i else mem_m s ! a) \<and>
              written s' a = (a = off + i \<and> enabled be i \<or> written s a)"
    by blast
  have step: "off \<le> a \<and> a < off + Suc i \<longleftrightarrow> a = off + i \<or> off \<le> a \<and> a < off + i" for a by auto
  show "\<exists>s'. ram_write_byte N buf be off i s = Inr s' \<and> ram_wf N s' \<and>
     (\<forall>a < N. mem_m s' ! a = (if off \<le> a \<and> a < off + Suc i \<and> enabled be (a - off) then buf ! (a - off) else mem_m r ! a) \<and>
              written s' a = (off \<le> a \<and> a < off + Suc i \<and> enabled be (a - off) \<or> written r a))"
    using s' P by (intro exI [of _ s']) (auto simp: less_Suc_eq)
qed (use assms(1) in auto)

lemma ram_read_ok:
  assumes "ram_wf N r" "off = unat addr mod N" "off + n \<le> N"
  shows "\<exists>valid. ram_read N r n addr = Inr (map (\<lambda>i. mem_m r ! (off + i)) [0..<n], valid) \<and>
     length valid = (n + 7) div 8 \<and> (\<forall>i < n. enabled valid i = written r (off + i))"
proof -
  let ?P = "\<lambda>k (buf, valid). buf = map (\<lambda>i. mem_m r ! (off + i)) [0..<k] \<and>
     length valid = (n + 7) div 8 \<and> (\<forall>i < n. enabled valid i = (i < k \<and> written r (off + i)))"
  have "\<exists>s. for_res (ram_read_byte N r off) [0..<n] ([], replicate ((n + 7) div 8) 0) = Inr s \<and> ?P n s"
  proof (rule for_res_invariant [where a = 0 and P = ?P])
    have "i div 8 < (n + 7) div 8" if "i < n" for i :: nat using that by linarith
    then show "?P 0 ([], replicate ((n + 7) div 8) 0)" by (simp add: enabled_def)
    fix i s
    assume i: "i \<in> set [0..<n]" and P: "?P i s"
    obtain buf valid where s: "s = (buf, valid)" by (cases s)
    have k: "off + i < length (mem_m r)" "off + i < N" using i assms by (simp_all add: ram_wf_def)
    have d: "i div 8 < length valid" using i P s by auto
    have b: "enabled (valid[i div 8 := setBit (i mod 8) (valid ! (i div 8))]) j = (j = i \<or> enabled valid j)" for j
    proof (cases "j div 8 = i div 8")
      case same: True
      then have "j mod 8 = i mod 8 \<longleftrightarrow> j = i" by (metis mod_div_mult_eq)
      then show ?thesis using same d by (simp add: enabled_def bit_setBit)
    next
      case False
      then have "j \<noteq> i" by blast
      then show ?thesis using False by (simp add: enabled_def)
    qed
    show "\<exists>s'. ram_read_byte N r off i s = Inr s' \<and> ?P (Suc i) s'"
      using P s k b i getBmap_written [OF k(2), of r]
      by (auto simp: ram_read_byte_def less_Suc_eq)
  qed simp_all
  then show ?thesis unfolding ram_read_def assms(2) [symmetric] Let_def by auto
qed

text \<open>A read of the scoreboard's memory after a write to the same place returns the written byte in
  every enabled lane and the old byte elsewhere, and reports a byte as valid exactly if it was just
  written or had been written before.\<close>

lemma ram_read_after_write:
  assumes "ram_wf N r" "off = unat addr mod N" "off + n \<le> N"
  shows "\<exists>r' bytes valid. ram_write N r buf be n addr = Inr r' \<and> ram_wf N r' \<and>
     ram_read N r' n addr = Inr (bytes, valid) \<and> length bytes = n \<and>
     (\<forall>i < n. bytes ! i = (if enabled be i then buf ! i else mem_m r ! (off + i)) \<and>
              enabled valid i = (enabled be i \<or> written r (off + i)))"
proof -
  obtain r' where r': "ram_write N r buf be n addr = Inr r'" "ram_wf N r'"
    "\<forall>a < N. mem_m r' ! a = (if off \<le> a \<and> a < off + n \<and> enabled be (a - off) then buf ! (a - off) else mem_m r ! a) \<and>
              written r' a = (off \<le> a \<and> a < off + n \<and> enabled be (a - off) \<or> written r a)"
    using ram_write_ok [OF assms] by blast
  obtain valid where "ram_read N r' n addr = Inr (map (\<lambda>i. mem_m r' ! (off + i)) [0..<n], valid)"
    "\<forall>i < n. enabled valid i = written r' (off + i)"
    using ram_read_ok [OF r'(2) assms(2,3)] by blast
  then show ?thesis
    using r' assms(3) by (intro exI [of _ r'] exI [of _ "map (\<lambda>i. mem_m r' ! (off + i)) [0..<n]"] exI [of _ valid]) auto
qed

end
