(* ===== verification/Transaction.thy ===== *)
theory Transaction
  imports Ostream
begin

text \<open>
  The transactions of the cache testbench, \<^verbatim>\<open>rtl/dcache/rtl/tb/hpdcache_test_transaction.h\<close>:
  requests and responses of the core and of the memory, their classification, and the text they are
  logged with. The bit vectors \<^verbatim>\<open>sc_bv<n>\<close> are words of the widths of the default configuration in
  \<^verbatim>\<open>hpdcache_test_defs.h\<close>; SystemC's printing of a bit vector is the parameter \<open>bv\<close>, applied to its
  width and its value.
\<close>

section \<open>The default configuration\<close>

definition TEST_DEFS_LOG2 :: "nat \<Rightarrow> nat" where
  "TEST_DEFS_LOG2 x =
     (if x \<le> 1 then 0 else if x \<le> 2 then 1 else if x \<le> 4 then 2 else if x \<le> 8 then 3
      else if x \<le> 16 then 4 else if x \<le> 32 then 5 else if x \<le> 64 then 6 else if x \<le> 128 then 7
      else if x \<le> 256 then 8 else if x \<le> 512 then 9 else if x \<le> 1024 then 10 else if x \<le> 2048 then 11
      else if x \<le> 4096 then 12 else if x \<le> 8192 then 13 else if x \<le> 16384 then 14 else 0)"

definition SCOREBOARD_RAM_SIZE :: nat where "SCOREBOARD_RAM_SIZE = 16 * 2 ^ 20"
definition HPDCACHE_WAYS :: nat where "HPDCACHE_WAYS = 8"
definition HPDCACHE_SETS :: nat where "HPDCACHE_SETS = 64"
definition HPDCACHE_CL_WORDS :: nat where "HPDCACHE_CL_WORDS = 8"
definition HPDCACHE_WORD_WIDTH :: nat where "HPDCACHE_WORD_WIDTH = 64"
definition HPDCACHE_MSHR_SETS :: nat where "HPDCACHE_MSHR_SETS = 1"
definition HPDCACHE_MSHR_WAYS :: nat where "HPDCACHE_MSHR_WAYS = 8"
definition HPDCACHE_PA_WIDTH :: nat where "HPDCACHE_PA_WIDTH = 49"
definition HPDCACHE_REQ_WORDS :: nat where "HPDCACHE_REQ_WORDS = 1"
definition HPDCACHE_REQ_DATA_WIDTH :: nat where
  "HPDCACHE_REQ_DATA_WIDTH = HPDCACHE_REQ_WORDS * HPDCACHE_WORD_WIDTH"
definition HPDCACHE_MEM_DATA_WIDTH :: nat where "HPDCACHE_MEM_DATA_WIDTH = 512"
definition HPDCACHE_MEM_ID_WIDTH :: nat where "HPDCACHE_MEM_ID_WIDTH = 4"
definition HPDCACHE_WBUF_WORDS :: nat where "HPDCACHE_WBUF_WORDS = 2"
definition HPDCACHE_REQ_SRC_ID_WIDTH :: nat where "HPDCACHE_REQ_SRC_ID_WIDTH = 3"
definition HPDCACHE_REQ_TRANS_ID_WIDTH :: nat where "HPDCACHE_REQ_TRANS_ID_WIDTH = 6"
definition NREQUESTERS :: nat where "NREQUESTERS = 8"
definition HPDCACHE_SET_WIDTH :: nat where "HPDCACHE_SET_WIDTH = TEST_DEFS_LOG2 HPDCACHE_SETS"
definition HPDCACHE_CL_OFFSET_WIDTH :: nat where
  "HPDCACHE_CL_OFFSET_WIDTH = TEST_DEFS_LOG2 (HPDCACHE_CL_WORDS * HPDCACHE_WORD_WIDTH div 8)"
definition HPDCACHE_NLINE_WIDTH :: nat where
  "HPDCACHE_NLINE_WIDTH = HPDCACHE_PA_WIDTH - HPDCACHE_CL_OFFSET_WIDTH"
definition HPDCACHE_TAG_WIDTH :: nat where "HPDCACHE_TAG_WIDTH = HPDCACHE_NLINE_WIDTH - HPDCACHE_SET_WIDTH"
definition HPDCACHE_ADDR_OFFSET_WIDTH :: nat where
  "HPDCACHE_ADDR_OFFSET_WIDTH = HPDCACHE_PA_WIDTH - HPDCACHE_TAG_WIDTH"
definition HPDCACHE_CORE_REQ_WIDTH :: nat where
  "HPDCACHE_CORE_REQ_WIDTH =
     HPDCACHE_ADDR_OFFSET_WIDTH + HPDCACHE_REQ_DATA_WIDTH + 5 + HPDCACHE_REQ_DATA_WIDTH div 8 + 3 +
     HPDCACHE_REQ_SRC_ID_WIDTH + HPDCACHE_REQ_TRANS_ID_WIDTH + 1 + 1 + HPDCACHE_TAG_WIDTH + 5"
definition HPDCACHE_CORE_RSP_WIDTH :: nat where
  "HPDCACHE_CORE_RSP_WIDTH =
     HPDCACHE_REQ_DATA_WIDTH + HPDCACHE_REQ_SRC_ID_WIDTH + HPDCACHE_REQ_TRANS_ID_WIDTH + 1 + 1"

lemmas config_defs =
  TEST_DEFS_LOG2_def HPDCACHE_SETS_def HPDCACHE_CL_WORDS_def HPDCACHE_WORD_WIDTH_def HPDCACHE_PA_WIDTH_def
  HPDCACHE_REQ_WORDS_def HPDCACHE_REQ_DATA_WIDTH_def HPDCACHE_SET_WIDTH_def HPDCACHE_CL_OFFSET_WIDTH_def
  HPDCACHE_NLINE_WIDTH_def HPDCACHE_TAG_WIDTH_def HPDCACHE_ADDR_OFFSET_WIDTH_def HPDCACHE_CORE_REQ_WIDTH_def
  HPDCACHE_CORE_RSP_WIDTH_def HPDCACHE_REQ_SRC_ID_WIDTH_def HPDCACHE_REQ_TRANS_ID_WIDTH_def

section \<open>Requests and responses of the core\<close>

datatype wr_policy_hint = WR_POLICY_AUTO | WR_POLICY_WB | WR_POLICY_WT

record core_req =
  req_addr :: "49 word"
  req_wdata :: u64
  req_op :: "5 word"
  req_be :: u8
  req_size :: "3 word"
  req_sid :: "3 word"
  req_tid :: "6 word"
  req_need_rsp :: bool
  req_phys_indexed :: bool
  req_uncacheable :: bool
  req_io :: bool
  req_wr_policy_hint :: wr_policy_hint
  req_abort :: bool

definition new_core_req :: core_req where
  "new_core_req = \<lparr>req_addr = 0, req_wdata = 0, req_op = 0, req_be = 0, req_size = 0, req_sid = 0, req_tid = 0,
     req_need_rsp = False, req_phys_indexed = False, req_uncacheable = False, req_io = False,
     req_wr_policy_hint = WR_POLICY_AUTO, req_abort = False\<rparr>"

definition REQ_LOAD :: "5 word" where "REQ_LOAD = 0x00"
definition REQ_STORE :: "5 word" where "REQ_STORE = 0x01"
definition REQ_AMO_LR :: "5 word" where "REQ_AMO_LR = 0x04"
definition REQ_AMO_SC :: "5 word" where "REQ_AMO_SC = 0x05"
definition REQ_AMO_SWAP :: "5 word" where "REQ_AMO_SWAP = 0x06"
definition REQ_AMO_ADD :: "5 word" where "REQ_AMO_ADD = 0x07"
definition REQ_AMO_AND :: "5 word" where "REQ_AMO_AND = 0x08"
definition REQ_AMO_OR :: "5 word" where "REQ_AMO_OR = 0x09"
definition REQ_AMO_XOR :: "5 word" where "REQ_AMO_XOR = 0x0a"
definition REQ_AMO_MAX :: "5 word" where "REQ_AMO_MAX = 0x0b"
definition REQ_AMO_MAXU :: "5 word" where "REQ_AMO_MAXU = 0x0c"
definition REQ_AMO_MIN :: "5 word" where "REQ_AMO_MIN = 0x0d"
definition REQ_AMO_MINU :: "5 word" where "REQ_AMO_MINU = 0x0e"
definition REQ_CMO_FENCE :: "5 word" where "REQ_CMO_FENCE = 0x10"
definition REQ_CMO_PREFETCH :: "5 word" where "REQ_CMO_PREFETCH = 0x11"
definition REQ_CMO_INVAL_NLINE :: "5 word" where "REQ_CMO_INVAL_NLINE = 0x12"
definition REQ_CMO_INVAL_ALL :: "5 word" where "REQ_CMO_INVAL_ALL = 0x13"
definition REQ_CMO_FLUSH_NLINE :: "5 word" where "REQ_CMO_FLUSH_NLINE = 0x14"
definition REQ_CMO_FLUSH_ALL :: "5 word" where "REQ_CMO_FLUSH_ALL = 0x15"
definition REQ_CMO_FLUSH_INVAL_NLINE :: "5 word" where "REQ_CMO_FLUSH_INVAL_NLINE = 0x16"
definition REQ_CMO_FLUSH_INVAL_ALL :: "5 word" where "REQ_CMO_FLUSH_INVAL_ALL = 0x17"

lemmas op_defs =
  REQ_LOAD_def REQ_STORE_def REQ_AMO_LR_def REQ_AMO_SC_def REQ_AMO_SWAP_def REQ_AMO_ADD_def REQ_AMO_AND_def
  REQ_AMO_OR_def REQ_AMO_XOR_def REQ_AMO_MAX_def REQ_AMO_MAXU_def REQ_AMO_MIN_def REQ_AMO_MINU_def
  REQ_CMO_FENCE_def REQ_CMO_PREFETCH_def REQ_CMO_INVAL_NLINE_def REQ_CMO_INVAL_ALL_def REQ_CMO_FLUSH_NLINE_def
  REQ_CMO_FLUSH_ALL_def REQ_CMO_FLUSH_INVAL_NLINE_def REQ_CMO_FLUSH_INVAL_ALL_def

definition is_aborted :: "core_req \<Rightarrow> bool" where "is_aborted r = req_abort r"
definition is_uncacheable :: "core_req \<Rightarrow> bool" where "is_uncacheable r = req_uncacheable r"
definition is_io :: "core_req \<Rightarrow> bool" where "is_io r = req_io r"
definition is_wr_policy_wb :: "core_req \<Rightarrow> bool" where "is_wr_policy_wb r = (req_wr_policy_hint r = WR_POLICY_WB)"
definition is_wr_policy_wt :: "core_req \<Rightarrow> bool" where "is_wr_policy_wt r = (req_wr_policy_hint r = WR_POLICY_WT)"
definition is_wr_policy_auto :: "core_req \<Rightarrow> bool" where
  "is_wr_policy_auto r = (req_wr_policy_hint r = WR_POLICY_AUTO)"
definition is_load :: "core_req \<Rightarrow> bool" where "is_load r = (req_op r = REQ_LOAD)"
definition is_store :: "core_req \<Rightarrow> bool" where "is_store r = (req_op r = REQ_STORE)"

definition is_amo :: "core_req \<Rightarrow> bool" where
  "is_amo r = (let op = req_op r in
     op = REQ_AMO_SWAP \<or> op = REQ_AMO_ADD \<or> op = REQ_AMO_AND \<or> op = REQ_AMO_OR \<or> op = REQ_AMO_XOR \<or>
     op = REQ_AMO_MAX \<or> op = REQ_AMO_MAXU \<or> op = REQ_AMO_MIN \<or> op = REQ_AMO_MINU)"

definition is_amo_lr :: "core_req \<Rightarrow> bool" where "is_amo_lr r = (req_op r = REQ_AMO_LR)"
definition is_amo_sc :: "core_req \<Rightarrow> bool" where "is_amo_sc r = (req_op r = REQ_AMO_SC)"

definition is_cmo :: "core_req \<Rightarrow> bool" where
  "is_cmo r = (let op = req_op r in
     op = REQ_CMO_FENCE \<or> op = REQ_CMO_PREFETCH \<or> op = REQ_CMO_INVAL_NLINE \<or> op = REQ_CMO_INVAL_ALL \<or>
     op = REQ_CMO_FLUSH_NLINE \<or> op = REQ_CMO_FLUSH_ALL \<or> op = REQ_CMO_FLUSH_INVAL_NLINE \<or>
     op = REQ_CMO_FLUSH_INVAL_ALL)"

definition is_cmo_prefetch :: "core_req \<Rightarrow> bool" where "is_cmo_prefetch r = (req_op r = REQ_CMO_PREFETCH)"

definition cmo_to_string :: "5 word \<Rightarrow> string" where
  "cmo_to_string op =
     (if op = REQ_CMO_FENCE then ''CMO_FENCE'' else if op = REQ_CMO_PREFETCH then ''CMO_PREFETCH''
      else if op = REQ_CMO_INVAL_NLINE then ''CMO_INVAL_NLINE'' else if op = REQ_CMO_INVAL_ALL then ''CMO_INVAL_ALL''
      else if op = REQ_CMO_FLUSH_NLINE then ''CMO_FLUSH_NLINE'' else if op = REQ_CMO_FLUSH_ALL then ''CMO_FLUSH_ALL''
      else if op = REQ_CMO_FLUSH_INVAL_NLINE then ''CMO_FLUSH_INVAL_NLINE''
      else if op = REQ_CMO_FLUSH_INVAL_ALL then ''CMO_FLUSH_INVAL_ALL'' else ''UNKNOWN'')"

definition op_to_string :: "5 word \<Rightarrow> string" where
  "op_to_string op =
     (if op = REQ_LOAD then ''LOAD'' else if op = REQ_STORE then ''STORE'' else if op = REQ_AMO_LR then ''LR''
      else if op = REQ_AMO_SC then ''SC'' else if op = REQ_AMO_SWAP then ''AMO_SWAP''
      else if op = REQ_AMO_ADD then ''AMO_ADD'' else if op = REQ_AMO_AND then ''AMO_AND''
      else if op = REQ_AMO_OR then ''AMO_OR'' else if op = REQ_AMO_XOR then ''AMO_XOR''
      else if op = REQ_AMO_MAX then ''AMO_MAX'' else if op = REQ_AMO_MAXU then ''AMO_MAXU''
      else if op = REQ_AMO_MIN then ''AMO_MIN'' else if op = REQ_AMO_MINU then ''AMO_MINU''
      else if op = REQ_CMO_FENCE then ''CMO_FENCE'' else if op = REQ_CMO_PREFETCH then ''CMO_PREFETCH''
      else if op = REQ_CMO_INVAL_NLINE then ''CMO_INVAL_NLINE'' else if op = REQ_CMO_INVAL_ALL then ''CMO_INVAL_ALL''
      else if op = REQ_CMO_FLUSH_NLINE then ''CMO_FLUSH_NLINE'' else if op = REQ_CMO_FLUSH_ALL then ''CMO_FLUSH_ALL''
      else if op = REQ_CMO_FLUSH_INVAL_NLINE then ''CMO_FLUSH_INVAL_NLINE''
      else if op = REQ_CMO_FLUSH_INVAL_ALL then ''CMO_FLUSH_INVAL_ALL'' else ''UNKNOWN'')"

fun wr_policy_to_string :: "wr_policy_hint \<Rightarrow> string" where
  "wr_policy_to_string WR_POLICY_AUTO = ''WR_POLICY_AUTO''"
| "wr_policy_to_string WR_POLICY_WB = ''WR_POLICY_WB''"
| "wr_policy_to_string WR_POLICY_WT = ''WR_POLICY_WT''"

definition contains_data :: "5 word \<Rightarrow> bool" where
  "contains_data op \<longleftrightarrow>
     op = REQ_STORE \<or> op = REQ_AMO_SC \<or> op = REQ_AMO_SWAP \<or> op = REQ_AMO_ADD \<or> op = REQ_AMO_AND \<or>
     op = REQ_AMO_OR \<or> op = REQ_AMO_XOR \<or> op = REQ_AMO_MAX \<or> op = REQ_AMO_MAXU \<or> op = REQ_AMO_MIN \<or>
     op = REQ_AMO_MINU"

definition hex_val :: "nat \<Rightarrow> insertion list" where
  "hex_val n = [SetHex, ULong (of_nat n), SetDec]"

definition core_req_to_string :: "(nat \<Rightarrow> nat \<Rightarrow> string) \<Rightarrow> core_req \<Rightarrow> string" where
  "core_req_to_string bv r = out (puts
     ([Str ''CORE_REQ / @ = '', Str (bv 49 (unat (req_addr r))), Str '' / '', Str (op_to_string (req_op r)),
       Str '' / SID = 0x''] @ hex_val (unat (req_sid r)) @ [Str '' / TID = 0x''] @ hex_val (unat (req_tid r)) @
      [Str '' / WR_POLICY_HINT = '', Str (wr_policy_to_string (req_wr_policy_hint r))] @
      (if \<not> is_cmo r
       then [Str (if req_uncacheable r then '' / UNCACHED'' else '' / CACHED''),
             Str '' / SIZE = '', Str (bv 3 (unat (req_size r))),
             Str (if req_need_rsp r then '' / NEED_RSP'' else '' / NO NEED_RSP''),
             Str (if req_phys_indexed r then '' / PHYS_INDEXED'' else '' / VIRT_INDEXED'')] @
            (if contains_data (req_op r)
             then [Str '' / WDATA = '', Str (bv 64 (unat (req_wdata r))), Str '' / BE = '', Str (bv 8 (unat (req_be r)))]
             else [])
       else [Str '' / '', Str (cmo_to_string (req_op r))])) fresh_stream)"

record core_resp =
  rsp_rdata :: u64
  rsp_sid :: "3 word"
  rsp_tid :: "6 word"
  rsp_error :: bool
  rsp_aborted :: bool

definition new_core_resp :: core_resp where
  "new_core_resp = \<lparr>rsp_rdata = 0, rsp_sid = 0, rsp_tid = 0, rsp_error = False, rsp_aborted = False\<rparr>"

definition core_resp_to_string :: "(nat \<Rightarrow> nat \<Rightarrow> string) \<Rightarrow> core_resp \<Rightarrow> string" where
  "core_resp_to_string bv r = out (puts
     ([Str ''CORE_RESP / RDATA = '', Str (bv 64 (unat (rsp_rdata r))),
       Str '' / SID = 0x''] @ hex_val (unat (rsp_sid r)) @ [Str '' / TID = 0x''] @ hex_val (unat (rsp_tid r)) @
      [Str (if rsp_error r then '' / ERROR'' else []), Str (if rsp_aborted r then '' / ABORTED'' else [])]) fresh_stream)"

section \<open>Requests and responses of the memory\<close>

record mem_req =
  maddr :: u64
  mlen :: u32
  msize :: u32
  mid :: u32
  command :: u32
  atomic :: u32
  cacheable :: bool

definition new_mem_req :: mem_req where
  "new_mem_req = \<lparr>maddr = 0, mlen = 0, msize = 0, mid = 0, command = 0, atomic = 0, cacheable = False\<rparr>"

definition MEM_READ :: u32 where "MEM_READ = 0"
definition MEM_WRITE :: u32 where "MEM_WRITE = 1"
definition MEM_ATOMIC :: u32 where "MEM_ATOMIC = 2"
definition MEM_ATOMIC_LDEX :: u32 where "MEM_ATOMIC_LDEX = 0xc"
definition MEM_ATOMIC_STEX :: u32 where "MEM_ATOMIC_STEX = 0xd"

definition mem_is_amo :: "'a mem_req_scheme \<Rightarrow> bool" where
  "mem_is_amo r \<longleftrightarrow> command r = MEM_ATOMIC \<and> atomic r \<noteq> MEM_ATOMIC_STEX \<and> atomic r \<noteq> MEM_ATOMIC_LDEX"

definition mem_is_stex :: "'a mem_req_scheme \<Rightarrow> bool" where
  "mem_is_stex r \<longleftrightarrow> command r = MEM_ATOMIC \<and> atomic r = MEM_ATOMIC_STEX"

definition mem_is_ldex :: "'a mem_req_scheme \<Rightarrow> bool" where
  "mem_is_ldex r \<longleftrightarrow> command r = MEM_ATOMIC \<and> atomic r = MEM_ATOMIC_LDEX"

definition command_to_string :: "u32 \<Rightarrow> string" where
  "command_to_string c = (if c = 0 then ''READ'' else if c = 1 then ''STORE'' else if c = 2 then ''ATOMIC'' else ''UNKNOWN'')"

definition atomic_to_string :: "u32 \<Rightarrow> string" where
  "atomic_to_string a =
     (if a = 0x0 then ''ATOMIC_ADD'' else if a = 0x1 then ''ATOMIC_CLR'' else if a = 0x2 then ''ATOMIC_SET''
      else if a = 0x3 then ''ATOMIC_EOR'' else if a = 0x4 then ''ATOMIC_SMAX'' else if a = 0x5 then ''ATOMIC_SMIN''
      else if a = 0x6 then ''ATOMIC_UMAX'' else if a = 0x7 then ''ATOMIC_UMIN'' else if a = 0x8 then ''ATOMIC_SWAP''
      else if a = 0xc then ''ATOMIC_LDEX'' else if a = 0xd then ''ATOMIC_STEX'' else ''UNKNOWN'')"

definition mem_read_req_to_string :: "mem_req \<Rightarrow> string" where
  "mem_read_req_to_string r = out (puts
     ([Str ''MEM_READ_REQ / @ = ''] @ hex_val (unat (maddr r)) @ [Str '' / CMD = '', Str (command_to_string (command r)),
       Str '' / LEN = ''] @ hex_val (unat (mlen r)) @ [Str '' / SIZE = ''] @ hex_val (unat (msize r)) @
      [Str '' / ID = 0x''] @ hex_val (unat (mid r)) @
      [Str (if cacheable r then '' / CACHEABLE'' else '' / UNCACHEABLE'')]) fresh_stream)"

record mem_write_req = mem_req +
  wdata :: "512 word"
  wbe :: u64
  wlast :: bool

definition mem_write_req_to_string :: "(nat \<Rightarrow> nat \<Rightarrow> string) \<Rightarrow> mem_write_req \<Rightarrow> string" where
  "mem_write_req_to_string bv r = out (puts
     ([Str ''MEM_WRITE_REQ / @ = ''] @ hex_val (unat (maddr r)) @
      [Str '' / COMMAND = '', Str (command_to_string (command r))] @
      (if command r = MEM_ATOMIC then [Str '' / ATOMIC = '', Str (atomic_to_string (atomic r))] else []) @
      [Str '' / LEN = ''] @ hex_val (unat (mlen r)) @ [Str '' / SIZE = ''] @ hex_val (unat (msize r)) @
      [Str '' / ID = 0x''] @ hex_val (unat (mid r)) @
      [Str '' / DATA = '', Str (bv 512 (unat (wdata r))), Str '' / BE = '', Str (bv 64 (unat (wbe r))),
       Str (if wlast r then '' / LAST'' else '' ''),
       Str (if cacheable r then '' / CACHEABLE'' else '' / UNCACHEABLE'')]) fresh_stream)"

record mem_read_resp =
  rerror :: u32
  rid :: u32
  rdata :: "512 word"
  rlast :: bool

definition new_mem_read_resp :: mem_read_resp where
  "new_mem_read_resp = \<lparr>rerror = 0, rid = 0, rdata = 0, rlast = False\<rparr>"

definition mem_read_resp_to_string :: "(nat \<Rightarrow> nat \<Rightarrow> string) \<Rightarrow> mem_read_resp \<Rightarrow> string" where
  "mem_read_resp_to_string bv r = out (puts
     ([Str ''MEM_READ_RESP / RDATA = '', Str (bv 512 (unat (rdata r))), Str '' / ID = 0x''] @ hex_val (unat (rid r)) @
      [Str (if rlast r then '' / LAST'' else []), Str (if rerror r \<noteq> 0 then '' / ERROR'' else [])]) fresh_stream)"

record mem_write_resp =
  is_atomic :: bool
  werror :: u32
  wid :: u32

definition mem_write_resp_to_string :: "mem_write_resp \<Rightarrow> string" where
  "mem_write_resp_to_string r = out (puts
     ([Str ''MEM_WRITE_RESP'', Str '' / ID = 0x''] @ hex_val (unat (wid r)) @
      [Str (if werror r \<noteq> 0 then '' / ERROR'' else []), Str (if is_atomic r then '' / ATOMIC'' else [])]) fresh_stream)"

section \<open>Properties\<close>

text \<open>The six classes of a request, as a list, and the property of an operation code that it is one of
  the defined ones.\<close>

definition classes :: "core_req \<Rightarrow> bool list" where
  "classes r = [is_load r, is_store r, is_amo r, is_amo_lr r, is_amo_sc r, is_cmo r]"

definition known_op :: "5 word \<Rightarrow> bool" where
  "known_op op \<longleftrightarrow> op \<le> 0x01 \<or> 0x04 \<le> op \<and> op \<le> 0x0e \<or> 0x10 \<le> op \<and> op \<le> 0x17"

lemma op_in: "op \<in> set (map of_nat [0..<32] :: 5 word list)"
proof -
  have "op = of_nat (unat op)" "unat op < 32" using unat_less_exp [of op] by simp_all
  then show ?thesis by (metis atLeastLessThan_iff imageI list.set_map set_upt zero_le)
qed

lemma op_all: "list_all P (map of_nat [0..<32] :: 5 word list) \<Longrightarrow> P op"
  using op_in [of op] unfolding list_all_iff by blast

definition op_req :: "5 word \<Rightarrow> core_req" where
  "op_req op = new_core_req\<lparr>req_op := op\<rparr>"

lemma classes_op_req:
  "is_load r = is_load (op_req (req_op r))" "is_store r = is_store (op_req (req_op r))"
  "is_amo r = is_amo (op_req (req_op r))" "is_amo_lr r = is_amo_lr (op_req (req_op r))"
  "is_amo_sc r = is_amo_sc (op_req (req_op r))" "is_cmo r = is_cmo (op_req (req_op r))"
  "classes r = classes (op_req (req_op r))"
  by (simp_all add: is_load_def is_store_def is_amo_def is_amo_lr_def is_amo_sc_def is_cmo_def classes_def op_req_def)

lemma classes_count: "length (filter id (classes (op_req op))) = (if known_op op then 1 else 0)"
  by (rule op_all [where op = op]) code_simp

lemma names_known: "op_to_string op = ''UNKNOWN'' \<longleftrightarrow> \<not> known_op op"
  by (rule op_all [where op = op]) code_simp

lemma data_classes:
  "contains_data op \<longleftrightarrow> is_store (op_req op) \<or> is_amo (op_req op) \<or> is_amo_sc (op_req op)"
  by (rule op_all [where op = op]) code_simp

text \<open>The classification of requests is a partition: a request with a defined operation code is in
  exactly one of the classes load, store, atomic, load-reserved, store-conditional and cache
  management, any other code is in none and is printed as unknown, and exactly the requests that
  carry data are printed with their data.\<close>

lemma request_classes:
  "length (filter id (classes r)) = (if known_op (req_op r) then 1 else 0) \<and>
   (op_to_string (req_op r) = ''UNKNOWN'' \<longleftrightarrow> \<not> known_op (req_op r)) \<and>
   (contains_data (req_op r) \<longleftrightarrow> is_store r \<or> is_amo r \<or> is_amo_sc r)"
  using classes_count [of "req_op r"] names_known [of "req_op r"] data_classes [of "req_op r"]
  by (metis classes_op_req(2,3,5,7))

lemma request_classes_exclusive:
  assumes "is_amo r"
  shows "\<not> is_load r" "\<not> is_store r" "\<not> is_amo_lr r" "\<not> is_amo_sc r" "\<not> is_cmo r"
  using assms
  by (auto simp: is_load_def is_store_def is_amo_def is_amo_lr_def is_amo_sc_def is_cmo_def op_defs Let_def)

text \<open>The widths of the configuration fit together: the fields of a request fill it exactly.\<close>

lemma core_req_width: "HPDCACHE_CORE_REQ_WIDTH = 145" "HPDCACHE_CORE_RSP_WIDTH = 75"
  "HPDCACHE_ADDR_OFFSET_WIDTH = 12" "HPDCACHE_TAG_WIDTH = 37"
  by (simp_all add: config_defs)

end
