(* ===== verification/Amo.thy ===== *)
theory Amo
  imports Transaction Perfect_Memory
begin

text \<open>
  The atomic operations of the testbench: \<^verbatim>\<open>hpdcache_test_amo::compute_amo\<close>, on the operation codes of
  the core (the scoreboard's expectation), and \<^verbatim>\<open>hpdcache_test_mem_resp_model_base::compute_amo\<close>, on
  those of the memory. The cache sends an AND as a clear with the complemented operand.
\<close>

definition smax :: "u64 \<Rightarrow> u64 \<Rightarrow> u32 \<Rightarrow> bool" where
  "smax ld_data st_data bytes =
     (if bytes = 4 then sint (ucast ld_data :: u32) > sint (ucast st_data :: u32)
      else sint ld_data > sint st_data)"

definition compute_amo :: "5 word \<Rightarrow> u64 \<Rightarrow> u64 \<Rightarrow> u32 \<Rightarrow> u64 res" where
  "compute_amo atop ld_data st_data bytes =
     (let umax = ld_data > st_data; sm = smax ld_data st_data bytes in
      if atop = REQ_AMO_SWAP then Inr st_data
      else if atop = REQ_AMO_ADD then Inr (ld_data + st_data)
      else if atop = REQ_AMO_AND then Inr (ld_data AND st_data)
      else if atop = REQ_AMO_OR then Inr (ld_data OR st_data)
      else if atop = REQ_AMO_XOR then Inr (ld_data XOR st_data)
      else if atop = REQ_AMO_MAX then Inr (if sm then ld_data else st_data)
      else if atop = REQ_AMO_MAXU then Inr (if umax then ld_data else st_data)
      else if atop = REQ_AMO_MIN then Inr (if sm then st_data else ld_data)
      else if atop = REQ_AMO_MINU then Inr (if umax then st_data else ld_data)
      else Inl AssertFailed)"

definition compute_mem_amo :: "u32 \<Rightarrow> u64 \<Rightarrow> u64 \<Rightarrow> u32 \<Rightarrow> u64 res" where
  "compute_mem_amo atop ld_data st_data bytes =
     (let umax = ld_data > st_data; sm = smax ld_data st_data bytes in
      if atop = 0x0 then Inr (ld_data + st_data)
      else if atop = 0x1 then Inr (ld_data AND NOT st_data)
      else if atop = 0x2 then Inr (ld_data OR st_data)
      else if atop = 0x3 then Inr (ld_data XOR st_data)
      else if atop = 0x4 then Inr (if sm then ld_data else st_data)
      else if atop = 0x6 then Inr (if umax then ld_data else st_data)
      else if atop = 0x5 then Inr (if sm then st_data else ld_data)
      else if atop = 0x7 then Inr (if umax then st_data else ld_data)
      else if atop = 0x8 then Inr st_data
      else Inl AssertFailed)"

section \<open>The two computations agree\<close>

text \<open>The memory operation and operand that the cache forwards for an atomic operation of the core, in
  \<^verbatim>\<open>hpdcache_uncached_sarg.sv\<close>. A code that is no fetching atomic operation is forwarded as another kind of request;
  for it \<open>mem_op\<close> is \<open>0xf\<close>, which is no operation of the memory.\<close>

definition mem_op :: "5 word \<Rightarrow> u32" where
  "mem_op op =
     (if op = REQ_AMO_SWAP then 0x8 else if op = REQ_AMO_ADD then 0x0 else if op = REQ_AMO_AND then 0x1
      else if op = REQ_AMO_OR then 0x2 else if op = REQ_AMO_XOR then 0x3 else if op = REQ_AMO_MAX then 0x4
      else if op = REQ_AMO_MAXU then 0x6 else if op = REQ_AMO_MIN then 0x5 else if op = REQ_AMO_MINU then 0x7
      else 0xf)"

definition mem_operand :: "5 word \<Rightarrow> u64 \<Rightarrow> u64" where
  "mem_operand op st = (if op = REQ_AMO_AND then NOT st else st)"

text \<open>C30: the scoreboard's expectation of an atomic operation is what the memory computes for the
  operation and operand the cache forwards, for both access sizes; an operation code that is no
  atomic operation fails the assertion on both sides.\<close>

theorem amo_core_mem_agree:
  "compute_mem_amo (mem_op op) ld (mem_operand op st) bytes = compute_amo op ld st bytes"
  by (simp add: compute_mem_amo_def compute_amo_def mem_op_def mem_operand_def op_defs)

text \<open>
  The 64-bit memory model of the simulator computes the same operations, from its own case
  distinction: operations on double words agree, and operations on words agree on the low half when
  the operands are zero-extended, as the memory model extracts them.
\<close>

definition sim_op :: "u32 \<Rightarrow> mem_atomic option" where
  "sim_op op = (if op = MEM_ATOMIC_LDEX \<or> op = MEM_ATOMIC_STEX then None else amo_op_of op)"

lemma sim_op_mem_op:
  "is_amo (op_req op) \<Longrightarrow> \<exists>aop. amo_op_of (mem_op op) = Some aop"
  by (auto simp: is_amo_def op_req_def mem_op_def op_defs amo_op_of_def Let_def)

text \<open>The simulator's memory and the testbench's memory model agree on every doubleword atomic
  operation that has a result in both.\<close>

lemma amo_sim_agree:
  assumes "sim_op op = Some aop" "bytes \<noteq> 4"
  shows "compute_mem_amo op ld st bytes = Inr (amo_result aop ld st)"
  using assms
  by (auto simp: sim_op_def amo_op_of_def compute_mem_amo_def smax_def MEM_ATOMIC_LDEX_def MEM_ATOMIC_STEX_def Let_def
      split: if_splits) (metis signed_word_eqI)

end
