(* ===== verification/Mem_Resp.thy ===== *)
theory Mem_Resp
  imports Amo Mem_Model
begin

text \<open>
  The memory side of the cache testbench, \<^verbatim>\<open>hpdcache_test_mem_resp_model{_base,}.h\<close>: error segments,
  exclusive reservations, and the processes that serve the read and write channels. A process
  iteration is one step; the random delays only decide when a step happens. The FIFOs are unbounded
  lists (a full \<^verbatim>\<open>sc_fifo\<close> blocks its writer), and the FIFOs towards the scoreboard are kept as the
  sequence of what was sent. The OpenPiton variant is not modelled.
\<close>

section \<open>State\<close>

record segment =
  base_addr :: u64
  end_addr :: u64
  seg_error :: bool

record excl_buf =
  ex_valid :: bool
  ex_base :: u64
  ex_end :: u64

record data_flit =
  flit_data :: "512 word"
  flit_be :: u64
  flit_last :: bool

record mem_resp =
  errorsegs :: "segment list"
  memory_m :: mem_model
  excl_buf_m :: "excl_buf list"
  read_resp_fifo :: "mem_read_resp list"
  write_req_fifo :: "mem_req list"
  write_req_data_fifo :: "data_flit list"
  write_resp_fifo :: "mem_write_resp list"
  sb_mem_read_req :: "mem_req list"
  sb_mem_read_resp :: "mem_read_resp list"
  sb_mem_write_req :: "mem_write_req list"
  sb_mem_write_resp :: "mem_write_resp list"

definition MEM_NOC_DATA_WORDS :: nat where "MEM_NOC_DATA_WORDS = HPDCACHE_MEM_DATA_WIDTH div 64"

text \<open>The reservation buffers are not initialised: \<open>junk\<close> is what they hold.\<close>

definition mem_resp_new :: "excl_buf list \<Rightarrow> nat \<Rightarrow> mem_resp" where
  "mem_resp_new junk calls =
     \<lparr>errorsegs = [], memory_m = mem_model_new True 0 calls, excl_buf_m = junk, read_resp_fifo = [],
      write_req_fifo = [], write_req_data_fifo = [], write_resp_fifo = [], sb_mem_read_req = [],
      sb_mem_read_resp = [], sb_mem_write_req = [], sb_mem_write_resp = []\<rparr>"

definition add_error_segment :: "segment \<Rightarrow> mem_resp \<Rightarrow> mem_resp" where
  "add_error_segment seg s = s\<lparr>errorsegs := errorsegs s @ [seg]\<rparr>"

definition within_region :: "u64 \<Rightarrow> u64 \<Rightarrow> u64 \<Rightarrow> u64 \<Rightarrow> bool" where
  "within_region base0 end0 base1 end1 =
     (if end0 \<le> base1 then False else if base0 \<ge> end1 then False else True)"

fun within_error_region_of :: "segment list \<Rightarrow> u64 \<Rightarrow> u64 \<Rightarrow> bool" where
  "within_error_region_of [] b e = False"
| "within_error_region_of (seg # segs) b e =
     (if within_region (base_addr seg) (end_addr seg) b e then seg_error seg
      else within_error_region_of segs b e)"

definition within_error_region :: "mem_resp \<Rightarrow> u64 \<Rightarrow> u64 \<Rightarrow> bool" where
  "within_error_region s b e = within_error_region_of (errorsegs s) b e"

text \<open>Ranges of the 512-bit data and of its byte enables.\<close>

definition data_word :: "512 word \<Rightarrow> nat \<Rightarrow> u64" where
  "data_word d i = ucast (drop_bit (i * 64) d)"

definition set_data_word :: "nat \<Rightarrow> u64 \<Rightarrow> 512 word \<Rightarrow> 512 word" where
  "set_data_word i v d = (d AND NOT (push_bit (i * 64) (mask 64))) OR push_bit (i * 64) (ucast v)"

definition be_byte :: "u64 \<Rightarrow> nat \<Rightarrow> u8" where
  "be_byte be i = ucast (drop_bit (i * 8) be)"

section \<open>The read channel\<close>

definition read_word ::
  "(nat \<Rightarrow> u64) \<Rightarrow> u64 \<Rightarrow> nat \<Rightarrow> mem_read_resp \<times> mem_resp \<Rightarrow> mem_read_resp \<times> mem_resp" where
  "read_word rnd a w = (\<lambda>(resp, s).
     let word_addr = drop_bit 3 a + of_nat w;
         (ld_data, m) = readMemory rnd (memory_m s) word_addr;
         r = unat word_addr mod MEM_NOC_DATA_WORDS
     in (resp\<lparr>rdata := set_data_word r ld_data (rdata resp)\<rparr>, s\<lparr>memory_m := m\<rparr>))"

definition read_beat ::
  "(nat \<Rightarrow> u64) \<Rightarrow> mem_req \<Rightarrow> nat \<Rightarrow> nat \<Rightarrow> u64 \<times> mem_read_resp \<times> mem_resp \<Rightarrow> u64 \<times> mem_read_resp \<times> mem_resp" where
  "read_beat rnd req words i = (\<lambda>(a, resp, s).
     let (resp, s) = for_upto words (read_word rnd a) (resp, s);
         resp = resp\<lparr>rerror := 0, rid := mid req, rlast := (i = unat (mlen req))\<rparr>
     in (push_bit 3 (drop_bit 3 a + of_nat words), resp, s\<lparr>read_resp_fifo := read_resp_fifo s @ [resp]\<rparr>))"

definition error_beats :: "mem_req \<Rightarrow> mem_read_resp list" where
  "error_beats req =
     map (\<lambda>i. new_mem_read_resp\<lparr>rerror := 1, rid := mid req, rlast := (i = unat (mlen req))\<rparr>)
       [0..<unat (mlen req + 1)]"

definition reserve :: "mem_req \<Rightarrow> mem_resp \<Rightarrow> mem_resp res" where
  "reserve req s =
     (if mem_is_ldex req
      then if unat (mid req) < length (excl_buf_m s)
           then Inr (s\<lparr>excl_buf_m := (excl_buf_m s)[unat (mid req) :=
                  \<lparr>ex_valid = True, ex_base = maddr req, ex_end = maddr req + 2 ^ unat (msize req)\<rparr>]\<rparr>)
           else Inl OutOfBounds
      else Inr s)"

definition readOperation :: "(nat \<Rightarrow> u64) \<Rightarrow> mem_req \<Rightarrow> mem_resp \<Rightarrow> mem_resp res" where
  "readOperation rnd req s =
     (let s = s\<lparr>sb_mem_read_req := sb_mem_read_req s @ [req]\<rparr> in
      if 64 \<le> unat (msize req) then Inl UndefinedShift
      else if 0x80000000 \<le> mlen req + 1 then Inl IntOverflow
      else if within_error_region s (maddr req) (maddr req + 2 ^ unat (msize req))
      then Inr (s\<lparr>read_resp_fifo := read_resp_fifo s @ error_beats req\<rparr>)
      else if 31 \<le> unat (msize req) then Inl UndefinedShift
      else
        let words = 2 ^ unat (msize req) div 8; words = (if words = 0 then 1 else words) in
        res_bind (reserve req s) (\<lambda>s.
        let (_, _, s) = for_upto (unat (mlen req + 1)) (read_beat rnd req words) (maddr req, new_mem_read_resp, s)
        in Inr s))"

section \<open>The write channel\<close>

text \<open>The AMO: the operands are taken from the addressed half for a word, and the loaded value and the
  result are shifted back to their place.\<close>

definition amo_values :: "(nat \<Rightarrow> u64) \<Rightarrow> mem_write_req \<Rightarrow> u32 \<Rightarrow> mem_resp \<Rightarrow> (u64 \<times> u64 \<times> mem_resp) res" where
  "amo_values rnd req bytes s =
     (let word_addr = drop_bit 3 (maddr req);
          word = unat word_addr mod MEM_NOC_DATA_WORDS;
          offset = unat (maddr req) mod 8 * 8;
          (ld, m) = readMemory rnd (memory_m s) word_addr;
          st = data_word (wdata req) word;
          ld = (if bytes = 4 then ucast (ucast (drop_bit offset ld) :: u32) else ld);
          st = (if bytes = 4 then ucast (ucast (drop_bit offset st) :: u32) else st)
      in res_bind (compute_mem_amo (atomic req) ld st bytes) (\<lambda>result.
         Inr (push_bit offset ld, push_bit offset result, s\<lparr>memory_m := m\<rparr>)))"

definition write_word ::
  "(nat \<Rightarrow> u64) \<Rightarrow> mem_write_req \<Rightarrow> u64 option \<Rightarrow> nat \<Rightarrow> mem_resp \<Rightarrow> mem_resp res" where
  "write_word rnd req amo w s =
     (let word_addr = drop_bit 3 (maddr req);
          i = unat word_addr mod MEM_NOC_DATA_WORDS + w
      in if i < MEM_NOC_DATA_WORDS
         then let be = be_byte (wbe req) i;
                  st = (case amo of Some r \<Rightarrow> r | None \<Rightarrow> data_word (wdata req) i)
              in Inr (if be = 0 then s
                      else s\<lparr>memory_m := writeMemory rnd (memory_m s) (word_addr + of_nat w) st (beToMask be)\<rparr>)
         else Inl OutOfBounds)"

definition consume_reservation :: "mem_write_req \<Rightarrow> u64 \<Rightarrow> mem_resp \<Rightarrow> (bool \<times> mem_resp) res" where
  "consume_reservation req e s =
     (if mem_is_stex req
      then if unat (mid req) < length (excl_buf_m s)
           then let b = excl_buf_m s ! unat (mid req) in
                if ex_valid b
                then Inr (within_region (maddr req) e (ex_base b) (ex_end b),
                          s\<lparr>excl_buf_m := (excl_buf_m s)[unat (mid req) := b\<lparr>ex_valid := False\<rparr>]\<rparr>)
                else Inr (False, s)
           else Inl OutOfBounds
      else Inr (False, s))"

definition write_is_amo :: "mem_write_req \<Rightarrow> bool" where
  "write_is_amo req \<longleftrightarrow> command req = MEM_ATOMIC \<and> atomic req \<noteq> MEM_ATOMIC_STEX"

definition write_error :: "mem_write_req \<Rightarrow> mem_resp \<Rightarrow> mem_resp" where
  "write_error req s =
     (let s = (if write_is_amo req
               then s\<lparr>read_resp_fifo := read_resp_fifo s @
                      [\<lparr>rerror = 0, rid = mid req, rdata = 0, rlast = True\<rparr>]\<rparr>
               else s)
      in s\<lparr>write_resp_fifo := write_resp_fifo s @ [\<lparr>is_atomic = False, werror = 1, wid = mid req\<rparr>]\<rparr>)"

definition fetch_amo ::
  "(nat \<Rightarrow> u64) \<Rightarrow> mem_write_req \<Rightarrow> u32 \<Rightarrow> mem_resp \<Rightarrow> ((u64 \<times> u64) option \<times> mem_resp) res" where
  "fetch_amo rnd req bytes s =
     (if write_is_amo req
      then res_bind (amo_values rnd req bytes s) (\<lambda>(ld, r, s). Inr (Some (ld, r), s))
      else Inr (None, s))"

definition commit_write ::
  "(nat \<Rightarrow> u64) \<Rightarrow> mem_write_req \<Rightarrow> nat \<Rightarrow> bool \<Rightarrow> (u64 \<times> u64) option \<Rightarrow> mem_resp \<Rightarrow> mem_resp res" where
  "commit_write rnd req bytes excl_ok amo s =
     (if \<not> mem_is_stex req \<or> excl_ok
      then let words = bytes div 8; words = (if words = 0 then 1 else words);
               word = unat (drop_bit 3 (maddr req)) mod MEM_NOC_DATA_WORDS
           in res_bind (for_res (write_word rnd req (map_option snd amo)) [0..<words] s) (\<lambda>s.
              Inr (case amo of None \<Rightarrow> s
                   | Some (ld, _) \<Rightarrow>
                       s\<lparr>read_resp_fifo := read_resp_fifo s @
                          [\<lparr>rerror = 0, rid = mid req, rdata = set_data_word word ld 0, rlast = True\<rparr>]\<rparr>))
      else Inr s)"

definition writeOperation :: "(nat \<Rightarrow> u64) \<Rightarrow> mem_write_req \<Rightarrow> mem_resp \<Rightarrow> mem_resp res" where
  "writeOperation rnd req s =
     (if 64 \<le> unat (msize req) then Inl UndefinedShift
      else
        let bytes = ucast (push_bit (unat (msize req)) 1 :: u64) :: u32; e = maddr req + ucast bytes
        in if within_error_region s (maddr req) e then Inr (write_error req s)
           else
             res_bind (consume_reservation req e s) (\<lambda>(excl_ok, s).
             res_bind (fetch_amo rnd req bytes s) (\<lambda>(amo, s).
             res_bind (commit_write rnd req (unat bytes) excl_ok amo s) (\<lambda>s.
             Inr (s\<lparr>write_resp_fifo := write_resp_fifo s @
                    [\<lparr>is_atomic = (mem_is_stex req \<and> excl_ok), werror = 0, wid = mid req\<rparr>]\<rparr>)))))"

section \<open>The processes\<close>

definition write_address_process :: "mem_req \<Rightarrow> mem_resp \<Rightarrow> mem_resp" where
  "write_address_process r s = s\<lparr>write_req_fifo := write_req_fifo s @ [r]\<rparr>"

definition write_data_process :: "data_flit \<Rightarrow> mem_resp \<Rightarrow> mem_resp" where
  "write_data_process r s = s\<lparr>write_req_data_fifo := write_req_data_fifo s @ [r]\<rparr>"

definition join_req :: "mem_req \<Rightarrow> data_flit \<Rightarrow> mem_write_req" where
  "join_req r d = \<lparr>maddr = maddr r, mlen = mlen r, msize = msize r, mid = mid r, command = command r,
     atomic = atomic r, cacheable = cacheable r, wdata = flit_data d, wbe = flit_be d, wlast = flit_last d\<rparr>"

text \<open>The process blocks (here: does not step) until both FIFOs hold an element.\<close>

fun write_process :: "(nat \<Rightarrow> u64) \<Rightarrow> mem_resp \<Rightarrow> mem_resp res option" where
  "write_process rnd s =
     (case (write_req_fifo s, write_req_data_fifo s) of
        (r # rs, d # ds) \<Rightarrow>
          (let req = join_req r d in
           Some (writeOperation rnd req
             (s\<lparr>write_req_fifo := rs, write_req_data_fifo := ds, sb_mem_write_req := sb_mem_write_req s @ [req]\<rparr>)))
      | _ \<Rightarrow> None)"

definition read_response_process :: "mem_resp \<Rightarrow> (mem_read_resp \<times> mem_resp) option" where
  "read_response_process s =
     (case read_resp_fifo s of [] \<Rightarrow> None
      | r # rs \<Rightarrow> Some (r, s\<lparr>read_resp_fifo := rs, sb_mem_read_resp := sb_mem_read_resp s @ [r]\<rparr>))"

definition write_response_process :: "mem_resp \<Rightarrow> (mem_write_resp \<times> mem_resp) option" where
  "write_response_process s =
     (case write_resp_fifo s of [] \<Rightarrow> None
      | r # rs \<Rightarrow> Some (r, s\<lparr>write_resp_fifo := rs, sb_mem_write_resp := sb_mem_write_resp s @ [r]\<rparr>))"

definition read_process :: "(nat \<Rightarrow> u64) \<Rightarrow> mem_req option \<Rightarrow> mem_resp \<Rightarrow> mem_resp res" where
  "read_process rnd port s = (case port of None \<Rightarrow> Inr s | Some req \<Rightarrow> readOperation rnd req s)"

section \<open>Words of a beat\<close>

lemma data_word_set [lookups]:
  assumes "i < MEM_NOC_DATA_WORDS" "j < MEM_NOC_DATA_WORDS"
  shows "data_word (set_data_word i v d) j = (if i = j then v else data_word d j)"
proof (rule bit_word_eqI)
  fix n assume n: "n < LENGTH(64)"
  have ij: "i < 8" "j < 8" using assms by (simp_all add: MEM_NOC_DATA_WORDS_def HPDCACHE_MEM_DATA_WIDTH_def)
  have "(j * 64 + n \<ge> i * 64 \<and> j * 64 + n - i * 64 < 64) = (i = j)" using n by auto
  then show "bit (data_word (set_data_word i v d) j) n = bit (if i = j then v else data_word d j) n"
    using n ij
    by (auto simp: data_word_def set_data_word_def bit_ucast_iff bit_drop_bit_eq bit_or_iff bit_and_iff
        bit_not_iff bit_push_bit_iff bit_mask_iff dest: bit_imp_le_length)
qed

section \<open>Writes\<close>

abbreviation known :: "mem_resp \<Rightarrow> u64 \<Rightarrow> bool" where
  "known s a \<equiv> map_find (mem_array_m (memory_m s)) a \<noteq> None"

abbreviation peek :: "(nat \<Rightarrow> u64) \<Rightarrow> mem_resp \<Rightarrow> u64 \<Rightarrow> u64" where
  "peek rnd s a \<equiv> fst (readMemory rnd (memory_m s) a)"

lemma beToMask_0 [simp]: "beToMask 0 = 0"
  by (rule bit_word_eqI) (simp add: bitwise)

lemma NOC_words [simp]: "MEM_NOC_DATA_WORDS = 8"
  by (simp add: MEM_NOC_DATA_WORDS_def HPDCACHE_MEM_DATA_WIDTH_def)

text \<open>What a write of the word \<open>w\<close> of a request puts where: the data word and its byte mask.\<close>

definition store_word :: "mem_write_req \<Rightarrow> u64 option \<Rightarrow> nat \<Rightarrow> u64" where
  "store_word req amo i = (case amo of Some r \<Rightarrow> r | None \<Rightarrow> data_word (wdata req) i)"

definition merged :: "mem_write_req \<Rightarrow> u64 option \<Rightarrow> nat \<Rightarrow> u64 \<Rightarrow> u64 \<Rightarrow> u64" where
  "merged req amo words a v =
     (let d = unat (a - drop_bit 3 (maddr req)); i = unat (drop_bit 3 (maddr req)) mod 8 + d in
      if d < words then merge_mask v (store_word req amo i) (beToMask (be_byte (wbe req) i)) else v)"

lemma write_word_step:
  assumes "unat (drop_bit 3 (maddr req)) mod 8 + k < 8"
  defines "i \<equiv> unat (drop_bit 3 (maddr req)) mod 8 + k" and "wa \<equiv> drop_bit 3 (maddr req) + of_nat k"
  shows "\<exists>m. write_word rnd req amo k s = Inr (s\<lparr>memory_m := m\<rparr>) \<and>
     (\<forall>a. known s a \<longrightarrow> map_find (mem_array_m m) a \<noteq> None \<and>
        fst (readMemory rnd m a) =
          (if a = wa then merge_mask (peek rnd s a) (store_word req amo i) (beToMask (be_byte (wbe req) i))
           else peek rnd s a))"
proof (cases "be_byte (wbe req) i = 0")
  case True
  then have "write_word rnd req amo k s = Inr (s\<lparr>memory_m := memory_m s\<rparr>)"
    using assms by (simp add: write_word_def)
  then show ?thesis using True by (intro exI [of _ "memory_m s"]) auto
next
  case False
  let ?m = "writeMemory rnd (memory_m s) wa (store_word req amo i) (beToMask (be_byte (wbe req) i))"
  have "write_word rnd req amo k s = Inr (s\<lparr>memory_m := ?m\<rparr>)"
    using False assms by (simp add: write_word_def store_word_def Let_def)
  moreover have "map_find (mem_array_m ?m) a \<noteq> None \<and> fst (readMemory rnd ?m a) =
          (if a = wa then merge_mask (peek rnd s a) (store_word req amo i) (beToMask (be_byte (wbe req) i))
           else peek rnd s a)" if "known s a" for a
    using mm.wr_same [of rnd "memory_m s" wa] mm.wr_other [of a wa "memory_m s" rnd] mm.rd_known(2) [of rnd "memory_m s" wa] that
    by auto
  ultimately show ?thesis by blast
qed

lemma less_Suc_offset:
  fixes a wa :: u64
  assumes "k < 8"
  shows "unat (a - wa) < Suc k \<longleftrightarrow> unat (a - wa) < k \<or> a = wa + of_nat k"
proof -
  have "unat (of_nat k :: u64) = k" using assms by (simp add: unat_of_nat)
  then have "unat (a - wa) = k \<longleftrightarrow> a = wa + of_nat k"
    by (metis add_diff_cancel_left' diff_add_cancel add.commute word_unat_eq_iff)
  then show ?thesis by (auto simp: less_Suc_eq)
qed

lemma write_words:
  assumes "unat (drop_bit 3 (maddr req)) mod 8 + words \<le> 8"
  shows "\<exists>m. for_res (write_word rnd req amo) [0..<words] s = Inr (s\<lparr>memory_m := m\<rparr>) \<and>
     (\<forall>a. known s a \<longrightarrow> map_find (mem_array_m m) a \<noteq> None \<and>
        fst (readMemory rnd m a) = merged req amo words a (peek rnd s a))"
  using assms
proof (induction words)
  case 0
  show ?case by (rule exI [of _ "memory_m s"]) (simp add: merged_def)
next
  case (Suc k)
  then obtain m where m: "for_res (write_word rnd req amo) [0..<k] s = Inr (s\<lparr>memory_m := m\<rparr>)"
    "\<And>a. known s a \<Longrightarrow> map_find (mem_array_m m) a \<noteq> None \<and>
        fst (readMemory rnd m a) = merged req amo k a (peek rnd s a)" by auto
  obtain m' where m': "write_word rnd req amo k (s\<lparr>memory_m := m\<rparr>) = Inr (s\<lparr>memory_m := m'\<rparr>)"
    "\<And>a. map_find (mem_array_m m) a \<noteq> None \<Longrightarrow> map_find (mem_array_m m') a \<noteq> None \<and>
        fst (readMemory rnd m' a) =
          (if a = drop_bit 3 (maddr req) + of_nat k
           then merge_mask (fst (readMemory rnd m a)) (store_word req amo (unat (drop_bit 3 (maddr req)) mod 8 + k))
                  (beToMask (be_byte (wbe req) (unat (drop_bit 3 (maddr req)) mod 8 + k)))
           else fst (readMemory rnd m a))"
    using write_word_step [of req k rnd amo "s\<lparr>memory_m := m\<rparr>"] Suc.prems by auto
  have k: "k < 8" using Suc.prems by simp
  then have "unat (of_nat k :: u64) = k" by (simp add: unat_of_nat)
  then have "fst (readMemory rnd m' a) = merged req amo (Suc k) a (peek rnd s a)" if "known s a" for a
    using m(2) [OF that] m'(2) [of a] less_Suc_offset [OF k, of a "drop_bit 3 (maddr req)"]
    by (auto simp: merged_def Let_def)
  then show ?case using m m' by (auto simp: for_res_append)
qed

text \<open>The number of words of an access of \<open>2 ^ n\<close> bytes; an aligned one stays in the 64-byte beat.\<close>

definition words_of :: "u32 \<Rightarrow> nat" where
  "words_of sz = max 1 (2 ^ unat sz div 8)"

lemma size_cases: "unat (n :: u32) \<le> 6 \<Longrightarrow> n = 0 \<or> n = 1 \<or> n = 2 \<or> n = 3 \<or> n = 4 \<or> n = 5 \<or> n = 6"
proof -
  assume "unat n \<le> 6"
  then have "unat n \<in> {0, 1, 2, 3, 4, 5, 6}" by auto
  moreover have "n = of_nat (unat n)" by simp
  ultimately show ?thesis by (auto simp del: of_nat_unat)
qed

lemma aligned_words:
  "16 dvd A \<Longrightarrow> A div 8 mod 8 \<le> (6 :: nat)"
  "32 dvd A \<Longrightarrow> A div 8 mod 8 \<le> (4 :: nat)"
  "64 dvd A \<Longrightarrow> A div 8 mod 8 = (0 :: nat)"
  by presburger+

lemma aligned_in_beat:
  assumes "unat (sz :: u32) \<le> 6" "2 ^ unat sz dvd unat (a :: u64)"
  shows "unat (drop_bit 3 a) mod 8 + words_of sz \<le> 8"
proof -
  have "unat (drop_bit 3 a) = unat a div 8" by (simp add: drop_bit_eq_div unat_div)
  then show ?thesis using size_cases [OF assms(1)] assms(2) aligned_words [of "unat a"] mod_less_divisor [of 8 "unat a div 8"]
    by (auto simp: words_of_def Suc_le_eq)
qed

lemma write_bytes:
  assumes "unat (sz :: u32) \<le> 6"
  shows "unat (ucast (2 ^ unat sz :: u64) :: u32) = 2 ^ unat sz"
    "ucast (ucast (2 ^ unat sz :: u64) :: u32) = (2 ^ unat sz :: u64)"
  using size_cases [OF assms] by auto

text \<open>A small concrete setting: word 1 holds 7, the bytes from 4096 on are an error segment, and there
  are two reservation buffers.\<close>

definition ex_state :: mem_resp where
  "ex_state = (mem_resp_new (replicate 2 \<lparr>ex_valid = False, ex_base = 0, ex_end = 0\<rparr>) 0)\<lparr>
     memory_m := \<lparr>mem_array_m = [(1, 7)], init_random = True, init_val_m = 0, rand_calls = 0\<rparr>,
     errorsegs := [\<lparr>base_addr = 4096, end_addr = 8192, seg_error = True\<rparr>]\<rparr>"

definition ex_write :: "u64 \<Rightarrow> u32 \<Rightarrow> u32 \<Rightarrow> mem_write_req" where
  "ex_write a cmd op = \<lparr>maddr = a, mlen = 0, msize = 3, mid = 1, command = cmd, atomic = op, cacheable = False,
     wdata = 0x50000000000000000, wbe = 0xff00, wlast = True\<rparr>"

lemmas ex_defs = ex_state_def ex_write_def mem_resp_new_def mem_model_new_def within_error_region_def within_region_def
  MEM_WRITE_def MEM_ATOMIC_def MEM_ATOMIC_STEX_def MEM_ATOMIC_LDEX_def write_is_amo_def mem_is_stex_def mem_is_ldex_def

lemma ex_word: "data_word 0x50000000000000000 (Suc 0) = 5" "be_byte 0xff00 (Suc 0) = 0xff" "beToMask 0xff = - 1"
  by code_simp+

text \<open>The word an address gets when it is accessed for the first time, after \<open>j\<close> other first accesses,
  and the word a write merges into.\<close>

definition initial_word :: "(nat \<Rightarrow> u64) \<Rightarrow> mem_model \<Rightarrow> nat \<Rightarrow> u64" where
  "initial_word rnd m j =
     (if init_random m
      then push_bit 32 (rnd (rand_calls m + 2 * j)) OR rnd (rand_calls m + 2 * j + 1) else init_val_m m)"

definition old_word :: "(nat \<Rightarrow> u64) \<Rightarrow> mem_model \<Rightarrow> nat \<Rightarrow> u64 \<Rightarrow> u64" where
  "old_word rnd m j a = (case map_find (mem_array_m m) a of Some v \<Rightarrow> v | None \<Rightarrow> initial_word rnd m j)"

lemma writeMemory_find:
  "map_find (mem_array_m (writeMemory rnd m wa d k)) a =
     (if a = wa
      then Some (merge_mask (old_word rnd m 0 a) d k)
      else map_find (mem_array_m m) a)"
  by (auto simp: writeMemory_def old_word_def initial_word_def init_value_def merge_mask_def map_find_insert Let_def
      split: option.splits)

lemma writeMemory_initial_word:
  "initial_word rnd (writeMemory rnd m wa d k) j =
     initial_word rnd m (if map_find (mem_array_m m) wa = None then Suc j else j)"
  by (auto simp: writeMemory_def initial_word_def init_value_def Let_def split: option.splits)

text \<open>The words \<open>j < k\<close> of a request that it writes (some byte is enabled) and that were not accessed
  before.\<close>

definition first_writes :: "mem_write_req \<Rightarrow> mem_resp \<Rightarrow> nat \<Rightarrow> nat" where
  "first_writes req s k =
     length (filter (\<lambda>j. be_byte (wbe req) (unat (drop_bit 3 (maddr req)) mod 8 + j) \<noteq> 0 \<and>
        \<not> known s (drop_bit 3 (maddr req) + of_nat j)) [0..<k])"

lemma write_word_find:
  assumes "unat (drop_bit 3 (maddr req)) mod 8 + k < 8"
  defines "i \<equiv> unat (drop_bit 3 (maddr req)) mod 8 + k" and "wa \<equiv> drop_bit 3 (maddr req) + of_nat k"
  shows "\<exists>m. write_word rnd req None k s = Inr (s\<lparr>memory_m := m\<rparr>) \<and>
     (\<forall>a. map_find (mem_array_m m) a =
        (if a = wa \<and> be_byte (wbe req) i \<noteq> 0
         then Some (merge_mask (old_word rnd (memory_m s) 0 a)
                 (data_word (wdata req) i) (beToMask (be_byte (wbe req) i)))
         else map_find (mem_array_m (memory_m s)) a)) \<and>
     (\<forall>j. initial_word rnd m j =
        initial_word rnd (memory_m s) (if be_byte (wbe req) i \<noteq> 0 \<and> \<not> known s wa then Suc j else j))"
proof (cases "be_byte (wbe req) i = 0")
  case True
  then have "write_word rnd req None k s = Inr (s\<lparr>memory_m := memory_m s\<rparr>)"
    using assms by (simp add: write_word_def)
  then show ?thesis using True by (intro exI [of _ "memory_m s"]) auto
next
  case False
  let ?m = "writeMemory rnd (memory_m s) wa (data_word (wdata req) i) (beToMask (be_byte (wbe req) i))"
  have "write_word rnd req None k s = Inr (s\<lparr>memory_m := ?m\<rparr>)"
    using False assms by (simp add: write_word_def Let_def)
  then show ?thesis using False by (intro exI [of _ ?m]) (simp add: writeMemory_find writeMemory_initial_word)
qed

lemma write_words_find:
  assumes "unat (drop_bit 3 (maddr req)) mod 8 + words \<le> 8"
  shows "\<exists>m. for_res (write_word rnd req None) [0..<words] s = Inr (s\<lparr>memory_m := m\<rparr>) \<and>
     (\<forall>a. map_find (mem_array_m m) a =
        (let d = unat (a - drop_bit 3 (maddr req)); i = unat (drop_bit 3 (maddr req)) mod 8 + d in
         if d < words \<and> be_byte (wbe req) i \<noteq> 0
         then Some (merge_mask (old_word rnd (memory_m s) (first_writes req s d) a)
                 (data_word (wdata req) i) (beToMask (be_byte (wbe req) i)))
         else map_find (mem_array_m (memory_m s)) a)) \<and>
     (\<forall>j. initial_word rnd m j = initial_word rnd (memory_m s) (first_writes req s words + j))"
  using assms
proof (induction words)
  case 0
  show ?case by (rule exI [of _ "memory_m s"]) (simp add: first_writes_def)
next
  case (Suc k)
  define b where "b = drop_bit 3 (maddr req)"
  define wa where "wa = b + of_nat k"
  obtain m where m: "for_res (write_word rnd req None) [0..<k] s = Inr (s\<lparr>memory_m := m\<rparr>)"
    "\<And>a. map_find (mem_array_m m) a =
        (let d = unat (a - b); i = unat b mod 8 + d in
         if d < k \<and> be_byte (wbe req) i \<noteq> 0
         then Some (merge_mask (old_word rnd (memory_m s) (first_writes req s d) a)
                 (data_word (wdata req) i) (beToMask (be_byte (wbe req) i)))
         else map_find (mem_array_m (memory_m s)) a)"
    "\<And>j. initial_word rnd m j = initial_word rnd (memory_m s) (first_writes req s k + j)"
    using Suc unfolding b_def by auto
  obtain m' where m': "write_word rnd req None k (s\<lparr>memory_m := m\<rparr>) = Inr (s\<lparr>memory_m := m'\<rparr>)"
    "\<And>a. map_find (mem_array_m m') a =
        (if a = wa \<and> be_byte (wbe req) (unat b mod 8 + k) \<noteq> 0
         then Some (merge_mask (old_word rnd m 0 a)
                 (data_word (wdata req) (unat b mod 8 + k)) (beToMask (be_byte (wbe req) (unat b mod 8 + k))))
         else map_find (mem_array_m m) a)"
    "\<And>j. initial_word rnd m' j = initial_word rnd m
        (if be_byte (wbe req) (unat b mod 8 + k) \<noteq> 0 \<and> map_find (mem_array_m m) wa = None then Suc j else j)"
    using write_word_find [of req k rnd "s\<lparr>memory_m := m\<rparr>"] Suc.prems unfolding b_def wa_def by auto
  have k: "k < 8" using Suc.prems by simp
  have d: "unat (wa - b) = k" using k by (simp add: wa_def unat_of_nat)
  have o: "unat (a - b) < Suc k \<longleftrightarrow> unat (a - b) < k \<or> a = wa" for a
    using less_Suc_offset [OF k] by (simp add: wa_def)
  have w: "map_find (mem_array_m m) wa = map_find (mem_array_m (memory_m s)) wa"
    unfolding m(2) by (simp add: d)
  have f: "first_writes req s (Suc k) = (if be_byte (wbe req) (unat b mod 8 + k) \<noteq> 0 \<and>
      map_find (mem_array_m (memory_m s)) wa = None then Suc (first_writes req s k) else first_writes req s k)"
    by (simp add: first_writes_def b_def [symmetric] wa_def [symmetric])
  have "map_find (mem_array_m m') a =
        (let d = unat (a - b); i = unat b mod 8 + d in
         if d < Suc k \<and> be_byte (wbe req) i \<noteq> 0
         then Some (merge_mask (old_word rnd (memory_m s) (first_writes req s d) a)
                 (data_word (wdata req) i) (beToMask (be_byte (wbe req) i)))
         else map_find (mem_array_m (memory_m s)) a)" for a
  proof (cases "a = wa")
    case True
    then show ?thesis unfolding m'(2) using d w m(3) [of 0] by (simp add: Let_def old_word_def cong: option.case_cong)
  next
    case False
    then show ?thesis unfolding m'(2) m(2) using o [of a] by (simp add: Let_def)
  qed
  moreover have "initial_word rnd m' j = initial_word rnd (memory_m s) (first_writes req s (Suc k) + j)" for j
    unfolding m'(3) w m(3) f by simp
  moreover have "for_res (write_word rnd req None) [0..<Suc k] s = Inr (s\<lparr>memory_m := m'\<rparr>)"
    using m(1) m'(1) by (simp add: for_res_append)
  ultimately show ?case unfolding b_def by blast
qed

text \<open>C19: a plain write: an aligned access of up to 64 bytes outside the error segments changes the
  memory at exactly the words with an enabled byte. Each such word holds the request's data under the
  byte enables merged into what it held before or, if it was never accessed, into the value the first
  access draws for it (in the order of the words); all other words, accessed before or not, and every
  reservation stay as they are. There is exactly one response, without error, with the request's id.\<close>

theorem mem_write_merges:
  assumes "command req \<noteq> MEM_ATOMIC" "unat (msize req) \<le> 6" "2 ^ unat (msize req) dvd unat (maddr req)"
    and "\<not> within_error_region s (maddr req) (maddr req + 2 ^ unat (msize req))"
  shows "\<exists>m. writeOperation rnd req s =
       Inr (s\<lparr>memory_m := m, write_resp_fifo := write_resp_fifo s @ [\<lparr>is_atomic = False, werror = 0, wid = mid req\<rparr>]\<rparr>) \<and>
     (\<forall>a. map_find (mem_array_m m) a =
        (let d = unat (a - drop_bit 3 (maddr req)); i = unat (drop_bit 3 (maddr req)) mod 8 + d in
         if d < words_of (msize req) \<and> be_byte (wbe req) i \<noteq> 0
         then Some (merge_mask (old_word rnd (memory_m s) (first_writes req s d) a)
                 (data_word (wdata req) i) (beToMask (be_byte (wbe req) i)))
         else map_find (mem_array_m (memory_m s)) a))"
proof -
  have w: "(if (2 :: nat) ^ unat (msize req) div 8 = 0 then 1 else 2 ^ unat (msize req) div 8) = words_of (msize req)"
    using size_cases [OF assms(2)] by (auto simp: words_of_def)
  obtain m where m: "for_res (write_word rnd req None) [0..<words_of (msize req)] s = Inr (s\<lparr>memory_m := m\<rparr>)"
    "\<forall>a. map_find (mem_array_m m) a =
        (let d = unat (a - drop_bit 3 (maddr req)); i = unat (drop_bit 3 (maddr req)) mod 8 + d in
         if d < words_of (msize req) \<and> be_byte (wbe req) i \<noteq> 0
         then Some (merge_mask (old_word rnd (memory_m s) (first_writes req s d) a)
                 (data_word (wdata req) i) (beToMask (be_byte (wbe req) i)))
         else map_find (mem_array_m (memory_m s)) a)"
    using write_words_find [OF aligned_in_beat [OF assms(2,3)], of rnd s] by blast
  have "writeOperation rnd req s = Inr (s\<lparr>memory_m := m,
      write_resp_fifo := write_resp_fifo s @ [\<lparr>is_atomic = False, werror = 0, wid = mid req\<rparr>]\<rparr>)"
    using assms m(1) w unfolding writeOperation_def
    by (simp add: write_bytes consume_reservation_def fetch_amo_def commit_write_def mem_is_stex_def write_is_amo_def Let_def)
  then show ?thesis using m(2) by blast
qed

text \<open>The same write to a word accessed before and to one never accessed.\<close>

theorem mem_write_merges_witness:
  "\<exists>m m'. writeOperation (\<lambda>_. 0) (ex_write 8 MEM_WRITE 0) ex_state = Inr (ex_state\<lparr>memory_m := m,
       write_resp_fifo := [\<lparr>is_atomic = False, werror = 0, wid = 1\<rparr>]\<rparr>) \<and> map_find (mem_array_m m) 1 = Some 5 \<and>
     writeOperation (\<lambda>_. 3) (ex_write 8 MEM_WRITE 0) (mem_resp_new [] 0) = Inr ((mem_resp_new [] 0)\<lparr>memory_m := m',
       write_resp_fifo := [\<lparr>is_atomic = False, werror = 0, wid = 1\<rparr>]\<rparr>) \<and> map_find (mem_array_m m') 1 = Some 5 \<and>
     map_find (mem_array_m m') 2 = None"
proof -
  let ?r = "ex_write 8 MEM_WRITE 0"
  have r: "words_of (msize ?r) = 1" "drop_bit 3 (maddr ?r) = 1" "wbe ?r = 0xff00" "wdata ?r = 0x50000000000000000"
    by (simp_all add: ex_write_def words_of_def)
  obtain m where "writeOperation (\<lambda>_. 0) ?r ex_state = Inr (ex_state\<lparr>memory_m := m,
       write_resp_fifo := [\<lparr>is_atomic = False, werror = 0, wid = 1\<rparr>]\<rparr>)" "map_find (mem_array_m m) 1 = Some 5"
    using mem_write_merges [of ?r ex_state "\<lambda>_. 0"] r by (auto simp: ex_defs ex_word Let_def)
  moreover obtain m' where "writeOperation (\<lambda>_. 3) ?r (mem_resp_new [] 0) = Inr ((mem_resp_new [] 0)\<lparr>memory_m := m',
       write_resp_fifo := [\<lparr>is_atomic = False, werror = 0, wid = 1\<rparr>]\<rparr>)" "map_find (mem_array_m m') 1 = Some 5"
    "map_find (mem_array_m m') 2 = None"
    using mem_write_merges [of ?r "mem_resp_new [] 0" "\<lambda>_. 3"] r
    by (auto simp: ex_defs ex_word Let_def)
  ultimately show ?thesis by blast
qed

text \<open>An access in an error segment changes neither the memory nor a reservation: it only adds an
  error response (and, for an atomic operation, an empty read response, without the error flag).\<close>

lemma mem_write_error:
  assumes "unat (msize req) \<le> 6" "within_error_region s (maddr req) (maddr req + 2 ^ unat (msize req))"
  shows "writeOperation rnd req s = Inr (s\<lparr>
     write_resp_fifo := write_resp_fifo s @ [\<lparr>is_atomic = False, werror = 1, wid = mid req\<rparr>],
     read_resp_fifo := read_resp_fifo s @
       (if write_is_amo req then [\<lparr>rerror = 0, rid = mid req, rdata = 0, rlast = True\<rparr>] else [])\<rparr>)"
  using assms unfolding writeOperation_def
  by (simp add: write_bytes write_error_def Let_def)

text \<open>C20: an atomic operation on an aligned word or double word: the response carries the old value
  of the addressed word and the memory holds the result under the byte enables.\<close>

theorem mem_amo_fetch_op:
  assumes "write_is_amo req" "msize req = 2 \<or> msize req = 3" "2 ^ unat (msize req) dvd unat (maddr req)"
    and "\<not> within_error_region s (maddr req) (maddr req + 2 ^ unat (msize req))"
    and "map_find (mem_array_m (memory_m s)) (drop_bit 3 (maddr req)) = Some old"
    and "offset = unat (maddr req) mod 8 * 8" "word = unat (drop_bit 3 (maddr req)) mod 8"
    and "part = (\<lambda>v. if msize req = 2 then ucast (ucast (drop_bit offset v) :: u32) else v)"
    and "compute_mem_amo (atomic req) (part old) (part (data_word (wdata req) word)) (2 ^ unat (msize req)) = Inr result"
  shows "\<exists>m. writeOperation rnd req s = Inr (s\<lparr>memory_m := m,
         read_resp_fifo := read_resp_fifo s @
           [\<lparr>rerror = 0, rid = mid req, rdata = set_data_word word (push_bit offset (part old)) 0, rlast = True\<rparr>],
         write_resp_fifo := write_resp_fifo s @ [\<lparr>is_atomic = False, werror = 0, wid = mid req\<rparr>]\<rparr>) \<and>
     fst (readMemory rnd m (drop_bit 3 (maddr req))) =
       merge_mask old (push_bit offset result) (beToMask (be_byte (wbe req) word))"
proof -
  have sz: "unat (msize req) \<le> 6" "words_of (msize req) = 1"
    using assms(2) by (auto simp: words_of_def)
  have r: "readMemory rnd (memory_m s) (drop_bit 3 (maddr req)) = (old, memory_m s)"
    using assms(5) by (simp add: readMemory_def)
  have av: "amo_values rnd req (2 ^ unat (msize req)) s = Inr (push_bit offset (part old), push_bit offset result, s)"
    using assms(2,6,7,8,9) r by (auto simp: amo_values_def Let_def)
  obtain m where m: "for_res (write_word rnd req (Some (push_bit offset result))) [0..<1] s = Inr (s\<lparr>memory_m := m\<rparr>)"
    "\<forall>a. known s a \<longrightarrow> map_find (mem_array_m m) a \<noteq> None \<and>
        fst (readMemory rnd m a) = merged req (Some (push_bit offset result)) 1 a (peek rnd s a)"
    using write_words [OF aligned_in_beat [OF sz(1) assms(3)], of rnd "Some (push_bit offset result)" s] sz by auto
  have st: "\<not> mem_is_stex req" using assms(1) by (simp add: write_is_amo_def mem_is_stex_def)
  have "writeOperation rnd req s = Inr (s\<lparr>memory_m := m,
         read_resp_fifo := read_resp_fifo s @
           [\<lparr>rerror = 0, rid = mid req, rdata = set_data_word word (push_bit offset (part old)) 0, rlast = True\<rparr>],
         write_resp_fifo := write_resp_fifo s @ [\<lparr>is_atomic = False, werror = 0, wid = mid req\<rparr>]\<rparr>)"
    using assms(1,2,4,7) av m(1) st unfolding writeOperation_def
    by (auto simp: consume_reservation_def fetch_amo_def commit_write_def Let_def write_bytes)
  moreover have "fst (readMemory rnd m (drop_bit 3 (maddr req))) =
       merge_mask old (push_bit offset result) (beToMask (be_byte (wbe req) word))"
    using m(2) assms(5,7) r by (auto simp: merged_def store_word_def)
  ultimately show ?thesis by blast
qed

theorem mem_amo_fetch_op_witness:
  "\<exists>m. writeOperation (\<lambda>_. 0) (ex_write 8 MEM_ATOMIC 0) ex_state = Inr (ex_state\<lparr>memory_m := m,
       read_resp_fifo := [\<lparr>rerror = 0, rid = 1, rdata = set_data_word 1 7 0, rlast = True\<rparr>],
       write_resp_fifo := [\<lparr>is_atomic = False, werror = 0, wid = 1\<rparr>]\<rparr>) \<and> fst (readMemory (\<lambda>_. 0) m 1) = 12"
  using mem_amo_fetch_op [of "ex_write 8 MEM_ATOMIC 0" ex_state 7 0 1 "\<lambda>v. v" 12 "\<lambda>_. 0"]
  by (simp add: ex_defs ex_word compute_mem_amo_def fun_eq_iff)

section \<open>Reads\<close>

text \<open>Reading may initialise words but keeps every word accessed before.\<close>

definition keeps :: "(nat \<Rightarrow> u64) \<Rightarrow> mem_model \<Rightarrow> mem_model \<Rightarrow> bool" where
  "keeps rnd m m' \<longleftrightarrow> (\<forall>a. map_find (mem_array_m m) a \<noteq> None \<longrightarrow>
     map_find (mem_array_m m') a \<noteq> None \<and> fst (readMemory rnd m' a) = fst (readMemory rnd m a))"

lemma keeps_refl [simp]: "keeps rnd m m"
  by (simp add: keeps_def)

lemma keeps_trans [trans]: "keeps rnd m m' \<Longrightarrow> keeps rnd m' m'' \<Longrightarrow> keeps rnd m m''"
  by (simp add: keeps_def)

lemma keeps_read: "keeps rnd m (snd (readMemory rnd m a))"
  using mm.rd_keeps [of m _ rnd a] by (simp add: keeps_def)

definition holds_words :: "(nat \<Rightarrow> u64) \<Rightarrow> nat \<Rightarrow> nat \<Rightarrow> mem_read_resp \<Rightarrow> mem_model \<Rightarrow> bool" where
  "holds_words rnd wa n resp m \<longleftrightarrow> (\<forall>w < n. map_find (mem_array_m m) (of_nat (wa + w)) \<noteq> None \<and>
     data_word (rdata resp) ((wa + w) mod 8) = fst (readMemory rnd m (of_nat (wa + w))))"

lemma holds_words_keeps: "holds_words rnd wa n resp m \<Longrightarrow> keeps rnd m m' \<Longrightarrow> holds_words rnd wa n resp m'"
  by (simp add: holds_words_def keeps_def)

lemma unat_word_mod8: "unat (of_nat k :: u64) mod 8 = k mod 8"
proof -
  have "unat (of_nat k :: u64) = k mod 2 ^ 64"
    using unat_of_nat [where 'a = 64, of k] by (simp add: take_bit_eq_mod)
  moreover have "(8 :: nat) dvd 2 ^ 64" by (rule dvdI [of _ _ "2 ^ 61"]) simp
  ultimately show ?thesis using mod_mod_cancel [of 8 "2 ^ 64" k] by simp
qed

lemma mod8_distinct:
  assumes "w < n" "n < 8"
  shows "(wa + w) mod 8 \<noteq> (wa + n) mod (8 :: nat)"
proof
  assume "(wa + w) mod 8 = (wa + n) mod 8"
  then have "8 dvd (wa + n) - (wa + w)" using mod_eq_dvd_iff_nat [of "wa + w" "wa + n" 8] assms by simp
  then have "8 dvd n - w" by simp
  then show False using assms by (auto dest: dvd_imp_le)
qed

lemma read_words:
  assumes "n \<le> 8" "drop_bit 3 a = (of_nat wa :: u64)"
  shows "\<exists>d m. for_upto n (read_word rnd a) (resp, s) = (resp\<lparr>rdata := d\<rparr>, s\<lparr>memory_m := m\<rparr>) \<and>
     keeps rnd (memory_m s) m \<and> holds_words rnd wa n (resp\<lparr>rdata := d\<rparr>) m"
  using assms(1)
proof (induction n)
  case 0
  show ?case
    by (intro exI [of _ "rdata resp"] exI [of _ "memory_m s"]) (simp add: holds_words_def)
next
  case (Suc n)
  then obtain d m where IH: "for_upto n (read_word rnd a) (resp, s) = (resp\<lparr>rdata := d\<rparr>, s\<lparr>memory_m := m\<rparr>)"
    "keeps rnd (memory_m s) m" "holds_words rnd wa n (resp\<lparr>rdata := d\<rparr>) m" by auto
  define m' where "m' = snd (readMemory rnd m (of_nat (wa + n)))"
  define v where "v = fst (readMemory rnd m (of_nat (wa + n)))"
  let ?d = "set_data_word ((wa + n) mod 8) v d"
  have k: "keeps rnd m m'" unfolding m'_def by (rule keeps_read)
  have step: "for_upto (Suc n) (read_word rnd a) (resp, s) = (resp\<lparr>rdata := ?d\<rparr>, s\<lparr>memory_m := m'\<rparr>)"
    using IH(1) assms(2) unat_word_mod8 [of "wa + n"]
    by (simp add: read_word_def v_def m'_def case_prod_beta Let_def)
  have "map_find (mem_array_m m') (of_nat (wa + n)) \<noteq> None" "fst (readMemory rnd m' (of_nat (wa + n))) = v"
    unfolding m'_def v_def by (rule mm.rd_known(1)) (rule mm.rd_again)
  moreover have "holds_words rnd wa n (resp\<lparr>rdata := d\<rparr>) m'" using IH(3) k by (rule holds_words_keeps)
  ultimately have "holds_words rnd wa (Suc n) (resp\<lparr>rdata := ?d\<rparr>) m'"
    using mod8_distinct [of _ n wa, symmetric] Suc.prems
    by (auto simp: holds_words_def less_Suc_eq data_word_set)
  then show ?case using step keeps_trans [OF IH(2) k] by blast
qed

text \<open>What the beats of a read carry.\<close>

definition beat_ok :: "(nat \<Rightarrow> u64) \<Rightarrow> mem_req \<Rightarrow> nat \<Rightarrow> mem_model \<Rightarrow> nat \<Rightarrow> mem_read_resp \<Rightarrow> bool" where
  "beat_ok rnd req wa m i r \<longleftrightarrow> rerror r = 0 \<and> rid r = mid req \<and> (rlast r \<longleftrightarrow> i = unat (mlen req)) \<and>
     holds_words rnd (wa + i * words_of (msize req)) (words_of (msize req)) r m"

lemma drop_push_3:
  assumes "k < 2 ^ 61"
  shows "drop_bit 3 (push_bit 3 (of_nat k)) = (of_nat k :: u64)"
proof (rule bit_word_eqI)
  fix n assume "n < LENGTH(64)"
  have "take_bit 61 k = k" using assms by (simp add: take_bit_nat_eq_self)
  then have "bit k n \<Longrightarrow> n < 61" by (metis bit_take_bit_iff)
  then show "bit (drop_bit 3 (push_bit 3 (of_nat k)) :: u64) n = bit (of_nat k :: u64) n"
    using \<open>n < LENGTH(64)\<close> by (auto simp: bit_simps)
qed

lemma read_beats:
  assumes "unat (msize req) \<le> 6" "drop_bit 3 (maddr req) = of_nat wa" "wa + n * words_of (msize req) < 2 ^ 61"
  shows "\<exists>bs m resp a. for_upto n (read_beat rnd req (words_of (msize req))) (maddr req, r0, s) =
       (a, resp, s\<lparr>memory_m := m, read_resp_fifo := read_resp_fifo s @ bs\<rparr>) \<and>
     drop_bit 3 a = of_nat (wa + n * words_of (msize req)) \<and> keeps rnd (memory_m s) m \<and> length bs = n \<and>
     (\<forall>i < n. beat_ok rnd req wa m i (bs ! i))"
  using assms(3)
proof (induction n)
  case 0
  show ?case using assms(2) by (intro exI [of _ "[]"] exI [of _ "memory_m s"]) simp
next
  case (Suc n)
  let ?w = "words_of (msize req)"
  obtain bs m resp a where IH: "for_upto n (read_beat rnd req ?w) (maddr req, r0, s) =
       (a, resp, s\<lparr>memory_m := m, read_resp_fifo := read_resp_fifo s @ bs\<rparr>)"
    "drop_bit 3 a = of_nat (wa + n * ?w)" "keeps rnd (memory_m s) m" "length bs = n"
    "\<forall>i < n. beat_ok rnd req wa m i (bs ! i)"
    using Suc by auto
  have "?w \<le> 8" using size_cases [OF assms(1)] by (auto simp: words_of_def)
  then obtain d m' where w: "for_upto ?w (read_word rnd a) (resp, s\<lparr>memory_m := m, read_resp_fifo := read_resp_fifo s @ bs\<rparr>) =
      (resp\<lparr>rdata := d\<rparr>, s\<lparr>read_resp_fifo := read_resp_fifo s @ bs, memory_m := m'\<rparr>)"
    "keeps rnd m m'" "holds_words rnd (wa + n * ?w) ?w (resp\<lparr>rdata := d\<rparr>) m'"
    using read_words [of ?w a "wa + n * ?w" rnd resp "s\<lparr>memory_m := m, read_resp_fifo := read_resp_fifo s @ bs\<rparr>"] IH(2)
    by auto
  define r where "r = resp\<lparr>rdata := d, rerror := 0, rid := mid req, rlast := (n = unat (mlen req))\<rparr>"
  have step: "for_upto (Suc n) (read_beat rnd req ?w) (maddr req, r0, s) =
      (push_bit 3 (of_nat (wa + n * ?w) + of_nat ?w), r, s\<lparr>memory_m := m', read_resp_fifo := read_resp_fifo s @ (bs @ [r])\<rparr>)"
    using IH(1,2) w(1) by (simp add: read_beat_def r_def Let_def)
  have a: "drop_bit 3 (push_bit 3 (of_nat (wa + n * ?w) + of_nat ?w)) = (of_nat (wa + Suc n * ?w) :: u64)"
    using drop_push_3 [OF Suc.prems] by (simp add: add.commute add.left_commute)
  have "beat_ok rnd req wa m' n r"
    using w(3) by (simp add: beat_ok_def r_def holds_words_def)
  moreover have "beat_ok rnd req wa m' i (bs ! i)" if "i < n" for i
    using IH(5) that holds_words_keeps w(2) unfolding beat_ok_def by blast
  ultimately have "\<forall>i < Suc n. beat_ok rnd req wa m' i ((bs @ [r]) ! i)"
    using IH(4) by (auto simp: nth_append less_Suc_eq)
  then show ?case
    using step a IH(4) keeps_trans [OF IH(3) w(2)] by (metis length_append_singleton)
qed

text \<open>C21: a read outside the error segments answers with one beat more than its length field, all with
  the request's id and without error, only the last one marked; the beats carry the consecutive
  words of the memory, each in its lane, and no word that was accessed before changes.\<close>

theorem mem_read_beats:
  assumes "unat (msize req) \<le> 6" "mlen req < 0x7fffffff" "\<not> mem_is_ldex req"
    and "\<not> within_error_region s (maddr req) (maddr req + 2 ^ unat (msize req))"
    and "wa = unat (maddr req) div 8" "words = words_of (msize req)" "wa + Suc (unat (mlen req)) * words < 2 ^ 61"
  shows "\<exists>bs m. readOperation rnd req s = Inr (s\<lparr>sb_mem_read_req := sb_mem_read_req s @ [req], memory_m := m,
       read_resp_fifo := read_resp_fifo s @ bs\<rparr>) \<and>
     length bs = Suc (unat (mlen req)) \<and>
     (\<forall>i < length bs. rerror (bs ! i) = 0 \<and> rid (bs ! i) = mid req \<and> (rlast (bs ! i) \<longleftrightarrow> i = unat (mlen req)) \<and>
        (\<forall>w < words. data_word (rdata (bs ! i)) ((wa + i * words + w) mod 8) =
           fst (readMemory rnd m (of_nat (wa + i * words + w))))) \<and>
     (\<forall>a v. map_find (mem_array_m (memory_m s)) a = Some v \<longrightarrow> fst (readMemory rnd m a) = v)"
proof -
  let ?s = "s\<lparr>sb_mem_read_req := sb_mem_read_req s @ [req]\<rparr>"
  have "unat (mlen req) < 0x7fffffff" using assms(2) by (simp add: word_less_nat_alt)
  then have len: "unat (mlen req + 1) = Suc (unat (mlen req))" "mlen req + 1 < 0x80000000"
    by (simp_all add: unat_word_ariths word_less_nat_alt)
  have "drop_bit 3 (maddr req) = of_nat (unat (drop_bit 3 (maddr req)))" by simp
  also have "unat (drop_bit 3 (maddr req)) = wa"
    by (simp add: assms(5) drop_bit_eq_div unat_div)
  finally have wa: "drop_bit 3 (maddr req) = of_nat wa" .
  have w: "(let words = 2 ^ unat (msize req) div 8 in if words = (0 :: nat) then 1 else words) = words_of (msize req)"
    using size_cases [OF assms(1)] by (auto simp: words_of_def)
  obtain bs m resp a where b: "for_upto (Suc (unat (mlen req))) (read_beat rnd req words) (maddr req, new_mem_read_resp, ?s) =
       (a, resp, ?s\<lparr>memory_m := m, read_resp_fifo := read_resp_fifo ?s @ bs\<rparr>)"
    "keeps rnd (memory_m ?s) m" "length bs = Suc (unat (mlen req))"
    "\<forall>i < Suc (unat (mlen req)). beat_ok rnd req wa m i (bs ! i)"
    using read_beats [OF assms(1) wa, of "Suc (unat (mlen req))" rnd new_mem_read_resp ?s] assms(6,7) by blast
  have "readOperation rnd req s = Inr (s\<lparr>sb_mem_read_req := sb_mem_read_req s @ [req], memory_m := m,
       read_resp_fifo := read_resp_fifo s @ bs\<rparr>)"
    using assms(1,3,4) b(1) len w
    by (simp add: readOperation_def reserve_def within_error_region_def assms(6) Let_def not_le)
  moreover have "(\<forall>i < length bs. rerror (bs ! i) = 0 \<and> rid (bs ! i) = mid req \<and> (rlast (bs ! i) \<longleftrightarrow> i = unat (mlen req)) \<and>
        (\<forall>w < words. data_word (rdata (bs ! i)) ((wa + i * words + w) mod 8) =
           fst (readMemory rnd m (of_nat (wa + i * words + w)))))"
    using b(3,4) by (simp add: beat_ok_def holds_words_def assms(6) del: of_nat_add)
  moreover have "\<forall>a v. map_find (mem_array_m (memory_m s)) a = Some v \<longrightarrow> fst (readMemory rnd m a) = v"
    using b(2) by (auto simp: keeps_def readMemory_def)
  ultimately show ?thesis using b(3) by blast
qed

theorem mem_read_beats_witness:
  "\<exists>bs m. readOperation (\<lambda>_. 0) (new_mem_req\<lparr>maddr := 8, msize := 3, mlen := 1\<rparr>) ex_state =
     Inr (ex_state\<lparr>sb_mem_read_req := [new_mem_req\<lparr>maddr := 8, msize := 3, mlen := 1\<rparr>], memory_m := m, read_resp_fifo := bs\<rparr>) \<and>
     length bs = 2 \<and> \<not> rlast (bs ! 0) \<and> rlast (bs ! 1) \<and> data_word (rdata (bs ! 0)) 1 = 7"
proof -
  obtain bs m where b: "readOperation (\<lambda>_. 0) (new_mem_req\<lparr>maddr := 8, msize := 3, mlen := 1\<rparr>) ex_state =
     Inr (ex_state\<lparr>sb_mem_read_req := [new_mem_req\<lparr>maddr := 8, msize := 3, mlen := 1\<rparr>], memory_m := m, read_resp_fifo := bs\<rparr>)"
    "length bs = 2"
    "\<forall>i < 2. (rlast (bs ! i) \<longleftrightarrow> i = 1) \<and> data_word (rdata (bs ! i)) ((1 + i) mod 8) = fst (readMemory (\<lambda>_. 0) m (of_nat (1 + i)))"
    "fst (readMemory (\<lambda>_. 0) m 1) = 7"
    using mem_read_beats [of "new_mem_req\<lparr>maddr := 8, msize := 3, mlen := 1\<rparr>" ex_state 1 1 "\<lambda>_. 0"]
    by (auto simp: ex_defs new_mem_req_def words_of_def)
  then show ?thesis using b(3) [rule_format, of 0] b(3) [rule_format, of 1] by auto
qed

section \<open>Exclusive accesses\<close>

text \<open>
  The contract of the reservations, without buffers: one optional address range per id, set by a
  load-exclusive, taken by a store-exclusive, and not touched by any other access. \<open>write_answers\<close>
  lists the responses that a sequence of requests gets on the write channel.
\<close>

datatype mem_event = RdReq mem_req | WrReq mem_write_req

fun mem_step :: "(nat \<Rightarrow> u64) \<Rightarrow> mem_event \<Rightarrow> mem_resp \<Rightarrow> mem_resp res" where
  "mem_step rnd (RdReq q) s = readOperation rnd q s"
| "mem_step rnd (WrReq q) s = writeOperation rnd q s"

primrec mem_steps :: "(nat \<Rightarrow> u64) \<Rightarrow> mem_event list \<Rightarrow> mem_resp \<Rightarrow> mem_resp res" where
  "mem_steps rnd [] s = Inr s"
| "mem_steps rnd (e # es) s = res_bind (mem_step rnd e s) (mem_steps rnd es)"

type_synonym resvs = "u32 \<Rightarrow> (u64 \<times> u64) option"

definition resvs_of :: "mem_resp \<Rightarrow> resvs" where
  "resvs_of s i = (let b = excl_buf_m s ! unat i in if ex_valid b then Some (ex_base b, ex_end b) else None)"

definition write_end :: "mem_write_req \<Rightarrow> u64" where
  "write_end q = maddr q + ucast (ucast (push_bit (unat (msize q)) 1 :: u64) :: u32)"

fun resv_step :: "segment list \<Rightarrow> mem_event \<Rightarrow> resvs \<Rightarrow> resvs" where
  "resv_step segs (RdReq q) R =
     (if mem_is_ldex q \<and> \<not> within_error_region_of segs (maddr q) (maddr q + 2 ^ unat (msize q))
      then R(mid q := Some (maddr q, maddr q + 2 ^ unat (msize q))) else R)"
| "resv_step segs (WrReq q) R =
     (if mem_is_stex q \<and> \<not> within_error_region_of segs (maddr q) (write_end q) then R(mid q := None) else R)"

definition write_answer :: "segment list \<Rightarrow> mem_write_req \<Rightarrow> resvs \<Rightarrow> mem_write_resp" where
  "write_answer segs q R =
     (if within_error_region_of segs (maddr q) (write_end q)
      then \<lparr>is_atomic = False, werror = 1, wid = mid q\<rparr>
      else \<lparr>is_atomic = (mem_is_stex q \<and>
              (case R (mid q) of None \<Rightarrow> False | Some (b, e) \<Rightarrow> within_region (maddr q) (write_end q) b e)),
            werror = 0, wid = mid q\<rparr>)"

fun write_answers :: "segment list \<Rightarrow> resvs \<Rightarrow> mem_event list \<Rightarrow> mem_write_resp list" where
  "write_answers segs R [] = []"
| "write_answers segs R (RdReq q # es) = write_answers segs (resv_step segs (RdReq q) R) es"
| "write_answers segs R (WrReq q # es) = write_answer segs q R # write_answers segs (resv_step segs (WrReq q) R) es"

text \<open>The parts of the state that reading and writing words leave alone.\<close>

definition same_frame :: "mem_resp \<Rightarrow> mem_resp \<Rightarrow> bool" where
  "same_frame s t \<longleftrightarrow> errorsegs t = errorsegs s \<and> excl_buf_m t = excl_buf_m s \<and> write_resp_fifo t = write_resp_fifo s"

lemma same_frame_trans: "same_frame s t \<Longrightarrow> same_frame t u \<Longrightarrow> same_frame s u"
  by (simp add: same_frame_def)

lemma for_upto_frame:
  assumes "\<And>i x. same_frame (get x) (get (f i x))"
  shows "same_frame (get x) (get (for_upto n f x))"
  by (induction n) (use assms in \<open>auto intro: same_frame_trans simp: same_frame_def\<close>)

lemma read_word_frame: "same_frame (snd x) (snd (read_word rnd a w x))"
  by (simp add: read_word_def same_frame_def case_prod_beta Let_def)

lemma read_beat_frame: "same_frame (snd (snd x)) (snd (snd (read_beat rnd req words i x)))"
proof -
  obtain a r s where x: "x = (a, r, s)" by (cases x)
  have "same_frame s (snd (for_upto words (read_word rnd a) (r, s)))"
    using for_upto_frame [of snd "read_word rnd a" "(r, s)" words] read_word_frame by simp
  then show ?thesis by (simp add: x read_beat_def same_frame_def case_prod_beta Let_def)
qed

lemma write_word_frame: "write_word rnd req amo w s = Inr s' \<Longrightarrow> same_frame s s'"
  by (auto simp: write_word_def same_frame_def Let_def split: if_splits)

lemma write_words_frame: "for_res (write_word rnd req amo) ws s = Inr s' \<Longrightarrow> same_frame s s'"
  by (induction ws arbitrary: s)
    (auto simp: same_frame_def res_bind_Inr_iff dest!: write_word_frame)

lemma resvs_of_cong: "excl_buf_m t = excl_buf_m s \<Longrightarrow> resvs_of t = resvs_of s"
  by (simp add: resvs_of_def fun_eq_iff)

lemma resvs_of_frame: "same_frame s t \<Longrightarrow> resvs_of t = resvs_of s"
  by (rule resvs_of_cong) (simp add: same_frame_def)

lemma resvs_of_update:
  assumes "unat i < length (excl_buf_m s)" "excl_buf_m t = (excl_buf_m s)[unat i := b]"
  shows "resvs_of t = (resvs_of s)(i := if ex_valid b then Some (ex_base b, ex_end b) else None)"
proof
  fix j show "resvs_of t j = ((resvs_of s)(i := if ex_valid b then Some (ex_base b, ex_end b) else None)) j"
    using assms by (cases "j = i") (simp_all add: resvs_of_def word_unat_eq_iff)
qed

lemma reserve_step:
  assumes "reserve req s = Inr t"
    and "\<not> within_error_region_of (errorsegs s) (maddr req) (maddr req + 2 ^ unat (msize req))"
  shows "resvs_of t = resv_step (errorsegs s) (RdReq req) (resvs_of s) \<and>
    errorsegs t = errorsegs s \<and> write_resp_fifo t = write_resp_fifo s"
proof (cases "mem_is_ldex req")
  case True
  then have b: "unat (mid req) < length (excl_buf_m s)" "t = s\<lparr>excl_buf_m := (excl_buf_m s)[unat (mid req) :=
      \<lparr>ex_valid = True, ex_base = maddr req, ex_end = maddr req + 2 ^ unat (msize req)\<rparr>]\<rparr>"
    using assms(1) by (simp_all add: reserve_def split: if_splits)
  have "resvs_of t = (resvs_of s)(mid req := Some (maddr req, maddr req + 2 ^ unat (msize req)))"
    using resvs_of_update [OF b(1), of t] by (simp add: b(2))
  then show ?thesis using assms(2) b True by simp
next
  case False
  then show ?thesis using assms by (simp add: reserve_def)
qed

lemma readOperation_step:
  assumes "readOperation rnd req s = Inr t"
  shows "resvs_of t = resv_step (errorsegs s) (RdReq req) (resvs_of s) \<and>
    errorsegs t = errorsegs s \<and> write_resp_fifo t = write_resp_fifo s"
proof (cases "within_error_region_of (errorsegs s) (maddr req) (maddr req + 2 ^ unat (msize req))")
  case True
  then show ?thesis using assms
    by (auto simp: readOperation_def within_error_region_def resvs_of_def fun_eq_iff Let_def split: if_splits)
next
  case False
  let ?s = "s\<lparr>sb_mem_read_req := sb_mem_read_req s @ [req]\<rparr>"
  obtain u n w where u: "reserve req ?s = Inr u"
    "t = snd (snd (for_upto n (read_beat rnd req w) (maddr req, new_mem_read_resp, u)))"
    using assms False
    by (auto simp: readOperation_def within_error_region_def res_bind_Inr_iff case_prod_beta Let_def split: if_splits)
  have "same_frame u t"
    using u(2) for_upto_frame [of "\<lambda>x. snd (snd x)" "read_beat rnd req w" "(maddr req, new_mem_read_resp, u)" n]
      read_beat_frame by simp
  moreover have "resvs_of u = resv_step (errorsegs s) (RdReq req) (resvs_of s) \<and>
    errorsegs u = errorsegs s \<and> write_resp_fifo u = write_resp_fifo s"
    using reserve_step [OF u(1)] False resvs_of_cong [of ?s s] by simp
  ultimately show ?thesis using resvs_of_frame [of u t] by (simp add: same_frame_def)
qed

lemma consume_step:
  assumes "consume_reservation req e s = Inr (ok, t)" "e = write_end req"
    and "\<not> within_error_region_of (errorsegs s) (maddr req) e"
  shows "resvs_of t = resv_step (errorsegs s) (WrReq req) (resvs_of s) \<and>
    errorsegs t = errorsegs s \<and> write_resp_fifo t = write_resp_fifo s \<and>
    write_answer (errorsegs s) req (resvs_of s) = \<lparr>is_atomic = (mem_is_stex req \<and> ok), werror = 0, wid = mid req\<rparr>"
proof (cases "mem_is_stex req")
  case True
  let ?b = "excl_buf_m s ! unat (mid req)"
  have b: "unat (mid req) < length (excl_buf_m s)"
    using assms(1) True by (simp add: consume_reservation_def split: if_splits)
  show ?thesis
  proof (cases "ex_valid ?b")
    case v: True
    then have t: "t = s\<lparr>excl_buf_m := (excl_buf_m s)[unat (mid req) := ?b\<lparr>ex_valid := False\<rparr>]\<rparr>"
      "ok = within_region (maddr req) e (ex_base ?b) (ex_end ?b)"
      using assms(1) True b by (simp_all add: consume_reservation_def Let_def)
    have "resvs_of t = (resvs_of s)(mid req := None)"
      using resvs_of_update [OF b, of t] by (simp add: t)
    then show ?thesis using t v True assms(2,3) by (simp add: write_answer_def resvs_of_def Let_def)
  next
    case v: False
    then have "t = s" "\<not> ok" using assms(1) True b by (simp_all add: consume_reservation_def Let_def)
    moreover have "resvs_of s (mid req) = None" using v by (simp add: resvs_of_def)
    ultimately show ?thesis using True assms(2,3) by (simp add: write_answer_def fun_upd_idem)
  qed
next
  case False
  then show ?thesis using assms by (simp add: consume_reservation_def write_answer_def)
qed

lemma fetch_amo_frame: "fetch_amo rnd req bytes s = Inr (amo, t) \<Longrightarrow> same_frame s t"
  by (auto simp: fetch_amo_def amo_values_def same_frame_def res_bind_Inr_iff case_prod_beta Let_def split: if_splits)

lemma commit_write_frame:
  assumes "commit_write rnd req bytes ok amo s = Inr t"
  shows "same_frame s t"
proof (cases "\<not> mem_is_stex req \<or> ok")
  case True
  then obtain ws u where u: "for_res (write_word rnd req (map_option snd amo)) ws s = Inr u"
    "t = u \<or> (\<exists>r. t = u\<lparr>read_resp_fifo := r\<rparr>)"
    using assms by (cases amo) (auto simp: commit_write_def res_bind_Inr_iff Let_def)
  then show ?thesis using write_words_frame [OF u(1)] by (auto simp: same_frame_def)
next
  case False
  then show ?thesis using assms by (simp add: commit_write_def same_frame_def)
qed

lemma writeOperation_step:
  assumes "writeOperation rnd req s = Inr t"
  shows "resvs_of t = resv_step (errorsegs s) (WrReq req) (resvs_of s) \<and> errorsegs t = errorsegs s \<and>
    write_resp_fifo t = write_resp_fifo s @ [write_answer (errorsegs s) req (resvs_of s)]"
proof (cases "within_error_region_of (errorsegs s) (maddr req) (write_end req)")
  case True
  then have "t = write_error req s"
    using assms by (simp add: writeOperation_def within_error_region_def write_end_def Let_def split: if_splits)
  then have "excl_buf_m t = excl_buf_m s" "errorsegs t = errorsegs s"
    "write_resp_fifo t = write_resp_fifo s @ [\<lparr>is_atomic = False, werror = 1, wid = mid req\<rparr>]"
    by (simp_all add: write_error_def Let_def)
  then show ?thesis
    using True resvs_of_cong [of t s] by (simp add: write_answer_def)
next
  case False
  obtain ok u amo v w b where w: "consume_reservation req (write_end req) s = Inr (ok, u)"
    "fetch_amo rnd req b u = Inr (amo, v)" "commit_write rnd req (unat b) ok amo v = Inr w"
    "t = w\<lparr>write_resp_fifo := write_resp_fifo w @ [\<lparr>is_atomic = (mem_is_stex req \<and> ok), werror = 0, wid = mid req\<rparr>]\<rparr>"
    using assms False
    by (auto simp: writeOperation_def within_error_region_def write_end_def res_bind_Inr_iff Let_def split: if_splits)
  have "same_frame u w"
    using fetch_amo_frame [OF w(2)] commit_write_frame [OF w(3)] by (rule same_frame_trans)
  then show ?thesis
    using consume_step [OF w(1) refl False] resvs_of_frame [of u w] resvs_of_cong [of t w] w(4)
    by (simp add: same_frame_def)
qed

text \<open>C8: exclusive accesses refine the abstract reservations: over any sequence of requests that the
  memory serves, the valid buffers are exactly the reservations of the contract, every write gets
  exactly one response, in order, with its id, with the error flag exactly in an error segment, and a
  store-exclusive succeeds exactly when its id holds a reservation that overlaps it.\<close>

theorem exclusive_refines:
  assumes "mem_steps rnd es s = Inr t"
  shows "resvs_of t = fold (resv_step (errorsegs s)) es (resvs_of s) \<and>
    write_resp_fifo t = write_resp_fifo s @ write_answers (errorsegs s) (resvs_of s) es"
  using assms
proof (induction es arbitrary: s)
  case (Cons e es)
  then obtain u where u: "mem_step rnd e s = Inr u" "mem_steps rnd es u = Inr t"
    by (auto simp: res_bind_Inr_iff)
  show ?case
    using Cons.IH [OF u(2)] u(1) readOperation_step [of rnd _ s u] writeOperation_step [of rnd _ s u]
    by (cases e) (simp_all del: resv_step.simps)
qed simp

theorem exclusive_refines_witness:
  "write_resp_fifo (projr (mem_steps (\<lambda>_. 0) [RdReq (new_mem_req\<lparr>maddr := 8, msize := 3, mid := 1, command := 2, atomic := 0xc\<rparr>),
       WrReq (ex_write 8 MEM_ATOMIC 0xd), WrReq (ex_write 8 MEM_ATOMIC 0xd)] ex_state)) =
     [\<lparr>is_atomic = True, werror = 0, wid = 1\<rparr>, \<lparr>is_atomic = False, werror = 0, wid = 1\<rparr>]"
proof -
  let ?es = "[RdReq (new_mem_req\<lparr>maddr := 8, msize := 3, mid := 1, command := 2, atomic := 0xc\<rparr>),
       WrReq (ex_write 8 MEM_ATOMIC 0xd), WrReq (ex_write 8 MEM_ATOMIC 0xd)]"
  have "\<not> isl (mem_steps (\<lambda>_. 0) ?es ex_state)" by code_simp
  then obtain t where t: "mem_steps (\<lambda>_. 0) ?es ex_state = Inr t" by (auto simp: isl_def split: sum.splits) (metis sum.exhaust)
  have "write_resp_fifo ex_state @ write_answers (errorsegs ex_state) (resvs_of ex_state) ?es =
     [\<lparr>is_atomic = True, werror = 0, wid = 1\<rparr>, \<lparr>is_atomic = False, werror = 0, wid = 1\<rparr>]" by code_simp
  then show ?thesis using exclusive_refines [OF t] t by simp
qed

end
