(* ===== verification/Test_Sequence.thy ===== *)
theory Test_Sequence
  imports Transaction
begin

text \<open>
  What every test sequence of the cache testbench shares: the pool of transaction objects
  (\<^verbatim>\<open>sc_verif_lib/include/{transaction_pool,sequence,transaction}.h\<close>), the transaction identifiers in
  use and the memory segments (\<^verbatim>\<open>hpdcache_test_sequence.h\<close>). The values of \<^verbatim>\<open>rand()\<close> are parameters.
\<close>

section \<open>The pool of transaction objects\<close>

text \<open>
  The objects behind the shared pointers are numbered in the order of their creation; \<open>held\<close> is not
  part of the code, it records the objects that were handed out and not given back.
\<close>

record transaction_pool =
  pool :: "nat list"
  trans_bundle_sz :: nat
  nb_trans :: u64
  nb_allocated :: nat
  nb_release :: u64

definition Transaction_pool :: "nat \<Rightarrow> transaction_pool" where
  "Transaction_pool bsz = \<lparr>pool = [], trans_bundle_sz = bsz, nb_trans = 0, nb_allocated = 0, nb_release = 0\<rparr>"

definition pool_refill :: "transaction_pool \<Rightarrow> transaction_pool" where
  "pool_refill p =
     for_upto (trans_bundle_sz p)
       (\<lambda>i p. p\<lparr>pool := pool p @ [nb_allocated p], nb_allocated := nb_allocated p + 1\<rparr>) p"

text \<open>\<^verbatim>\<open>pool.front()\<close> of an empty list is undefined (a bundle size of 0).\<close>

definition pool_acquire :: "transaction_pool \<Rightarrow> (nat \<times> u64 \<times> transaction_pool) res" where
  "pool_acquire p =
     (let p = (if pool p = [] then pool_refill p else p) in
      case pool p of
        [] \<Rightarrow> Inl OutOfBounds
      | t # ts \<Rightarrow> Inr (t, nb_trans p, p\<lparr>pool := ts, nb_trans := nb_trans p + 1\<rparr>))"

definition pool_release :: "nat \<Rightarrow> transaction_pool \<Rightarrow> transaction_pool" where
  "pool_release t p = p\<lparr>nb_release := nb_release p + 1, pool := pool p @ [t]\<rparr>"

text \<open>
  \<^verbatim>\<open>Sequence::acquire_transaction\<close>: the object is initialised by assigning a fresh one, which also
  overwrites the identifier that the pool has just set; only the variant that copies an initial value
  restores it. The result is the object, its identifier and its contents.
\<close>

definition acquire_transaction :: "transaction_pool \<Rightarrow> (nat \<times> u64 \<times> core_req \<times> transaction_pool) res" where
  "acquire_transaction p = res_bind (pool_acquire p) (\<lambda>(t, _, p). Inr (t, 0, new_core_req, p))"

definition acquire_transaction_init ::
  "core_req \<Rightarrow> transaction_pool \<Rightarrow> (nat \<times> u64 \<times> core_req \<times> transaction_pool) res" where
  "acquire_transaction_init init p = res_bind (pool_acquire p) (\<lambda>(t, n, p). Inr (t, n, init, p))"

section \<open>Identifiers in use\<close>

definition HPDCACHE_REQ_MAX_TRANS_ID :: nat where
  "HPDCACHE_REQ_MAX_TRANS_ID = 2 ^ HPDCACHE_REQ_TRANS_ID_WIDTH"

definition is_available_id :: "nat list \<Rightarrow> bool" where
  "is_available_id ids \<longleftrightarrow> length ids < HPDCACHE_REQ_MAX_TRANS_ID"

partial_function (option) find_id :: "nat list \<Rightarrow> nat \<Rightarrow> nat option" where
  "find_id ids n = (if n \<in> set ids then find_id ids ((n + 1) mod HPDCACHE_REQ_MAX_TRANS_ID) else Some n)"

declare find_id.simps [code]

definition allocate_id :: "nat \<Rightarrow> nat list \<Rightarrow> (nat \<times> nat list) res" where
  "allocate_id rnd ids =
     res_bind (require (is_available_id ids) AssertFailed) (\<lambda>_.
     case find_id ids (rnd mod HPDCACHE_REQ_MAX_TRANS_ID) of
       None \<Rightarrow> Inl Diverges
     | Some n \<Rightarrow> Inr (n, ids @ [n]))"

text \<open>The result says whether the identifier was in use; if not, an error is printed.\<close>

definition deallocate_id :: "nat \<Rightarrow> nat list \<Rightarrow> bool \<times> nat list" where
  "deallocate_id n ids = (if n \<in> set ids then (True, remove1 n ids) else (False, ids))"

section \<open>Memory segments\<close>

datatype seg_wr_policy = SEG_WR_POLICY_AUTO | SEG_WR_POLICY_WB | SEG_WR_POLICY_WT | SEG_WR_POLICY_RANDOM

record mem_segment =
  seg_base :: "49 word"
  seg_length :: "49 word"
  seg_uncached :: bool
  seg_amo_supported :: bool
  seg_policy :: seg_wr_policy

definition new_mem_segment :: mem_segment where
  "new_mem_segment = \<lparr>seg_base = 0, seg_length = 0, seg_uncached = False, seg_amo_supported = False,
     seg_policy = SEG_WR_POLICY_AUTO\<rparr>"

definition get_base :: "mem_segment \<Rightarrow> u64" where "get_base g = ucast (seg_base g)"
definition get_length :: "mem_segment \<Rightarrow> u64" where "get_length g = ucast (seg_length g)"
definition get_end :: "mem_segment \<Rightarrow> u64" where "get_end g = ucast (seg_base g) + (ucast (seg_length g) - 1)"
definition set_base :: "u64 \<Rightarrow> mem_segment \<Rightarrow> mem_segment" where "set_base b g = g\<lparr>seg_base := ucast b\<rparr>"
definition set_length :: "u64 \<Rightarrow> mem_segment \<Rightarrow> mem_segment" where "set_length n g = g\<lparr>seg_length := ucast n\<rparr>"

section \<open>Identifier pools\<close>

text \<open>
  The contract that the sequences and the scoreboard rely on: an allocation, when one is possible,
  returns an identifier that is not in use, and a release makes exactly this identifier free again.
\<close>

locale id_pool =
  fixes alloc :: "'r \<Rightarrow> 's \<Rightarrow> (nat \<times> 's) res" and release :: "nat \<Rightarrow> 's \<Rightarrow> 's"
    and used :: "'s \<Rightarrow> nat set" and inv :: "'s \<Rightarrow> bool" and bound :: nat
  assumes used_bound: "inv s \<Longrightarrow> used s \<subseteq> {..<bound}"
    and alloc_ok: "inv s \<Longrightarrow> card (used s) < bound \<Longrightarrow>
      \<exists>i s'. alloc r s = Inr (i, s') \<and> i \<notin> used s \<and> used s' = insert i (used s) \<and> inv s'"
    and alloc_full: "inv s \<Longrightarrow> card (used s) = bound \<Longrightarrow> alloc r s = Inl AssertFailed"
    and release_ok: "inv s \<Longrightarrow> used (release i s) = used s - {i} \<and> inv (release i s)"
begin

lemma finite_used: "inv s \<Longrightarrow> finite (used s)"
  using used_bound finite_subset by blast

lemma alloc_fresh:
  assumes "inv s" "alloc r s = Inr (i, s')"
  shows "i \<notin> used s" "i < bound" "used s' = insert i (used s)" "inv s'"
proof -
  have "card (used s) \<le> bound" using card_mono [OF _ used_bound [OF assms(1)]] by simp
  moreover have "card (used s) \<noteq> bound" using alloc_full assms by fastforce
  ultimately show "i \<notin> used s" "used s' = insert i (used s)" "inv s'"
    using alloc_ok [OF assms(1), of r] assms(2) by auto
  then show "i < bound" using used_bound [of s'] by auto
qed

text \<open>Holders of identifiers: a client that takes identifiers only from the pool and gives back only
  what it holds never holds an identifier twice.\<close>

inductive holding :: "'s \<Rightarrow> nat list \<Rightarrow> bool" where
  start: "inv s \<Longrightarrow> used s = {} \<Longrightarrow> holding s []"
| take: "holding s hs \<Longrightarrow> alloc r s = Inr (i, s') \<Longrightarrow> holding s' (hs @ [i])"
| drop: "holding s hs \<Longrightarrow> i \<in> set hs \<Longrightarrow> holding (release i s) (remove1 i hs)"

lemma holding_distinct: "holding s hs \<Longrightarrow> inv s \<and> distinct hs \<and> set hs = used s"
proof (induction rule: holding.induct)
  case (take s hs r i s')
  then show ?case using alloc_fresh [of s r i s'] by auto
next
  case (drop s hs i)
  then show ?case using release_ok [of s i] by (auto simp: set_remove1_eq)
qed auto

end

section \<open>The identifiers honour the contract\<close>

definition ids_ok :: "nat list \<Rightarrow> bool" where
  "ids_ok ids \<longleftrightarrow> distinct ids \<and> set ids \<subseteq> {..<HPDCACHE_REQ_MAX_TRANS_ID}"

lemma max_trans_id [simp]: "HPDCACHE_REQ_MAX_TRANS_ID = 64"
  by (simp add: HPDCACHE_REQ_MAX_TRANS_ID_def HPDCACHE_REQ_TRANS_ID_WIDTH_def)

text \<open>The search ends: it visits the identifiers in turn, and not all of them are in use.\<close>

lemma find_id_steps:
  assumes "\<forall>j < k. (n + j) mod 64 \<in> set ids" "n < 64"
  shows "find_id ids n = find_id ids ((n + k) mod 64)"
  using assms(1)
proof (induction k)
  case (Suc k)
  have "find_id ids ((n + k) mod 64) = find_id ids (((n + k) mod 64 + 1) mod 64)"
    using Suc.prems by (subst find_id.simps) simp
  also have "((n + k) mod 64 + 1) mod 64 = (n + Suc k) mod 64" by (simp add: mod_simps)
  finally show ?case using Suc by simp
qed (use assms(2) in simp)

lemma find_id_free:
  assumes "length ids < 64" "n < 64"
  shows "\<exists>i. find_id ids n = Some i \<and> i \<notin> set ids \<and> i < 64"
proof -
  have "card (set ids) < card {..<64 :: nat}" using assms(1) card_length [of ids] by simp
  then have "\<exists>x \<in> {..<64}. x \<notin> set ids"
    by (metis card_mono finite_set linorder_not_le subsetI)
  then obtain x where x: "x < 64" "x \<notin> set ids" by auto
  have "(n + (x + 64 - n)) mod 64 = x" using x assms(2) by simp
  then have ex: "\<exists>k. (n + k) mod 64 \<notin> set ids" using x(2) by metis
  define k where "k = (LEAST k. (n + k) mod 64 \<notin> set ids)"
  have k: "(n + k) mod 64 \<notin> set ids" unfolding k_def by (rule LeastI_ex [OF ex])
  have "\<forall>j < k. (n + j) mod 64 \<in> set ids" unfolding k_def using not_less_Least by blast
  then have "find_id ids n = find_id ids ((n + k) mod 64)" by (rule find_id_steps [OF _ assms(2)])
  also have "\<dots> = Some ((n + k) mod 64)" using k by (subst find_id.simps) simp
  finally show ?thesis using k by simp
qed

interpretation trans_ids: id_pool allocate_id "\<lambda>i ids. snd (deallocate_id i ids)" set ids_ok HPDCACHE_REQ_MAX_TRANS_ID
proof unfold_locales
  fix ids r
  assume a: "ids_ok ids"
  show "set ids \<subseteq> {..<HPDCACHE_REQ_MAX_TRANS_ID}" using a by (simp add: ids_ok_def)
  have len: "card (set ids) = length ids" using a by (simp add: ids_ok_def distinct_card)
  { assume "card (set ids) < HPDCACHE_REQ_MAX_TRANS_ID"
    then have "length ids < 64" using len by simp
    then obtain i where "find_id ids (r mod 64) = Some i" "i \<notin> set ids" "i < 64"
      using find_id_free [of ids "r mod 64"] by auto
    then show "\<exists>i s'. allocate_id r ids = Inr (i, s') \<and> i \<notin> set ids \<and> set s' = insert i (set ids) \<and> ids_ok s'"
      using a \<open>length ids < 64\<close> by (auto simp: allocate_id_def is_available_id_def ids_ok_def) }
  { assume "card (set ids) = HPDCACHE_REQ_MAX_TRANS_ID"
    then show "allocate_id r ids = Inl AssertFailed"
      using len by (simp add: allocate_id_def is_available_id_def) }
  show "set (snd (deallocate_id i ids)) = set ids - {i} \<and> ids_ok (snd (deallocate_id i ids))" for i
    using a by (auto simp: deallocate_id_def ids_ok_def)
qed

lemma allocate_id_free:
  assumes "length ids < 64"
  shows "\<exists>n. allocate_id r ids = Inr (n, ids @ [n]) \<and> n \<notin> set ids \<and> n < 64"
  using find_id_free [of ids "r mod 64"] assms by (auto simp: allocate_id_def is_available_id_def)

text \<open>The search for a free identifier ends whenever fewer than 64 identifiers are in use, and
  the identifier it returns is in range and not in use; with all 64 in use the assertion fails.\<close>

lemma allocate_id_total:
  assumes "distinct ids" "set ids \<subseteq> {..<64}"
  shows "(length ids < 64 \<longrightarrow>
      (\<exists>n. allocate_id r ids = Inr (n, ids @ [n]) \<and> n \<notin> set ids \<and> n < 64)) \<and>
    (length ids = 64 \<longrightarrow> allocate_id r ids = Inl AssertFailed)"
  using allocate_id_free [of ids r] by (simp add: allocate_id_def is_available_id_def)

section \<open>Objects of the pool\<close>

inductive pool_run :: "nat \<Rightarrow> transaction_pool \<Rightarrow> nat list \<Rightarrow> bool" for bsz where
  pool_start: "pool_run bsz (Transaction_pool bsz) []"
| pool_take: "pool_run bsz p held \<Longrightarrow> pool_acquire p = Inr (t, n, p') \<Longrightarrow> pool_run bsz p' (held @ [t])"
| pool_give: "pool_run bsz p held \<Longrightarrow> t \<in> set held \<Longrightarrow> pool_run bsz (pool_release t p) (remove1 t held)"

definition pool_inv :: "nat \<Rightarrow> transaction_pool \<Rightarrow> nat list \<Rightarrow> bool" where
  "pool_inv bsz p held \<longleftrightarrow> trans_bundle_sz p = bsz \<and> distinct (pool p @ held) \<and>
     set (pool p @ held) = {..<nb_allocated p}"

lemma pool_refill_fields:
  "pool (for_upto k (\<lambda>i p. p\<lparr>pool := pool p @ [nb_allocated p], nb_allocated := nb_allocated p + 1\<rparr>) p) =
     pool p @ [nb_allocated p..<nb_allocated p + k] \<and>
   nb_allocated (for_upto k (\<lambda>i p. p\<lparr>pool := pool p @ [nb_allocated p], nb_allocated := nb_allocated p + 1\<rparr>) p) =
     nb_allocated p + k \<and>
   trans_bundle_sz (for_upto k (\<lambda>i p. p\<lparr>pool := pool p @ [nb_allocated p], nb_allocated := nb_allocated p + 1\<rparr>) p) =
     trans_bundle_sz p"
  by (induction k) auto

lemma pool_refill_inv: "pool_inv b p held \<Longrightarrow> pool_inv b (pool_refill p) held"
proof -
  assume inv: "pool_inv b p held"
  let ?n = "nb_allocated p" and ?k = "trans_bundle_sz p"
  have q: "pool (pool_refill p) = pool p @ [?n..<?n + ?k]" "nb_allocated (pool_refill p) = ?n + ?k"
    "trans_bundle_sz (pool_refill p) = ?k"
    using pool_refill_fields [of ?k p] by (simp_all add: pool_refill_def)
  have old: "set (pool p) \<union> set held = {..<?n}" "distinct (pool p)" "distinct held" "set (pool p) \<inter> set held = {}"
    using inv by (simp_all add: pool_inv_def)
  then have "set (pool p) \<subseteq> {..<?n}" "set held \<subseteq> {..<?n}" by blast+
  then have "set (pool p) \<inter> {?n..<?n + ?k} = {}" "set held \<inter> {?n..<?n + ?k} = {}" by fastforce+
  moreover have "set (pool p) \<union> {?n..<?n + ?k} \<union> set held = {..<?n + ?k}"
    using old(1) ivl_disj_un_one(2) [of ?n "?n + ?k"] by (metis Un_commute Un_left_commute le_add1 sup_assoc)
  ultimately show ?thesis using old inv unfolding pool_inv_def q by auto
qed

lemma pool_acquire_inv:
  assumes "pool_inv b p held" "pool_acquire p = Inr (t, n, p')"
  shows "pool_inv b p' (held @ [t]) \<and> t \<notin> set held"
proof -
  define q where "q = (if pool p = [] then pool_refill p else p)"
  have q: "pool_inv b q held" using assms(1) pool_refill_inv by (simp add: q_def)
  obtain ts where "pool q = t # ts" "p' = q\<lparr>pool := ts, nb_trans := nb_trans q + 1\<rparr>"
    using assms(2) by (auto simp: pool_acquire_def Let_def q_def [symmetric] split: list.splits)
  then show ?thesis using q by (auto simp: pool_inv_def)
qed

lemma pool_run_inv: "pool_run b p held \<Longrightarrow> pool_inv b p held"
proof (induction rule: pool_run.induct)
  case pool_start
  show ?case by (simp add: pool_inv_def Transaction_pool_def)
next
  case (pool_take p held t n p')
  then show ?case using pool_acquire_inv by blast
next
  case (pool_give p held t)
  then show ?case by (auto simp: pool_inv_def pool_release_def)
qed

lemma pool_acquire_total:
  assumes "pool_run bsz p held" "0 < bsz"
  shows "\<exists>t n p'. pool_acquire p = Inr (t, n, p')"
  using pool_refill_fields [of "trans_bundle_sz p" p] assms(2) pool_run_inv [OF assms(1)]
  by (auto simp: pool_acquire_def pool_refill_def pool_inv_def Let_def split: list.splits)

text \<open>The pool never hands out an object that is still held, however acquisitions and releases are
  interleaved, it always has an object to hand out, and the objects it has created are exactly those
  in the pool and those held.\<close>

lemma pool_never_shares:
  assumes "pool_run bsz p held" "0 < bsz"
  shows "(\<exists>t n p'. pool_acquire p = Inr (t, n, p') \<and> t \<notin> set held \<and> pool_run bsz p' (held @ [t])) \<and>
    nb_allocated p = length (pool p) + length held"
proof -
  have inv: "pool_inv bsz p held" using assms(1) by (rule pool_run_inv)
  obtain t n p' where a: "pool_acquire p = Inr (t, n, p')" using pool_acquire_total [OF assms] by blast
  have "card (set (pool p @ held)) = length (pool p @ held)"
    using inv distinct_card unfolding pool_inv_def by blast
  then have "nb_allocated p = length (pool p) + length held" using inv by (simp add: pool_inv_def)
  then show ?thesis using a pool_acquire_inv [OF inv a] pool_take [OF assms(1) a] by blast
qed

end
