(* ===== verification/Sequence_Lib.thy ===== *)
theory Sequence_Lib
  imports Test_Sequence Mem_Resp
begin

text \<open>
  The test sequences of \<^verbatim>\<open>rtl/dcache/rtl/tb/sequence_lib\<close>: how a random, a single-address, a read and a
  write sequence build their requests, and the loops that send them. The random values (the SCV smart
  pointers and \<^verbatim>\<open>rand()\<close>) of one request are the record \<open>draws\<close>; \<open>draws_ok\<close> states what the
  constraints and distributions of the constructors guarantee. Waiting for a free identifier is a step
  that does not happen (\<open>None\<close>); the delays between requests are left out.
\<close>

section \<open>Distributions and segments\<close>

type_synonym op_bag = "(5 word \<times> nat) list"

definition op_distribution :: op_bag where
  "op_distribution =
     [(REQ_LOAD, 400), (REQ_STORE, 350), (REQ_CMO_FENCE, 10), (REQ_CMO_PREFETCH, 10), (REQ_CMO_FLUSH_NLINE, 10),
      (REQ_CMO_FLUSH_ALL, 1), (REQ_CMO_FLUSH_INVAL_NLINE, 10), (REQ_CMO_FLUSH_INVAL_ALL, 1)]"

definition op_amo_distribution :: op_bag where
  "op_amo_distribution =
     [(REQ_LOAD, 400), (REQ_STORE, 350), (REQ_CMO_FENCE, 10), (REQ_CMO_PREFETCH, 10), (REQ_CMO_FLUSH_NLINE, 10),
      (REQ_CMO_FLUSH_ALL, 1), (REQ_CMO_FLUSH_INVAL_NLINE, 10), (REQ_CMO_FLUSH_INVAL_ALL, 1), (REQ_AMO_LR, 4),
      (REQ_AMO_SC, 4), (REQ_AMO_SWAP, 4), (REQ_AMO_ADD, 4), (REQ_AMO_AND, 4), (REQ_AMO_OR, 4), (REQ_AMO_XOR, 4),
      (REQ_AMO_MAX, 4), (REQ_AMO_MAXU, 4), (REQ_AMO_MIN, 4), (REQ_AMO_MINU, 4)]"

definition mk_segment :: "u64 \<Rightarrow> u64 \<Rightarrow> bool \<Rightarrow> bool \<Rightarrow> seg_wr_policy \<Rightarrow> mem_segment" where
  "mk_segment b n uc amo pol =
     (set_length n (set_base b new_mem_segment))\<lparr>seg_uncached := uc, seg_amo_supported := amo, seg_policy := pol\<rparr>"

text \<open>Whether atomics are sent to the third segment is a build option.\<close>

definition random_segments :: "bool \<Rightarrow> mem_segment list" where
  "random_segments wt_enable =
     [mk_segment 0x00000000 0x00004000 False True SEG_WR_POLICY_RANDOM,
      mk_segment 0x40004000 0x00004000 False True SEG_WR_POLICY_WB,
      mk_segment 0x80008000 0x00004000 False wt_enable SEG_WR_POLICY_WT,
      mk_segment 0xC000C000 0x00004000 True True SEG_WR_POLICY_AUTO]"

definition single_segment :: mem_segment where
  "single_segment = mk_segment 0x00000000 0x00004000 False True SEG_WR_POLICY_RANDOM"

definition read_segment :: mem_segment where
  "read_segment = (set_length 0x00080000 (set_base 0x00000000 new_mem_segment))\<lparr>seg_uncached := False\<rparr>"

definition write_segment :: mem_segment where
  "write_segment = (set_length 0x00004000 (set_base 0x00000000 new_mem_segment))\<lparr>seg_uncached := False\<rparr>"

definition random_error_segments :: "segment list" where
  "random_error_segments =
     [\<lparr>base_addr = 0x00000000, end_addr = 0x00000200, seg_error = True\<rparr>,
      \<lparr>base_addr = 0x40004000, end_addr = 0x40004200, seg_error = True\<rparr>,
      \<lparr>base_addr = 0xC000C000, end_addr = 0xC000C200, seg_error = True\<rparr>]"

section \<open>One request\<close>

record draws =
  d_seg :: nat
  d_addr :: u64
  d_op :: "5 word"
  d_op_amo :: "5 word"
  d_data :: u64
  d_rand :: nat
  d_policy :: wr_policy_hint
  d_size :: "bool \<Rightarrow> nat"
  d_sc_do :: bool
  d_between :: nat

record seq_state =
  ids :: "nat list"
  tpool :: transaction_pool
  sent :: "core_req option list"

definition seq_new :: seq_state where
  "seq_new = \<lparr>ids = [], tpool = Transaction_pool 10, sent = []\<rparr>"

definition is_atomic_op :: "core_req \<Rightarrow> bool" where
  "is_atomic_op t \<longleftrightarrow> is_amo t \<or> is_amo_sc t \<or> is_amo_lr t"

fun select_policy :: "seg_wr_policy \<Rightarrow> draws \<Rightarrow> wr_policy_hint" where
  "select_policy SEG_WR_POLICY_RANDOM d = d_policy d"
| "select_policy SEG_WR_POLICY_WB d = WR_POLICY_WB"
| "select_policy SEG_WR_POLICY_WT d = WR_POLICY_WT"
| "select_policy SEG_WR_POLICY_AUTO d = WR_POLICY_AUTO"

text \<open>The address of the request, and its byte enables \<^verbatim>\<open>((1UL << bytes) - 1) << offset\<close>, of which the
  bit vector keeps the low eight.\<close>

definition req_address :: "u64 \<Rightarrow> u64 \<Rightarrow> nat \<Rightarrow> u64" where
  "req_address b off sz = ((b + off) div 2 ^ sz) * 2 ^ sz"

definition req_lanes :: "nat \<Rightarrow> u64 \<Rightarrow> u8" where
  "req_lanes bytes address = ucast (push_bit (unat address mod 8) (2 ^ bytes - 1 :: u64))"

definition shift_ok :: "nat \<Rightarrow> unit res" where
  "shift_ok sz = require (sz < 31 \<and> 2 ^ sz < (64 :: nat)) UndefinedShift"

text \<open>The parts of the random and the single-address sequence that select the operation and fill the
  request; \<open>cmo_rsp\<close> is whether cache management operations ask for a response.\<close>

definition fill_request :: "mem_segment \<Rightarrow> bool \<Rightarrow> u64 \<Rightarrow> draws \<Rightarrow> nat \<Rightarrow> core_req \<Rightarrow> core_req res" where
  "fill_request g cmo_rsp raw d tid t =
     (let t = t\<lparr>req_op := (if seg_amo_supported g then d_op_amo d else d_op d)\<rparr>;
          t = t\<lparr>req_wdata := d_data d, req_sid := 0, req_tid := of_nat tid, req_abort := False,
                req_phys_indexed := False, req_wr_policy_hint := select_policy (seg_policy g) d\<rparr>;
          sz = d_size d (is_atomic_op t)
      in res_bind (shift_ok sz) (\<lambda>_.
         let address = req_address (get_base g) (raw mod get_length g) sz;
             t = t\<lparr>req_addr := ucast address\<rparr>
         in Inr (if is_cmo t
                 then t\<lparr>req_be := 0, req_size := 0, req_uncacheable := False, req_need_rsp := cmo_rsp\<rparr>
                 else t\<lparr>req_be := req_lanes (2 ^ sz) address, req_size := of_nat sz,
                        req_uncacheable := seg_uncached g, req_need_rsp := True\<rparr>)))"

text \<open>A request with a freshly acquired object and identifier, built by \<open>f\<close>.\<close>

definition build :: "(nat \<Rightarrow> core_req \<Rightarrow> core_req res) \<Rightarrow> draws \<Rightarrow> seq_state \<Rightarrow> (nat \<times> core_req \<times> seq_state) res option" where
  "build f d s =
     (if is_available_id (ids s)
      then Some (res_bind (acquire_transaction (tpool s)) (\<lambda>(obj, _, t, p).
                 res_bind (allocate_id (d_rand d) (ids s)) (\<lambda>(tid, is).
                 res_bind (f tid t) (\<lambda>t. Inr (obj, t, s\<lparr>ids := is, tpool := p\<rparr>)))))
      else None)"

definition random_create :: "bool \<Rightarrow> draws \<Rightarrow> seq_state \<Rightarrow> (nat \<times> core_req \<times> seq_state) res option" where
  "random_create wt d s =
     (if d_seg d < length (random_segments wt)
      then build (fill_request (random_segments wt ! d_seg d) True (d_addr d) d) d s
      else Some (Inl OutOfBounds))"

definition single_create :: "u64 \<Rightarrow> draws \<Rightarrow> seq_state \<Rightarrow> (nat \<times> core_req \<times> seq_state) res option" where
  "single_create addr d s = build (fill_request single_segment False addr d) d s"

definition fill_sc :: "u64 \<Rightarrow> bool \<Rightarrow> draws \<Rightarrow> nat \<Rightarrow> core_req \<Rightarrow> core_req res" where
  "fill_sc addr uncacheable d tid t =
     (let sz = d_size d True in
      res_bind (shift_ok sz) (\<lambda>_.
      let address = (addr div 2 ^ sz) * 2 ^ sz in
      Inr (t\<lparr>req_op := REQ_AMO_SC, req_wdata := d_data d, req_sid := 0, req_tid := of_nat tid,
             req_addr := ucast address, req_be := req_lanes (2 ^ sz) address, req_size := of_nat sz,
             req_uncacheable := uncacheable, req_need_rsp := True\<rparr>)))"

definition create_sc_transaction ::
  "u64 \<Rightarrow> bool \<Rightarrow> draws \<Rightarrow> seq_state \<Rightarrow> (nat \<times> core_req \<times> seq_state) res option" where
  "create_sc_transaction addr uncacheable d s = build (fill_sc addr uncacheable d) d s"

text \<open>The read and the write sequence: one segment and one operation.\<close>

definition fill_plain :: "mem_segment \<Rightarrow> u64 \<Rightarrow> 5 word \<Rightarrow> draws \<Rightarrow> nat \<Rightarrow> core_req \<Rightarrow> core_req res" where
  "fill_plain g wd op d tid t =
     (let t = t\<lparr>req_op := op, req_wdata := wd, req_sid := 0, req_tid := of_nat tid, req_abort := False,
                req_phys_indexed := False\<rparr>;
          sz = d_size d (is_atomic_op t)
      in res_bind (shift_ok sz) (\<lambda>_.
         let address = req_address (get_base g) (d_addr d mod get_length g) sz in
         Inr (t\<lparr>req_addr := ucast address, req_be := req_lanes (2 ^ sz) address, req_size := of_nat sz,
                req_uncacheable := seg_uncached g, req_need_rsp := True\<rparr>)))"

definition read_create :: "draws \<Rightarrow> seq_state \<Rightarrow> (nat \<times> core_req \<times> seq_state) res option" where
  "read_create d s = build (fill_plain read_segment 0 (d_op d) d) d s"

definition write_create :: "draws \<Rightarrow> seq_state \<Rightarrow> (nat \<times> core_req \<times> seq_state) res option" where
  "write_create d s = build (fill_plain write_segment (d_data d) (d_op d) d) d s"

section \<open>Sending\<close>

text \<open>The request goes to the driver; once the driver has acknowledged it, the object goes back to the pool.\<close>

definition send_transaction :: "nat \<Rightarrow> core_req \<Rightarrow> seq_state \<Rightarrow> seq_state" where
  "send_transaction obj t s = s\<lparr>sent := sent s @ [Some t], tpool := pool_release obj (tpool s)\<rparr>"

text \<open>
  The loops of \<^verbatim>\<open>run\<close>, one request per step. \<open>Next n\<close>: \<open>n\<close> iterations of the main loop are done.
  \<open>Between i k lr n\<close>: after the load-reserved \<open>lr\<close>, \<open>i\<close> of the \<open>k\<close> requests in between have been sent.
\<close>

datatype seq_pc = Next nat | Between nat nat core_req nat | Stopped

type_synonym creator = "draws \<Rightarrow> seq_state \<Rightarrow> (nat \<times> core_req \<times> seq_state) res option"

definition after :: "(core_req \<Rightarrow> seq_pc) \<Rightarrow> (nat \<times> core_req \<times> seq_state) res \<Rightarrow> (seq_pc \<times> seq_state) res" where
  "after k r = res_bind r (\<lambda>(obj, t, s). Inr (k t, send_transaction obj t s))"

text \<open>\<open>between d\<close> is the number of requests between this load-reserved and its store-conditional.\<close>

fun lrsc_run :: "creator \<Rightarrow> nat \<Rightarrow> (draws \<Rightarrow> nat) \<Rightarrow> draws \<Rightarrow> seq_pc \<Rightarrow> seq_state \<Rightarrow> (seq_pc \<times> seq_state) res option" where
  "lrsc_run create max_transactions between d (Next n) s =
     (if n < max_transactions
      then map_option (after (\<lambda>t. if is_amo_lr t \<and> d_sc_do d then Between 0 (between d) t n else Next (n + 1))) (create d s)
      else Some (Inr (Stopped, s\<lparr>sent := sent s @ [None]\<rparr>)))"
| "lrsc_run create max_transactions between d (Between i k lr n) s =
     (if i < k then map_option (after (\<lambda>_. Between (i + 1) k lr n)) (create d s)
      else map_option (after (\<lambda>_. Next (n + 1)))
             (create_sc_transaction (ucast (req_addr lr)) (req_uncacheable lr) d s))"
| "lrsc_run create max_transactions between d Stopped s = None"

text \<open>The random sequence draws the number of requests in between once, before its loop; the
  single-address sequence draws it again after every store-conditional.\<close>

definition random_run ::
  "bool \<Rightarrow> nat \<Rightarrow> nat \<Rightarrow> draws \<Rightarrow> seq_pc \<Rightarrow> seq_state \<Rightarrow> (seq_pc \<times> seq_state) res option" where
  "random_run wt inbetween max_transactions = lrsc_run (random_create wt) max_transactions (\<lambda>_. inbetween)"

definition single_run ::
  "u64 \<Rightarrow> nat \<Rightarrow> draws \<Rightarrow> seq_pc \<Rightarrow> seq_state \<Rightarrow> (seq_pc \<times> seq_state) res option" where
  "single_run addr max_transactions = lrsc_run (single_create addr) max_transactions d_between"

fun plain_run :: "creator \<Rightarrow> nat \<Rightarrow> draws \<Rightarrow> seq_pc \<Rightarrow> seq_state \<Rightarrow> (seq_pc \<times> seq_state) res option" where
  "plain_run create max_transactions d (Next n) s =
     (if n < max_transactions then map_option (after (\<lambda>_. Next (n + 1))) (create d s)
      else Some (Inr (Stopped, s\<lparr>sent := sent s @ [None]\<rparr>)))"
| "plain_run create max_transactions d pc s = None"

definition read_run :: "nat \<Rightarrow> draws \<Rightarrow> seq_pc \<Rightarrow> seq_state \<Rightarrow> (seq_pc \<times> seq_state) res option" where
  "read_run = plain_run read_create"

definition write_run :: "nat \<Rightarrow> draws \<Rightarrow> seq_pc \<Rightarrow> seq_state \<Rightarrow> (seq_pc \<times> seq_state) res option" where
  "write_run = plain_run write_create"

section \<open>The requests are well formed\<close>

definition draws_ok :: "nat \<Rightarrow> draws \<Rightarrow> bool" where
  "draws_ok nseg d \<longleftrightarrow> d_seg d < nseg \<and> d_op d \<in> fst ` set op_distribution \<and> d_op_amo d \<in> fst ` set op_amo_distribution \<and>
     d_size d False \<le> 3 \<and> 2 \<le> d_size d True \<and> d_size d True \<le> 3"

definition request_ok :: "mem_segment \<Rightarrow> core_req \<Rightarrow> bool" where
  "request_ok g t \<longleftrightarrow>
     unat (req_size t) \<le> 3 \<and> 2 ^ unat (req_size t) dvd unat (req_addr t) \<and>
     unat (seg_base g) \<le> unat (req_addr t) \<and> unat (req_addr t) < unat (seg_base g) + unat (seg_length g) \<and>
     (if is_cmo t then req_be t = 0
      else \<forall>k < 8. bit (req_be t) k \<longleftrightarrow>
        unat (req_addr t) mod 8 \<le> k \<and> k < unat (req_addr t) mod 8 + 2 ^ unat (req_size t)) \<and>
     (is_atomic_op t \<longrightarrow> seg_amo_supported g \<and> 2 \<le> unat (req_size t)) \<and> known_op (req_op t)"

text \<open>A segment whose base is a multiple of eight and that ends within the physical addresses.\<close>

definition seg_ok :: "mem_segment \<Rightarrow> bool" where
  "seg_ok g \<longleftrightarrow> 8 dvd unat (seg_base g) \<and> 0 < unat (seg_length g) \<and> unat (seg_base g) + unat (seg_length g) < 2 ^ 49"

lemma unat_align:
  fixes a :: u64
  assumes "sz \<le> 3"
  shows "unat ((a div 2 ^ sz) * 2 ^ sz) = unat a div 2 ^ sz * 2 ^ sz"
proof -
  have p: "unat (2 ^ sz :: u64) = 2 ^ sz"
  proof -
    have "sz = 0 \<or> sz = 1 \<or> sz = 2 \<or> sz = 3" using assms by auto
    then show ?thesis by auto
  qed
  have le: "unat a div 2 ^ sz * 2 ^ sz \<le> unat a" by simp
  then have "unat a div 2 ^ sz * 2 ^ sz < 2 ^ LENGTH(64)" using unat_less_exp [of a] by (rule le_less_trans)
  then show ?thesis by (simp add: unat_word_ariths unat_div p mod_mult_left_eq)
qed

lemma align_dvd: "n \<le> sz \<Longrightarrow> 2 ^ n dvd (a div 2 ^ sz * 2 ^ sz :: nat)"
  by (simp add: dvd_mult le_imp_power_dvd)

lemma align_lower:
  fixes a b :: nat
  assumes "2 ^ sz dvd b" "b \<le> a"
  shows "b \<le> a div 2 ^ sz * 2 ^ sz"
  using assms by (metis div_le_mono dvd_div_mult_self mult_le_mono1)

lemma bit_req_lanes:
  assumes "sz \<le> 3" "k < 8"
  shows "bit (req_lanes (2 ^ sz) a) k \<longleftrightarrow> unat a mod 8 \<le> k \<and> k < unat a mod 8 + 2 ^ sz"
proof -
  have m: "(2 ^ (2 ^ sz) - 1 :: u64) = mask (2 ^ sz)" by (simp add: mask_eq_exp_minus_1)
  show ?thesis
    unfolding req_lanes_def m using assms(2)
    by (auto simp: bit_ucast_iff bit_push_bit_iff bit_mask_iff possible_bit_def)
qed

lemma unat_req_address:
  fixes raw :: u64
  assumes "sz \<le> 3" "seg_ok g"
  defines "x \<equiv> unat (seg_base g) + unat raw mod unat (seg_length g)"
  shows "unat (req_address (get_base g) (raw mod get_length g) sz) = x div 2 ^ sz * 2 ^ sz" "x < 2 ^ 49"
proof -
  have "unat raw mod unat (seg_length g) < unat (seg_length g)" using assms(2) by (simp add: seg_ok_def)
  moreover have "unat (seg_base g) + unat (seg_length g) < 2 ^ 49" using assms(2) by (simp add: seg_ok_def)
  ultimately have x: "x < 2 ^ 49" unfolding x_def by linarith
  then show "x < 2 ^ 49" .
  have u: "unat (ucast w :: u64) = unat w" for w :: "49 word"
    using unat_less_exp [of w] by (simp add: unsigned_ucast_eq take_bit_nat_eq_self)
  have "unat (get_base g + raw mod get_length g) = x"
    using x by (simp add: get_base_def get_length_def unat_word_ariths u x_def)
  then show "unat (req_address (get_base g) (raw mod get_length g) sz) = x div 2 ^ sz * 2 ^ sz"
    using unat_align [OF assms(1)] by (simp add: req_address_def)
qed

lemma request_address:
  assumes "sz \<le> 3" "seg_ok g" "n \<le> sz" "a = req_address (get_base g) (raw mod get_length g) sz"
  shows "unat (ucast a :: 49 word) = unat a" "2 ^ n dvd unat a"
    "unat (seg_base g) \<le> unat a" "unat a < unat (seg_base g) + unat (seg_length g)"
proof -
  let ?x = "unat (seg_base g) + unat raw mod unat (seg_length g)"
  have a: "unat a = ?x div 2 ^ sz * 2 ^ sz" "?x < 2 ^ 49"
    using unat_req_address [OF assms(1,2)] assms(4) by simp_all
  have le: "unat a \<le> ?x" using a(1) by simp
  show "unat (ucast a :: 49 word) = unat a"
    using le a(2) by (simp add: unsigned_ucast_eq take_bit_nat_eq_self)
  show "2 ^ n dvd unat a" unfolding a(1) using assms(3) by (rule align_dvd)
  have "(2 :: nat) ^ sz dvd 2 ^ 3" using assms(1) by (rule le_imp_power_dvd)
  then have "2 ^ sz dvd unat (seg_base g)" using assms(2) by (auto simp: seg_ok_def intro: dvd_trans)
  then show "unat (seg_base g) \<le> unat a" unfolding a(1) by (rule align_lower) simp
  show "unat a < unat (seg_base g) + unat (seg_length g)"
  proof -
    have "unat raw mod unat (seg_length g) < unat (seg_length g)" using assms(2) by (simp add: seg_ok_def)
    then show ?thesis using le by linarith
  qed
qed

lemma is_atomic_op_req: "is_atomic_op t = is_atomic_op (op_req (req_op t))"
  unfolding is_atomic_op_def using classes_op_req(3,4,5) [of t] by simp

lemma distributions_checked:
  "list_all (\<lambda>(op, w). known_op op \<and> \<not> is_atomic_op (op_req op)) op_distribution"
  "list_all (\<lambda>(op, w). known_op op) op_amo_distribution"
  by code_simp+

lemma distributions_known:
  assumes "draws_ok nseg d"
  shows "known_op (d_op d)" "known_op (d_op_amo d)" "\<not> is_atomic_op (op_req (d_op d))"
  using assms distributions_checked by (auto simp: draws_ok_def list_all_iff)

lemma shift_ok_small: "sz \<le> 3 \<Longrightarrow> shift_ok sz = Inr ()"
proof -
  assume "sz \<le> 3"
  then have "(2 :: nat) ^ sz \<le> 2 ^ 3" by (rule power_increasing) simp
  then show ?thesis using \<open>sz \<le> 3\<close> by (simp add: shift_ok_def)
qed

lemma fill_request_ok:
  assumes "seg_ok g" "draws_ok nseg d"
  shows "\<exists>t'. fill_request g r raw d tid t = Inr t' \<and> request_ok g t' \<and> req_tid t' = of_nat tid \<and>
     req_need_rsp t' = (is_cmo t' \<longrightarrow> r)"
proof -
  define op where "op = (if seg_amo_supported g then d_op_amo d else d_op d)"
  define t1 where "t1 = t\<lparr>req_op := op, req_wdata := d_data d, req_sid := 0, req_tid := of_nat tid, req_abort := False,
                req_phys_indexed := False, req_wr_policy_hint := select_policy (seg_policy g) d\<rparr>"
  define sz where "sz = d_size d (is_atomic_op t1)"
  define a where "a = req_address (get_base g) (raw mod get_length g) sz"
  have sz: "sz \<le> 3" "is_atomic_op t1 \<Longrightarrow> 2 \<le> sz"
    using assms(2) by (cases "is_atomic_op t1"; simp add: sz_def draws_ok_def)+
  have uz: "unat (of_nat sz :: 3 word) = sz" using sz(1) by (simp add: unat_of_nat)
  note A = request_address [OF sz(1) assms(1) _ a_def]
  have atom: "is_atomic_op t1 \<Longrightarrow> seg_amo_supported g"
    using distributions_known(3) [OF assms(2)] is_atomic_op_req [of t1]
    by (simp add: t1_def op_def split: if_splits)
  have kn: "known_op op" using distributions_known [OF assms(2)] by (simp add: op_def)
  have fr: "fill_request g r raw d tid t = Inr (if is_cmo (t1\<lparr>req_addr := ucast a\<rparr>)
       then t1\<lparr>req_addr := ucast a, req_be := 0, req_size := 0, req_uncacheable := False, req_need_rsp := r\<rparr>
       else t1\<lparr>req_addr := ucast a, req_be := req_lanes (2 ^ sz) a, req_size := of_nat sz,
               req_uncacheable := seg_uncached g, req_need_rsp := True\<rparr>)"
    using shift_ok_small [OF sz(1)]
    by (simp add: fill_request_def Let_def op_def [symmetric] t1_def [symmetric] sz_def [symmetric] a_def [symmetric])
  have ops: "is_cmo t' = is_cmo t1" "is_atomic_op t' = is_atomic_op t1" if "req_op t' = req_op t1" for t'
    using classes_op_req(6) is_atomic_op_req that by metis+
  have op1: "known_op (req_op t1)" "req_tid t1 = of_nat tid" using kn by (simp_all add: t1_def)
  show ?thesis
  proof (cases "is_cmo t1")
    case True
    let ?t = "t1\<lparr>req_addr := ucast a, req_be := 0, req_size := 0, req_uncacheable := False, req_need_rsp := r\<rparr>"
    have "\<not> is_atomic_op t1"
      using True request_classes_exclusive(5) [of t1]
      by (auto simp: is_atomic_op_def is_amo_lr_def is_amo_sc_def is_cmo_def op_defs)
    then have "request_ok g ?t"
      unfolding request_ok_def ops [of ?t, simplified] using True A(1,3,4) [of 0] op1 by simp
    then show ?thesis using fr True ops(1) [of ?t] ops(1) [of "t1\<lparr>req_addr := ucast a\<rparr>"] op1 by simp
  next
    case False
    let ?t = "t1\<lparr>req_addr := ucast a, req_be := req_lanes (2 ^ sz) a, req_size := of_nat sz,
               req_uncacheable := seg_uncached g, req_need_rsp := True\<rparr>"
    have "request_ok g ?t"
      unfolding request_ok_def ops [of ?t, simplified]
      using False A [of sz] op1 atom sz bit_req_lanes [OF sz(1)] uz by simp
    then show ?thesis using fr False ops(1) [of ?t] ops(1) [of "t1\<lparr>req_addr := ucast a\<rparr>"] op1 by simp
  qed
qed

section \<open>Identifiers and objects\<close>

lemma build_ok:
  assumes "ids_ok (ids s)" "pool_run 10 (tpool s) held" "is_available_id (ids s)"
    and "\<And>tid. \<exists>t. f tid new_core_req = Inr t \<and> P tid t"
  shows "\<exists>obj t tid s'. build f d s = Some (Inr (obj, t, s')) \<and> P tid t \<and> tid < 64 \<and> tid \<notin> set (ids s) \<and>
     ids s' = ids s @ [tid] \<and> sent s' = sent s \<and> ids_ok (ids s') \<and> pool_run 10 (tpool s') (held @ [obj])"
proof -
  obtain obj n p where p: "pool_acquire (tpool s) = Inr (obj, n, p)" "pool_run 10 p (held @ [obj])"
    using pool_acquire_total [OF assms(2)] pool_take [OF assms(2)] by fastforce
  obtain tid where a: "allocate_id (d_rand d) (ids s) = Inr (tid, ids s @ [tid])" "tid \<notin> set (ids s)" "tid < 64"
    using allocate_id_free [of "ids s" "d_rand d"] assms(1,3) by (auto simp: ids_ok_def is_available_id_def)
  obtain t where t: "f tid new_core_req = Inr t" "P tid t" using assms(4) by blast
  have "build f d s = Some (Inr (obj, t, s\<lparr>ids := ids s @ [tid], tpool := p\<rparr>))"
    using assms(3) p(1) a(1) t(1) by (simp add: build_def acquire_transaction_def)
  then show ?thesis using a p t assms(1) by (auto simp: ids_ok_def)
qed

lemma random_create_ok:
  assumes "draws_ok 4 d" "distinct (ids s)" "set (ids s) \<subseteq> {..<64}" "length (ids s) < 64"
    and "pool_run 10 (tpool s) held" "g = random_segments wt ! d_seg d"
  shows "\<exists>obj t s'. random_create wt d s = Some (Inr (obj, t, s')) \<and> request_ok g t \<and> req_need_rsp t \<and>
     unat (req_tid t) \<notin> set (ids s) \<and> ids s' = ids s @ [unat (req_tid t)]"
proof -
  have seg: "seg_ok g" "d_seg d < length (random_segments wt)"
  proof -
    have "d_seg d = 0 \<or> d_seg d = 1 \<or> d_seg d = 2 \<or> d_seg d = 3" using assms(1) by (auto simp: draws_ok_def)
    then show "seg_ok g" "d_seg d < length (random_segments wt)"
      by (auto simp: assms(6) random_segments_def mk_segment_def set_base_def set_length_def new_mem_segment_def seg_ok_def)
  qed
  obtain obj t tid s' where b: "build (fill_request g True (d_addr d) d) d s = Some (Inr (obj, t, s'))"
    "request_ok g t" "req_tid t = of_nat tid" "req_need_rsp t" "tid < 64" "tid \<notin> set (ids s)" "ids s' = ids s @ [tid]"
    using build_ok [of s held "fill_request g True (d_addr d) d"
        "\<lambda>tid t. request_ok g t \<and> req_tid t = of_nat tid \<and> req_need_rsp t" d]
      fill_request_ok [OF seg(1) assms(1), of True] assms(2-5)
    by (auto simp: ids_ok_def is_available_id_def)
  have "unat (req_tid t) = tid" using b(3,5) by (simp add: unat_of_nat)
  then show ?thesis using b seg(2) by (simp add: random_create_def assms(6))
qed

definition ex_draws :: draws where
  "ex_draws = \<lparr>d_seg = 1, d_addr = 0x1235, d_op = REQ_LOAD, d_op_amo = REQ_AMO_LR, d_data = 7, d_rand = 130,
     d_policy = WR_POLICY_WB, d_size = (\<lambda>amo. if amo then 2 else 0), d_sc_do = True, d_between = 3\<rparr>"

lemma ex_draws_ok: "draws_ok 4 ex_draws"
  by code_simp

section \<open>The store-conditional after a load-reserved\<close>

text \<open>The store-conditional that a sequence sends after a load-reserved lies in the same double word as
  the load-reserved, whatever sizes are drawn, so that it addresses the reservation.\<close>

lemma sc_address:
  fixes lr_addr :: "49 word"
  assumes "sz \<le> 3"
  defines "a \<equiv> (ucast lr_addr div 2 ^ sz) * 2 ^ sz :: u64"
  shows "unat a = unat lr_addr div 2 ^ sz * 2 ^ sz" "unat (ucast a :: 49 word) = unat a"
proof -
  have u: "unat (ucast lr_addr :: u64) = unat lr_addr"
    using unat_less_exp [of lr_addr] by (simp add: unsigned_ucast_eq take_bit_nat_eq_self)
  show a: "unat a = unat lr_addr div 2 ^ sz * 2 ^ sz" using unat_align [OF assms(1)] u by (simp add: a_def)
  then have "unat a \<le> unat lr_addr" by simp
  then have "unat a < 2 ^ 49" using unat_less_exp [of lr_addr] by simp
  then show "unat (ucast a :: 49 word) = unat a"
    by (simp add: unsigned_ucast_eq take_bit_nat_eq_self)
qed

lemma sc_in_reserved_dword:
  assumes "2 \<le> d_size d True" "d_size d True \<le> 3" "4 dvd unat lr_addr"
    and "fill_sc (ucast (lr_addr :: 49 word)) uc d tid t = Inr t'"
  shows "is_amo_sc t' \<and> drop_bit 3 (req_addr t') = drop_bit 3 lr_addr"
proof -
  let ?sz = "d_size d True" and ?A = "unat lr_addr"
  let ?a = "(ucast lr_addr div 2 ^ ?sz) * 2 ^ ?sz :: u64"
  note a = sc_address [OF assms(2), of lr_addr]
  have "?sz = 2 \<or> ?sz = 3" using assms(1,2) by auto
  then have "unat ?a div 8 = ?A div 8"
    unfolding a(1) using assms(3) by (auto simp: dvd_div_mult_self)
  then have "unat (drop_bit 3 (ucast ?a :: 49 word)) = unat (drop_bit 3 lr_addr)"
    by (simp add: drop_bit_eq_div unat_div a(2))
  then have "drop_bit 3 (ucast ?a :: 49 word) = drop_bit 3 lr_addr" by (simp add: word_unat_eq_iff)
  then show ?thesis
    using assms(4) shift_ok_small [OF assms(2)] by (auto simp: fill_sc_def is_amo_sc_def Let_def)
qed

lemma fill_sc_ok:
  assumes "seg_ok g" "draws_ok nseg d" "request_ok g lr" "is_amo_lr lr"
  shows "\<exists>t'. fill_sc (ucast (req_addr lr)) uc d tid t = Inr t' \<and> request_ok g t' \<and> req_tid t' = of_nat tid \<and>
     req_need_rsp t' \<and> is_amo_sc t' \<and> drop_bit 3 (req_addr t') = drop_bit 3 (req_addr lr) \<and> req_uncacheable t' = uc"
proof -
  define sz where "sz = d_size d True"
  define a :: u64 where "a = (ucast (req_addr lr) div 2 ^ sz) * 2 ^ sz"
  define t' where "t' = t\<lparr>req_op := REQ_AMO_SC, req_wdata := d_data d, req_sid := 0, req_tid := of_nat tid,
             req_addr := ucast a, req_be := req_lanes (2 ^ sz) a, req_size := of_nat sz,
             req_uncacheable := uc, req_need_rsp := True\<rparr>"
  have sz: "2 \<le> sz" "sz \<le> 3" using assms(2) by (simp_all add: sz_def draws_ok_def)
  have uz: "unat (of_nat sz :: 3 word) = sz" using sz(2) by (simp add: unat_of_nat)
  have A: "unat a = unat (req_addr lr) div 2 ^ sz * 2 ^ sz" "unat (ucast a :: 49 word) = unat a"
    using sc_address [OF sz(2), of "req_addr lr"] by (simp_all add: a_def)
  have f: "fill_sc (ucast (req_addr lr)) uc d tid t = Inr t'"
    using shift_ok_small [OF sz(2)] by (simp add: fill_sc_def sz_def [symmetric] t'_def a_def [symmetric] Let_def)
  have at: "is_atomic_op lr" using assms(4) by (simp add: is_atomic_op_def)
  then have lr: "2 \<le> unat (req_size lr)" "seg_amo_supported g" "2 ^ unat (req_size lr) dvd unat (req_addr lr)"
    "unat (seg_base g) \<le> unat (req_addr lr)" "unat (req_addr lr) < unat (seg_base g) + unat (seg_length g)"
    using assms(3) by (simp_all add: request_ok_def)
  have "(2 :: nat) ^ 2 dvd 2 ^ unat (req_size lr)" using lr(1) by (rule le_imp_power_dvd)
  then have four: "4 dvd unat (req_addr lr)" using lr(3) by (auto intro: dvd_trans)
  have dw: "is_amo_sc t' \<and> drop_bit 3 (req_addr t') = drop_bit 3 (req_addr lr)"
    using sc_in_reserved_dword [OF _ _ four f] sz by (simp add: sz_def)
  have "(2 :: nat) ^ sz dvd 2 ^ 3" using sz(2) by (rule le_imp_power_dvd)
  then have "2 ^ sz dvd unat (seg_base g)" using assms(1) by (auto simp: seg_ok_def intro: dvd_trans)
  then have "unat (seg_base g) \<le> unat a" unfolding A(1) using lr(4) by (rule align_lower)
  moreover have "unat a < unat (seg_base g) + unat (seg_length g)"
    using A(1) lr(5) le_less_trans [OF div_times_less_eq_dividend] by metis
  moreover have "2 ^ sz dvd unat a" unfolding A(1) by simp
  moreover have "\<not> is_cmo t'" "known_op (req_op t')"
    by (simp_all add: t'_def is_cmo_def op_defs known_op_def)
  ultimately have "request_ok g t'"
    unfolding request_ok_def using lr(2) sz uz A(2) bit_req_lanes [OF sz(2), of _ a] by (simp add: t'_def)
  then show ?thesis using f dw by (simp add: t'_def)
qed

section \<open>The loops end\<close>

text \<open>The steps a sequence can still take, each of which sends one request, and the step that stops it.\<close>

fun steps_left :: "nat \<Rightarrow> nat \<Rightarrow> seq_pc \<Rightarrow> nat" where
  "steps_left max_transactions k (Next n) = (max_transactions - n) * (k + 2) + 1"
| "steps_left max_transactions k (Between i j lr n) = (max_transactions - Suc n) * (k + 2) + (j - i) + 2"
| "steps_left max_transactions k Stopped = 0"

fun pc_ok :: "nat \<Rightarrow> nat \<Rightarrow> seq_pc \<Rightarrow> bool" where
  "pc_ok max_transactions k (Next n) = True"
| "pc_ok max_transactions k (Between i j lr n) \<longleftrightarrow> n < max_transactions \<and> j \<le> k"
| "pc_ok max_transactions k Stopped = True"

lemma build_sent: "build f d s = Some (Inr (obj, t, s')) \<Longrightarrow> sent s' = sent s"
  by (auto simp: build_def res_bind_Inr_iff split: if_splits)

definition sends :: "creator \<Rightarrow> bool" where
  "sends create \<longleftrightarrow> (\<forall>d s obj t s'. create d s = Some (Inr (obj, t, s')) \<longrightarrow> sent s' = sent s)"

lemma creators_send: "sends (random_create wt)" "sends (single_create addr)" "sends read_create" "sends write_create"
  "sends (create_sc_transaction a u)"
  by (auto simp: sends_def random_create_def single_create_def read_create_def write_create_def create_sc_transaction_def
      dest: build_sent split: if_splits)

lemma after_step:
  assumes "sends create" "map_option (after k) (create d s) = Some (Inr (pc, s'))"
  shows "\<exists>t. pc = k t \<and> sent s' = sent s @ [Some t]"
  using assms by (auto simp: after_def sends_def res_bind_Inr_iff send_transaction_def)

lemma lrsc_run_step:
  assumes "lrsc_run create max_transactions between d pc s = Some (Inr (pc', s'))" "sends create"
    and "pc_ok max_transactions k pc" "\<forall>d. between d \<le> k"
  shows "steps_left max_transactions k pc' < steps_left max_transactions k pc \<and> pc_ok max_transactions k pc' \<and>
    (\<exists>x. sent s' = sent s @ [x] \<and> (x = None \<longleftrightarrow> pc' = Stopped))"
proof (cases pc)
  case (Next n)
  show ?thesis
  proof (cases "n < max_transactions")
    case True
    then obtain t where t: "pc' = (if is_amo_lr t \<and> d_sc_do d then Between 0 (between d) t n else Next (n + 1))"
      "sent s' = sent s @ [Some t]"
      using assms(1) after_step [OF assms(2)] Next by fastforce
    define X where "X = (max_transactions - Suc n) * (k + 2)"
    have "(max_transactions - n) * (k + 2) = X + (k + 2)"
      using True unfolding X_def by (metis Suc_diff_Suc add.commute mult_Suc)
    then have "steps_left max_transactions k pc = X + (k + 2) + 1" unfolding Next steps_left.simps by simp
    moreover have "steps_left max_transactions k pc' \<le> X + (k + 2)"
      using assms(4) [rule_format, of d] unfolding t(1) by (simp add: X_def [symmetric] del: add_2_eq_Suc')
    ultimately show ?thesis using t True Next assms(4) by simp
  next
    case False
    then show ?thesis using assms(1) Next by auto
  qed
next
  case (Between i j lr n)
  show ?thesis
  proof (cases "i < j")
    case True
    then obtain t where "pc' = Between (i + 1) j lr n" "sent s' = sent s @ [Some t]"
      using assms(1) after_step [OF assms(2)] Between by fastforce
    then show ?thesis using Between True assms(3) by auto
  next
    case False
    then obtain t where "pc' = Next (n + 1)" "sent s' = sent s @ [Some t]"
      using assms(1) after_step [OF creators_send(5)] Between by fastforce
    then show ?thesis using Between False assms(3) by auto
  qed
next
  case Stopped
  then show ?thesis using assms(1) by simp
qed

text \<open>A run of the sequence: steps with values the constraints allow, with identifiers released in
  between by the scoreboard.\<close>

inductive random_reaches :: "bool \<Rightarrow> nat \<Rightarrow> nat \<Rightarrow> nat \<Rightarrow> seq_pc \<Rightarrow> seq_state \<Rightarrow> bool" for wt inbetween max_transactions where
  rr_start: "random_reaches wt inbetween max_transactions 0 (Next 0) seq_new"
| rr_step: "random_reaches wt inbetween max_transactions n pc s \<Longrightarrow> draws_ok 4 d \<Longrightarrow>
    random_run wt inbetween max_transactions d pc s = Some (Inr (pc', s')) \<Longrightarrow>
    random_reaches wt inbetween max_transactions (Suc n) pc' s'"
| rr_release: "random_reaches wt inbetween max_transactions n pc s \<Longrightarrow>
    random_reaches wt inbetween max_transactions n pc (s\<lparr>ids := snd (deallocate_id i (ids s))\<rparr>)"

text \<open>The request a step sends, by the position in the loops: drawn for a segment, or the
  store-conditional of the load-reserved \<open>lr\<close>.\<close>

fun sends_sc :: "seq_pc \<Rightarrow> core_req option" where
  "sends_sc (Between i j lr n) = (if i < j then None else Some lr)"
| "sends_sc pc = None"

fun wants_id :: "nat \<Rightarrow> seq_pc \<Rightarrow> bool" where
  "wants_id max_transactions (Next n) \<longleftrightarrow> n < max_transactions"
| "wants_id max_transactions (Between i j lr n) = True"
| "wants_id max_transactions Stopped = False"

definition step_request :: "bool \<Rightarrow> draws \<Rightarrow> seq_pc \<Rightarrow> mem_segment \<Rightarrow> core_req \<Rightarrow> bool" where
  "step_request wt d pc g t \<longleftrightarrow>
     (case sends_sc pc of None \<Rightarrow> g = random_segments wt ! d_seg d
      | Some lr \<Rightarrow> is_amo_sc t \<and> drop_bit 3 (req_addr t) = drop_bit 3 (req_addr lr) \<and>
                   req_uncacheable t = req_uncacheable lr)"

lemma random_segments_ok: "g \<in> set (random_segments wt) \<Longrightarrow> seg_ok g"
  by (auto simp: random_segments_def mk_segment_def set_base_def set_length_def new_mem_segment_def seg_ok_def)

text \<open>The load-reserved a store-conditional belongs to has been sent.\<close>

fun lr_known :: "bool \<Rightarrow> seq_pc \<Rightarrow> seq_state \<Rightarrow> bool" where
  "lr_known wt (Between i j lr n) s \<longleftrightarrow> is_amo_lr lr \<and> Some lr \<in> set (sent s) \<and>
     (\<exists>g \<in> set (random_segments wt). request_ok g lr)"
| "lr_known wt pc s = True"

lemma build_sends:
  assumes "ids_ok (ids s)" "pool_run 10 (tpool s) []" "length (ids s) < 64"
    and "\<And>tid. \<exists>t. f tid new_core_req = Inr t \<and> P t \<and> req_tid t = of_nat tid"
  shows "\<exists>t s'. map_option (after k) (build f d s) = Some (Inr (k t, s')) \<and> P t \<and> unat (req_tid t) \<notin> set (ids s) \<and>
     ids s' = ids s @ [unat (req_tid t)] \<and> sent s' = sent s @ [Some t] \<and> ids_ok (ids s') \<and> pool_run 10 (tpool s') []"
proof -
  obtain obj t tid s' where b: "build f d s = Some (Inr (obj, t, s'))" "P t" "req_tid t = of_nat tid" "tid < 64"
    "tid \<notin> set (ids s)" "ids s' = ids s @ [tid]" "sent s' = sent s" "ids_ok (ids s')" "pool_run 10 (tpool s') [obj]"
    using build_ok [of s "[]" f "\<lambda>tid t. P t \<and> req_tid t = of_nat tid" d] assms
    by (auto simp: is_available_id_def)
  have "unat (req_tid t) = tid" using b(3,4) by (simp add: unat_of_nat)
  moreover have "pool_run 10 (pool_release obj (tpool s')) []" using pool_give [OF b(9), of obj] by simp
  ultimately show ?thesis using b by (simp add: after_def send_transaction_def)
qed

lemma random_step_sends:
  assumes "ids_ok (ids s)" "pool_run 10 (tpool s) []" "length (ids s) < 64" "draws_ok 4 d" "lr_known wt pc s"
    and "wants_id max_transactions pc"
  shows "\<exists>t g pc' s'. random_run wt inbetween max_transactions d pc s = Some (Inr (pc', s')) \<and>
     g \<in> set (random_segments wt) \<and> request_ok g t \<and> req_need_rsp t \<and> step_request wt d pc g t \<and>
     unat (req_tid t) \<notin> set (ids s) \<and> ids s' = ids s @ [unat (req_tid t)] \<and> sent s' = sent s @ [Some t] \<and>
     ids_ok (ids s') \<and> pool_run 10 (tpool s') [] \<and> lr_known wt pc' s'"
proof -
  define g where "g = random_segments wt ! d_seg d"
  have g1: "d_seg d < length (random_segments wt)"
    using assms(4) by (simp add: draws_ok_def random_segments_def)
  then have "g \<in> set (random_segments wt)" unfolding g_def by (rule nth_mem)
  note g = g1 this
  have fr: "\<exists>t. fill_request g True (d_addr d) d tid new_core_req = Inr t \<and> (request_ok g t \<and> req_need_rsp t) \<and>
     req_tid t = of_nat tid" for tid
    using fill_request_ok [OF random_segments_ok [OF g(2)] assms(4), of True] by fastforce
  note req = build_sends [where f = "fill_request g True (d_addr d) d" and P = "\<lambda>t. request_ok g t \<and> req_need_rsp t",
      OF assms(1-3) fr]
  have cr: "random_create wt d s = build (fill_request g True (d_addr d) d) d s"
    using g(1) by (simp add: random_create_def g_def)
  show ?thesis
  proof (cases pc)
    case (Next n)
    let ?k = "\<lambda>t. if is_amo_lr t \<and> d_sc_do d then Between 0 inbetween t n else Next (n + 1)"
    have r: "random_run wt inbetween max_transactions d pc s = map_option (after ?k) (build (fill_request g True (d_addr d) d) d s)"
      using Next assms(6) by (simp add: random_run_def cr)
    show ?thesis
      unfolding r using req [of ?k d] g(2) Next
      by (elim exE conjE) (rule exI, rule exI [of _ g], auto simp: step_request_def g_def [symmetric])
  next
    case (Between i j lr n)
    show ?thesis
    proof (cases "i < j")
      case True
      let ?k = "\<lambda>_. Between (i + 1) j lr n"
      have r: "random_run wt inbetween max_transactions d pc s = map_option (after ?k) (build (fill_request g True (d_addr d) d) d s)"
        using Between True by (simp add: random_run_def cr)
      show ?thesis
        unfolding r using req [of ?k d] g(2) Between True assms(5)
        by (elim exE conjE) (rule exI, rule exI [of _ g], auto simp: step_request_def g_def [symmetric])
    next
      case False
      obtain h where h: "is_amo_lr lr" "h \<in> set (random_segments wt)" "request_ok h lr"
        using assms(5) Between by auto
      let ?P = "\<lambda>t. request_ok h t \<and> req_need_rsp t \<and> is_amo_sc t \<and> drop_bit 3 (req_addr t) = drop_bit 3 (req_addr lr) \<and>
        req_uncacheable t = req_uncacheable lr"
      have fs: "\<exists>t. fill_sc (ucast (req_addr lr)) (req_uncacheable lr) d tid new_core_req = Inr t \<and> ?P t \<and>
          req_tid t = of_nat tid" for tid
        using fill_sc_ok [OF random_segments_ok [OF h(2)] assms(4) h(3,1), of "req_uncacheable lr" tid] by fastforce
      have r: "random_run wt inbetween max_transactions d pc s =
          map_option (after (\<lambda>_. Next (n + 1))) (build (fill_sc (ucast (req_addr lr)) (req_uncacheable lr) d) d s)"
        using Between False by (simp add: random_run_def create_sc_transaction_def)
      show ?thesis
        unfolding r
        using build_sends [where f = "fill_sc (ucast (req_addr lr)) (req_uncacheable lr) d" and P = ?P and
            k = "\<lambda>_. Next (n + 1)" and d = d, OF assms(1-3) fs] h(2) Between False
        by (elim exE conjE) (rule exI, rule exI [of _ h], auto simp: step_request_def)
    qed
  next
    case Stopped
    then show ?thesis using assms(6) by simp
  qed
qed

text \<open>Without a free identifier a step that needs one waits.\<close>

lemma random_run_waits:
  assumes "\<not> length (ids s) < 64" "draws_ok 4 d" "wants_id max_transactions pc"
  shows "random_run wt inbetween max_transactions d pc s = None"
proof -
  have "d_seg d < length (random_segments wt)" using assms(2) by (simp add: draws_ok_def random_segments_def)
  then show ?thesis
    using assms(1,3)
    by (cases pc) (auto simp: random_run_def random_create_def create_sc_transaction_def build_def is_available_id_def)
qed

definition run_inv :: "bool \<Rightarrow> nat \<Rightarrow> nat \<Rightarrow> seq_pc \<Rightarrow> seq_state \<Rightarrow> bool" where
  "run_inv wt max_transactions n pc s \<longleftrightarrow>
     ids_ok (ids s) \<and> pool_run 10 (tpool s) [] \<and> lr_known wt pc s \<and> length (sent s) = n \<and>
     (if pc = Stopped then \<exists>ts. sent s = map Some ts @ [None] else None \<notin> set (sent s))"

lemma random_run_inv:
  assumes "random_reaches wt inbetween max_transactions n pc s"
  shows "run_inv wt max_transactions n pc s"
  using assms
proof (induction rule: random_reaches.induct)
  case rr_start
  then show ?case using pool_start [of 10] by (simp add: run_inv_def seq_new_def ids_ok_def)
next
  case (rr_step n pc s d pc' s')
  note i = rr_step.IH [unfolded run_inv_def]
  have pc: "pc \<noteq> Stopped" using rr_step.hyps(3) by (auto simp: random_run_def)
  show ?case
  proof (cases "wants_id max_transactions pc")
    case True
    have len: "length (ids s) < 64"
      using random_run_waits [OF _ rr_step.hyps(2) True] rr_step.hyps(3) by fastforce
    obtain t where t: "sent s' = sent s @ [Some t]" "ids_ok (ids s')" "pool_run 10 (tpool s') []" "lr_known wt pc' s'"
      using random_step_sends [of s d wt pc max_transactions inbetween] rr_step.hyps(2,3) i len True by fastforce
    have "pc' \<noteq> Stopped"
      using rr_step.hyps(3) True
      by (cases pc) (auto simp: random_run_def after_def res_bind_Inr_iff split: if_splits)
    then show ?thesis using i t pc by (simp add: run_inv_def)
  next
    case False
    then obtain m where m: "pc = Next m" "\<not> m < max_transactions" using pc by (cases pc) auto
    have "None \<notin> set (sent s)" using i pc by simp
    then have "map (Some \<circ> the) (sent s) = sent s"
      by (intro map_idI) (metis comp_apply option.collapse)
    then have "\<exists>ts. sent s @ [None] = map Some ts @ [None]" by (metis map_map)
    then show ?thesis using i rr_step.hyps(3) m by (auto simp: run_inv_def random_run_def)
  qed
next
  case (rr_release n pc s i)
  moreover have "ids_ok (snd (deallocate_id i (ids s)))"
    using rr_release.IH by (auto simp: run_inv_def ids_ok_def deallocate_id_def)
  ultimately show ?case by (cases pc) (simp_all add: run_inv_def)
qed

text \<open>The bound on the steps, and the iterations done.\<close>

fun iterations :: "nat \<Rightarrow> seq_pc \<Rightarrow> nat" where
  "iterations max_transactions (Next n) = n"
| "iterations max_transactions (Between i j lr n) = Suc n"
| "iterations max_transactions Stopped = Suc max_transactions"

lemma random_run_iterations:
  assumes "random_run wt inbetween max_transactions d pc s = Some (Inr (pc', s'))" "pc_ok max_transactions inbetween pc"
    and "iterations max_transactions pc \<le> n"
  shows "iterations max_transactions pc' \<le> Suc n"
  using assms by (cases pc) (auto simp: random_run_def after_def res_bind_Inr_iff split: if_splits)

lemma random_run_bound:
  assumes "random_reaches wt inbetween max_transactions n pc s"
  shows "n + steps_left max_transactions inbetween pc \<le> max_transactions * (inbetween + 2) + 1 \<and>
    pc_ok max_transactions inbetween pc \<and> iterations max_transactions pc \<le> n"
  using assms
proof (induction rule: random_reaches.induct)
  case (rr_step n pc s d pc' s')
  then show ?case
    using lrsc_run_step [of "random_create wt" max_transactions "\<lambda>_. inbetween" d pc s pc' s' inbetween]
      creators_send(1) random_run_iterations [of wt inbetween max_transactions d pc s pc' s' n]
    by (auto simp: random_run_def)
qed (auto simp: seq_new_def)

text \<open>C14: every request of the random sequence is well formed. In every reachable state, a step that
  does not stop the sequence sends one request, which asks for a response, is aligned to its size,
  lies inside a segment of the sequence (the drawn one), has exactly the byte enables of the addressed
  bytes (none for cache management), is atomic only where the segment supports it and then a word or
  double word, and has an identifier that no request in flight has. After the requests in between, the
  request is a store-conditional in the double word of the load-reserved that was sent before, with
  the same cacheability.\<close>

theorem random_request_ok:
  assumes "random_reaches wt inbetween max_transactions n pc s" "draws_ok 4 d"
    and "random_run wt inbetween max_transactions d pc s = Some (Inr (pc', s'))" "pc' \<noteq> Stopped"
  shows "\<exists>t g. sent s' = sent s @ [Some t] \<and> g \<in> set (random_segments wt) \<and> request_ok g t \<and> req_need_rsp t \<and>
     unat (req_tid t) \<notin> set (ids s) \<and> ids s' = ids s @ [unat (req_tid t)] \<and>
     (case sends_sc pc of None \<Rightarrow> g = random_segments wt ! d_seg d
      | Some lr \<Rightarrow> is_amo_lr lr \<and> Some lr \<in> set (sent s) \<and> is_amo_sc t \<and>
          drop_bit 3 (req_addr t) = drop_bit 3 (req_addr lr) \<and> req_uncacheable t = req_uncacheable lr)"
proof -
  have i: "ids_ok (ids s)" "pool_run 10 (tpool s) []" "lr_known wt pc s"
    using random_run_inv [OF assms(1)] by (simp_all add: run_inv_def)
  have w: "wants_id max_transactions pc"
    using assms(3,4) by (cases pc) (auto simp: random_run_def split: if_splits)
  have len: "length (ids s) < 64" using random_run_waits [OF _ assms(2) w] assms(3) by fastforce
  obtain t g where t: "g \<in> set (random_segments wt)" "request_ok g t" "req_need_rsp t" "step_request wt d pc g t"
    "unat (req_tid t) \<notin> set (ids s)" "ids s' = ids s @ [unat (req_tid t)]" "sent s' = sent s @ [Some t]"
    using random_step_sends [OF i(1,2) len assms(2) i(3) w, of inbetween] assms(3) by fastforce
  show ?thesis
    using t i(3) by (intro exI [of _ t] exI [of _ g]) (cases pc; auto simp: step_request_def)
qed

lemma fill_request_op:
  "fill_request g r raw d tid t = Inr t' \<Longrightarrow> req_op t' = (if seg_amo_supported g then d_op_amo d else d_op d)"
  by (auto simp: fill_request_def Let_def res_bind_Inr_iff split: if_splits)

lemma ex_draws_reserves:
  "\<exists>lr s. random_run True 0 1 ex_draws (Next 0) seq_new = Some (Inr (Between 0 0 lr 0, s)) \<and> length (ids s) = 1"
proof -
  obtain pc s where r: "random_run True 0 1 ex_draws (Next 0) seq_new = Some (Inr (pc, s))" "length (ids s) = 1"
    using random_step_sends [of seq_new ex_draws True "Next 0" 1 0] ex_draws_ok pool_start [of 10]
    by (auto simp: seq_new_def ids_ok_def)
  obtain obj t s1 where t: "random_create True ex_draws seq_new = Some (Inr (obj, t, s1))"
    "pc = (if is_amo_lr t \<and> d_sc_do ex_draws then Between 0 0 t 0 else Next 1)"
    using r(1) by (auto simp: random_run_def after_def res_bind_Inr_iff)
  obtain tid t0 where "fill_request (random_segments True ! 1) True (d_addr ex_draws) ex_draws tid t0 = Inr t"
    using t(1)
    by (auto simp: random_create_def build_def res_bind_Inr_iff random_segments_def ex_draws_def split: if_splits)
  then have "req_op t = REQ_AMO_LR"
    using fill_request_op by (fastforce simp: random_segments_def mk_segment_def ex_draws_def)
  then have "is_amo_lr t" by (simp add: is_amo_lr_def)
  then show ?thesis using r t(2) by (auto simp: ex_draws_def)
qed

text \<open>The second request of a run that starts with a load-reserved is its store-conditional.\<close>

theorem random_request_ok_witness:
  "\<exists>pc s pc' s' t g. random_reaches True 0 1 1 pc s \<and>
     random_run True 0 1 ex_draws pc s = Some (Inr (pc', s')) \<and>
     sent s' = sent s @ [Some t] \<and> is_amo_sc t \<and> g \<in> set (random_segments True) \<and> request_ok g t"
proof -
  obtain pc s where r: "random_run True 0 1 ex_draws (Next 0) seq_new = Some (Inr (pc, s))"
    and sc: "sends_sc pc \<noteq> None" and len: "length (ids s) < 64"
    using ex_draws_reserves by fastforce
  have reach: "random_reaches True 0 1 1 pc s"
    using rr_step [OF rr_start ex_draws_ok r] by simp
  have i: "ids_ok (ids s)" "pool_run 10 (tpool s) []" "lr_known True pc s"
    using random_run_inv [OF reach] by (simp_all add: run_inv_def)
  have w: "wants_id 1 pc" using sc by (cases pc) auto
  obtain pc' s' where r': "random_run True 0 1 ex_draws pc s = Some (Inr (pc', s'))"
    using random_step_sends [OF i(1,2) len ex_draws_ok i(3) w, of 0] by blast
  have "pc' \<noteq> Stopped"
    using r' sc by (cases pc) (auto simp: random_run_def after_def res_bind_Inr_iff split: if_splits)
  then show ?thesis
    using random_request_ok [OF reach ex_draws_ok r'] sc reach r' by fastforce
qed

text \<open>C38: the random sequence makes progress and ends. In every reachable state, whatever is drawn
  and however identifiers were released, the steps taken and the steps still possible are together at
  most \<open>inbetween + 2\<close> for every iteration and one to stop. A step waits exactly if it has a request to
  send and all 64 identifiers are in use, and is never an error. Every step so far has sent one
  element: requests only, until the sequence stops with the stop marker as its last element, after at
  least \<open>max_transactions\<close> requests.\<close>

theorem random_run_ends:
  assumes "random_reaches wt inbetween max_transactions n pc s" "draws_ok 4 d"
  shows "n + steps_left max_transactions inbetween pc \<le> max_transactions * (inbetween + 2) + 1 \<and>
    (if pc = Stopped \<or> wants_id max_transactions pc \<and> 64 \<le> length (ids s)
     then random_run wt inbetween max_transactions d pc s = None
     else \<exists>pc' s'. random_run wt inbetween max_transactions d pc s = Some (Inr (pc', s'))) \<and>
    length (sent s) = n \<and>
    (if pc = Stopped then \<exists>ts. sent s = map Some ts @ [None] \<and> max_transactions \<le> length ts
     else None \<notin> set (sent s))"
proof -
  have i: "ids_ok (ids s)" "pool_run 10 (tpool s) []" "lr_known wt pc s" "length (sent s) = n"
    "if pc = Stopped then \<exists>ts. sent s = map Some ts @ [None] else None \<notin> set (sent s)"
    using random_run_inv [OF assms(1)] by (simp_all add: run_inv_def)
  note b = random_run_bound [OF assms(1)]
  have "if pc = Stopped \<or> wants_id max_transactions pc \<and> 64 \<le> length (ids s)
     then random_run wt inbetween max_transactions d pc s = None
     else \<exists>pc' s'. random_run wt inbetween max_transactions d pc s = Some (Inr (pc', s'))"
  proof (cases "wants_id max_transactions pc")
    case True
    then show ?thesis
      using random_step_sends [OF i(1,2) _ assms(2) i(3) True, of inbetween] random_run_waits [OF _ assms(2) True]
      by (auto simp: random_run_def not_less)
  next
    case False
    then show ?thesis by (cases pc) (auto simp: random_run_def)
  qed
  moreover have "if pc = Stopped then \<exists>ts. sent s = map Some ts @ [None] \<and> max_transactions \<le> length ts
     else None \<notin> set (sent s)"
    using i(4,5) b by (auto split: if_splits)
  ultimately show ?thesis using b i(4) by blast
qed

text \<open>A run of one iteration sends a request, then the stop marker.\<close>

theorem random_run_ends_witness:
  "\<exists>s t. random_reaches True 0 1 2 Stopped s \<and> sent s = [Some t, None]"
proof -
  let ?d = "ex_draws\<lparr>d_sc_do := False\<rparr>"
  have d: "draws_ok 4 ?d" using ex_draws_ok by (simp add: draws_ok_def)
  obtain pc s where r: "random_run True 0 1 ?d (Next 0) seq_new = Some (Inr (pc, s))"
    using random_run_ends [OF rr_start [of True 0 1] d] by (auto simp: seq_new_def)
  have pc: "pc = Next 1"
    using r by (auto simp: random_run_def after_def res_bind_Inr_iff)
  have "random_run True 0 1 ?d (Next 1) s = Some (Inr (Stopped, s\<lparr>sent := sent s @ [None]\<rparr>))"
    by (simp add: random_run_def)
  then have reach: "random_reaches True 0 1 2 Stopped (s\<lparr>sent := sent s @ [None]\<rparr>)"
    using rr_step [OF rr_step [OF rr_start d r] d] pc by (simp add: numeral_2_eq_2)
  then obtain ts where "sent (s\<lparr>sent := sent s @ [None]\<rparr>) = map Some ts @ [None]" "1 \<le> length ts"
    "length (sent (s\<lparr>sent := sent s @ [None]\<rparr>)) = 2"
    using random_run_ends [OF reach d] by auto
  then show ?thesis using reach by (cases ts) auto
qed

end
