(* ===== verification/Sequence_Dist.thy ===== *)
theory Sequence_Dist
  imports Sequence_Lib
begin

text \<open>
  The random choices of the random and the single-address sequence: the weighted bags that their constructors fill,
  the ranges of the sizes, and the members of the base class that the sequences and the main program use. The record
  \<open>draws\<close> of the theory Sequence\_Lib is one outcome of these choices; here it is shown that every outcome
  the bags allow meets the conditions assumed there, and which operations can come up at all. Of a draw from a
  bag only this is used: it returns a value that was pushed with a positive weight. The read and the write sequence
  keep one value of each choice; their requests are well formed too.
\<close>

section \<open>The bags of the random sequence\<close>

type_synonym 'a bag = "('a \<times> nat) list"

definition in_bag :: "'a bag \<Rightarrow> 'a \<Rightarrow> bool" where
  "in_bag b x \<longleftrightarrow> list_ex (\<lambda>(y, w). y = x \<and> 0 < w) b"

definition in_ranges :: "(nat \<times> nat) bag \<Rightarrow> nat \<Rightarrow> bool" where
  "in_ranges b n \<longleftrightarrow> list_ex (\<lambda>((lo, hi), w). 0 < w \<and> lo \<le> n \<and> n \<le> hi) b"

definition seg_distribution :: "nat bag" where
  "seg_distribution = [(0, 33), (1, 33), (2, 33), (3, 1)]"

definition delay_distribution :: "(nat \<times> nat) bag" where
  "delay_distribution = [((0, 0), 80), ((1, 4), 18), ((5, 20), 2)]"

definition amo_sc_do_distribution :: "bool bag" where
  "amo_sc_do_distribution = [(False, 25), (True, 75)]"

definition wr_policy_distribution :: "wr_policy_hint bag" where
  "wr_policy_distribution = [(WR_POLICY_AUTO, 80), (WR_POLICY_WB, 10), (WR_POLICY_WT, 10)]"

text \<open>The range that \<^verbatim>\<open>create_random_size\<close> keeps.\<close>

definition size_range :: "bool \<Rightarrow> nat \<times> nat" where
  "size_range amo = (if \<not> amo then (0, 3) else (2, 3))"

section \<open>The bags of the single-address sequence\<close>

definition single_delay_distribution :: "(nat \<times> nat) bag" where
  "single_delay_distribution = [((0, 0), 80), ((1, 4), 18), ((5, 20), 2)]"

definition single_amo_sc_do_distribution :: "bool bag" where
  "single_amo_sc_do_distribution = [(False, 25), (True, 75)]"

definition single_wr_policy_distribution :: "wr_policy_hint bag" where
  "single_wr_policy_distribution = [(WR_POLICY_AUTO, 80), (WR_POLICY_WB, 10), (WR_POLICY_WT, 10)]"

definition single_op_distribution :: "5 word bag" where
  "single_op_distribution =
     [(REQ_LOAD, 400), (REQ_STORE, 350), (REQ_CMO_FENCE, 10), (REQ_CMO_PREFETCH, 10), (REQ_CMO_FLUSH_NLINE, 10),
      (REQ_CMO_FLUSH_ALL, 1), (REQ_CMO_FLUSH_INVAL_NLINE, 10), (REQ_CMO_FLUSH_INVAL_ALL, 1)]"

definition single_op_amo_distribution :: "5 word bag" where
  "single_op_amo_distribution =
     [(REQ_LOAD, 400), (REQ_STORE, 350), (REQ_CMO_FENCE, 10), (REQ_CMO_PREFETCH, 10), (REQ_CMO_FLUSH_NLINE, 10),
      (REQ_CMO_FLUSH_ALL, 1), (REQ_CMO_FLUSH_INVAL_NLINE, 10), (REQ_CMO_FLUSH_INVAL_ALL, 1), (REQ_AMO_LR, 4),
      (REQ_AMO_SC, 4), (REQ_AMO_SWAP, 4), (REQ_AMO_ADD, 4), (REQ_AMO_AND, 4), (REQ_AMO_OR, 4), (REQ_AMO_XOR, 4),
      (REQ_AMO_MAX, 4), (REQ_AMO_MAXU, 4), (REQ_AMO_MIN, 4), (REQ_AMO_MINU, 4)]"

definition single_size_range :: "bool \<Rightarrow> nat \<times> nat" where
  "single_size_range amo = (if \<not> amo then (0, 3) else (2, 3))"

definition single_create_sc :: "u64 \<Rightarrow> bool \<Rightarrow> draws \<Rightarrow> seq_state \<Rightarrow> (nat \<times> core_req \<times> seq_state) res option" where
  "single_create_sc addr uncacheable d s = build (fill_sc addr uncacheable d) d s"

section \<open>The choices of the read and the write sequence\<close>

text \<open>What the constructors keep of the segment pointer, the delay and the operation.\<close>

definition read_keeps :: "nat \<times> nat \<times> 5 word" where
  "read_keeps = (0, 0, REQ_LOAD)"

definition write_keeps :: "nat \<times> nat \<times> 5 word" where
  "write_keeps = (0, 0, REQ_STORE)"

definition read_size_range :: "bool \<Rightarrow> nat \<times> nat" where
  "read_size_range amo = (if \<not> amo then (0, 3) else (2, 3))"

definition write_size_range :: "bool \<Rightarrow> nat \<times> nat" where
  "write_size_range amo = (if \<not> amo then (0, 3) else (2, 3))"

section \<open>The base class\<close>

record test_sequence =
  seq_name :: string
  seq_max_transactions :: u64

definition hpdcache_test_sequence :: "string \<Rightarrow> test_sequence" where
  "hpdcache_test_sequence nm = \<lparr>seq_name = nm, seq_max_transactions = 100\<rparr>"

definition set_max_transactions :: "u64 \<Rightarrow> test_sequence \<Rightarrow> test_sequence" where
  "set_max_transactions n s = s\<lparr>seq_max_transactions := n\<rparr>"

definition sequence_to_string :: "test_sequence \<Rightarrow> string" where
  "sequence_to_string s = out (puts
     ([Str ''Sequence '', Str (seq_name s), Str '' / Max Transactions = '', ULong (seq_max_transactions s), Str [CHR 0x0A]]) fresh_stream)"

definition is_uncached :: "mem_segment \<Rightarrow> bool" where "is_uncached g = seg_uncached g"
definition is_amo_supported :: "mem_segment \<Rightarrow> bool" where "is_amo_supported g = seg_amo_supported g"
definition get_wr_policy_hint :: "mem_segment \<Rightarrow> seg_wr_policy" where "get_wr_policy_hint g = seg_policy g"
definition set_uncached :: "bool \<Rightarrow> mem_segment \<Rightarrow> mem_segment" where "set_uncached u g = g\<lparr>seg_uncached := u\<rparr>"
definition set_amo_supported :: "bool \<Rightarrow> mem_segment \<Rightarrow> mem_segment" where "set_amo_supported a g = g\<lparr>seg_amo_supported := a\<rparr>"
definition set_wr_policy_hint :: "seg_wr_policy \<Rightarrow> mem_segment \<Rightarrow> mem_segment" where
  "set_wr_policy_hint p g = g\<lparr>seg_policy := p\<rparr>"

definition get_ids :: "seq_state \<Rightarrow> nat list" where "get_ids s = ids s"
definition ids_size :: "seq_state \<Rightarrow> nat" where "ids_size s = length (ids s)"

section \<open>What the bags allow\<close>

definition random_drawn :: "draws \<Rightarrow> bool" where
  "random_drawn d \<longleftrightarrow> in_bag seg_distribution (d_seg d) \<and> in_bag op_distribution (d_op d) \<and>
     in_bag op_amo_distribution (d_op_amo d) \<and> in_bag wr_policy_distribution (d_policy d) \<and>
     in_bag amo_sc_do_distribution (d_sc_do d) \<and>
     (\<forall>amo. fst (size_range amo) \<le> d_size d amo \<and> d_size d amo \<le> snd (size_range amo))"

lemma in_bag_dom: "in_bag b x \<Longrightarrow> x \<in> fst ` set b"
  by (force simp: in_bag_def list_ex_iff)

lemma random_drawn_ok:
  assumes "random_drawn d"
  shows "draws_ok 4 d"
proof -
  have "d_seg d < 4" using assms by (auto simp: random_drawn_def in_bag_def seg_distribution_def)
  moreover have "d_size d False \<le> 3" "2 \<le> d_size d True" "d_size d True \<le> 3"
    using assms by (simp_all add: random_drawn_def size_range_def all_bool_eq)
  moreover have "d_op d \<in> fst ` set op_distribution" "d_op_amo d \<in> fst ` set op_amo_distribution"
    using assms in_bag_dom by (auto simp: random_drawn_def)
  ultimately show ?thesis by (simp add: draws_ok_def)
qed

lemma op_bags:
  "in_bag op_amo_distribution op \<longleftrightarrow> known_op op \<and> op \<noteq> REQ_CMO_INVAL_NLINE \<and> op \<noteq> REQ_CMO_INVAL_ALL"
  "in_bag op_distribution op \<longleftrightarrow>
     known_op op \<and> \<not> is_atomic_op (op_req op) \<and> op \<noteq> REQ_CMO_INVAL_NLINE \<and> op \<noteq> REQ_CMO_INVAL_ALL"
  by (rule op_all [where op = op], code_simp)+

lemma single_bags: "single_op_distribution = op_distribution" "single_op_amo_distribution = op_amo_distribution"
  by (simp_all add: single_op_distribution_def op_distribution_def single_op_amo_distribution_def op_amo_distribution_def)

text \<open>What the random tests exercise. Where the segment supports atomic operations, the random and the single-address sequence
  can draw every defined operation except the two invalidations that are commented out; elsewhere every one of
  these that is not atomic, and nothing else. Every write policy, every one of the four segments and both ways to
  follow a load-reserved can come up, and a delay is at most 20 cycles.\<close>

lemma random_choices_covered:
  "(in_bag op_amo_distribution op \<longleftrightarrow> known_op op \<and> op \<noteq> REQ_CMO_INVAL_NLINE \<and> op \<noteq> REQ_CMO_INVAL_ALL) \<and>
   (in_bag op_distribution op \<longleftrightarrow>
      known_op op \<and> \<not> is_atomic_op (op_req op) \<and> op \<noteq> REQ_CMO_INVAL_NLINE \<and> op \<noteq> REQ_CMO_INVAL_ALL) \<and>
   in_bag single_op_amo_distribution op = in_bag op_amo_distribution op \<and>
   in_bag single_op_distribution op = in_bag op_distribution op \<and>
   in_bag wr_policy_distribution pol \<and> in_bag amo_sc_do_distribution sc \<and>
   (in_bag seg_distribution n \<longleftrightarrow> n < length (random_segments wt)) \<and> (in_ranges delay_distribution k \<longleftrightarrow> k \<le> 20)"
proof -
  have "in_bag wr_policy_distribution pol" by (cases pol) (simp_all add: in_bag_def wr_policy_distribution_def)
  moreover have "in_bag amo_sc_do_distribution sc" by (cases sc) (simp_all add: in_bag_def amo_sc_do_distribution_def)
  moreover have "in_bag seg_distribution n \<longleftrightarrow> n < length (random_segments wt)"
    by (auto simp: in_bag_def seg_distribution_def random_segments_def)
  moreover have "in_ranges delay_distribution k \<longleftrightarrow> k \<le> 20" by (auto simp: in_ranges_def delay_distribution_def)
  ultimately show ?thesis using op_bags by (simp add: single_bags)
qed

section \<open>The requests of the read and the write sequence\<close>

definition plain_drawn :: "nat \<times> nat \<times> 5 word \<Rightarrow> (bool \<Rightarrow> nat \<times> nat) \<Rightarrow> draws \<Rightarrow> bool" where
  "plain_drawn kept sizes d \<longleftrightarrow> d_seg d = fst kept \<and> d_op d = snd (snd kept) \<and>
     (\<forall>amo. fst (sizes amo) \<le> d_size d amo \<and> d_size d amo \<le> snd (sizes amo))"

lemma fill_plain_ok:
  assumes "seg_ok g" "d_size d False \<le> 3" "known_op op" "\<not> is_atomic_op (op_req op)" "\<not> is_cmo (op_req op)"
  shows "\<exists>t'. fill_plain g wd op d tid t = Inr t' \<and> request_ok g t' \<and> req_op t' = op \<and> req_wdata t' = wd \<and>
     req_tid t' = of_nat tid \<and> req_need_rsp t'"
proof -
  define sz where "sz = d_size d False"
  define a where "a = req_address (get_base g) (d_addr d mod get_length g) sz"
  define t' where "t' = t\<lparr>req_op := op, req_wdata := wd, req_sid := 0, req_tid := of_nat tid, req_abort := False,
      req_phys_indexed := False, req_addr := ucast a, req_be := req_lanes (2 ^ sz) a, req_size := of_nat sz,
      req_uncacheable := seg_uncached g, req_need_rsp := True\<rparr>"
  have cls: "\<not> is_atomic_op u" "\<not> is_cmo u" if "req_op u = op" for u
    using is_atomic_op_req [of u] classes_op_req(6) [of u] that assms(4,5) by simp_all
  have sz: "sz \<le> 3" using assms(2) by (simp add: sz_def)
  have "fill_plain g wd op d tid t = Inr t'"
    using shift_ok_small [OF sz] cls(1)
    by (simp add: fill_plain_def Let_def t'_def a_def sz_def)
  moreover have "request_ok g t'"
    using request_address [OF sz assms(1) order.refl a_def] bit_req_lanes [OF sz] cls [of t'] assms(3) sz
    by (simp add: request_ok_def t'_def unat_of_nat)
  ultimately show ?thesis by (simp add: t'_def)
qed

lemma plain_segments_ok: "seg_ok read_segment" "seg_ok write_segment"
  by (simp_all add: read_segment_def write_segment_def set_base_def set_length_def new_mem_segment_def seg_ok_def)

lemma plain_ops: "known_op REQ_LOAD" "\<not> is_atomic_op (op_req REQ_LOAD)" "\<not> is_cmo (op_req REQ_LOAD)"
  "known_op REQ_STORE" "\<not> is_atomic_op (op_req REQ_STORE)" "\<not> is_cmo (op_req REQ_STORE)"
  by code_simp+

text \<open>Every request of the read sequence is a well-formed load in its segment, every request of the write sequence a
  well-formed store of the data drawn, each with an identifier that no request in flight has.\<close>

lemma plain_requests_ok:
  assumes "ids_ok (ids s)" "pool_run 10 (tpool s) held" "is_available_id (ids s)"
  shows "plain_drawn read_keeps read_size_range d \<Longrightarrow>
      \<exists>obj t s'. read_create d s = Some (Inr (obj, t, s')) \<and> request_ok read_segment t \<and> is_load t \<and>
        ids s' = ids s @ [unat (req_tid t)] \<and> unat (req_tid t) \<notin> set (ids s)"
    and "plain_drawn write_keeps write_size_range d \<Longrightarrow>
      \<exists>obj t s'. write_create d s = Some (Inr (obj, t, s')) \<and> request_ok write_segment t \<and> is_store t \<and>
        req_wdata t = d_data d \<and> ids s' = ids s @ [unat (req_tid t)] \<and> unat (req_tid t) \<notin> set (ids s)"
proof -
  have create: "\<exists>obj t s'. build (fill_plain g wd op d) d s = Some (Inr (obj, t, s')) \<and> request_ok g t \<and>
      req_op t = op \<and> req_wdata t = wd \<and> ids s' = ids s @ [unat (req_tid t)] \<and> unat (req_tid t) \<notin> set (ids s)"
    if "seg_ok g" "d_size d False \<le> 3" "known_op op" "\<not> is_atomic_op (op_req op)" "\<not> is_cmo (op_req op)" for g wd op
  proof -
    note ok = fill_plain_ok [OF that]
    obtain obj t tid s' where b: "build (fill_plain g wd op d) d s = Some (Inr (obj, t, s'))"
      "request_ok g t \<and> req_op t = op \<and> req_wdata t = wd \<and> req_tid t = of_nat tid" "tid < 64" "tid \<notin> set (ids s)"
      "ids s' = ids s @ [tid]"
      using build_ok [OF assms, of "fill_plain g wd op d"
          "\<lambda>tid t. request_ok g t \<and> req_op t = op \<and> req_wdata t = wd \<and> req_tid t = of_nat tid" d]
        ok by metis
    then have "unat (req_tid t) = tid" by (simp add: unat_of_nat)
    then show ?thesis using b by blast
  qed
  show "plain_drawn read_keeps read_size_range d \<Longrightarrow>
      \<exists>obj t s'. read_create d s = Some (Inr (obj, t, s')) \<and> request_ok read_segment t \<and> is_load t \<and>
        ids s' = ids s @ [unat (req_tid t)] \<and> unat (req_tid t) \<notin> set (ids s)"
    using create [OF plain_segments_ok(1) _ plain_ops(1-3), of 0]
    by (fastforce simp: plain_drawn_def read_keeps_def read_size_range_def read_create_def is_load_def all_bool_eq)
  show "plain_drawn write_keeps write_size_range d \<Longrightarrow>
      \<exists>obj t s'. write_create d s = Some (Inr (obj, t, s')) \<and> request_ok write_segment t \<and> is_store t \<and>
        req_wdata t = d_data d \<and> ids s' = ids s @ [unat (req_tid t)] \<and> unat (req_tid t) \<notin> set (ids s)"
    using create [OF plain_segments_ok(2) _ plain_ops(4-6), of "d_data d"]
    by (fastforce simp: plain_drawn_def write_keeps_def write_size_range_def write_create_def is_store_def all_bool_eq)
qed

end
