(* ===== verification/Handshake.thy ===== *)
theory Handshake
  imports Main
begin

text \<open>
  The valid/ready handshake of the testbench's processes, \<^verbatim>\<open>do wait(); while (!ready);\<close>: a process that holds
  its request does not change at a clock edge without ready, so it moves on at the first edge with ready. The
  interface is a locale; the driver and the response processes of the memory model provide it.
\<close>

locale handshake =
  fixes step :: "bool \<Rightarrow> nat \<Rightarrow> 's \<Rightarrow> 's" and run :: "(nat \<Rightarrow> bool) \<Rightarrow> nat \<Rightarrow> 's \<Rightarrow> 's" and holding :: "'s \<Rightarrow> bool"
  assumes run_Suc: "run ready (Suc n) st = step (ready n) n (run ready n st)"
    and hold: "holding s \<Longrightarrow> step False n s = s"
begin

lemma held:
  assumes "run ready k st = s" "holding s" "\<forall>i < j. \<not> ready (k + i)"
  shows "run ready (k + j) st = s"
  using assms(3) by (induction j) (simp_all add: assms(1,2) run_Suc hold)

lemma moves_on:
  assumes "run ready k st = s" "holding s" "\<exists>j \<le> B. ready (k + j)"
  shows "\<exists>j \<le> B. run ready (k + Suc j) st = step True (k + j) s"
proof -
  obtain i where i: "i \<le> B" "ready (k + i)" using assms(3) by blast
  obtain j where j: "ready (k + j)" "\<forall>i < j. \<not> ready (k + i)" using exists_least_iff [of "\<lambda>j. ready (k + j)"] i(2) by blast
  have "j \<le> B" using i j(2) by (meson leI order_trans)
  moreover have "run ready (k + Suc j) st = step True (k + j) s" using held [OF assms(1,2) j(2)] j(1) by (simp add: run_Suc)
  ultimately show ?thesis by blast
qed

end

end
