(* ===== verification/Driver.thy ===== *)
theory Driver
  imports Test_Sequence Handshake
begin

text \<open>
  The driver of the cache testbench, \<^verbatim>\<open>hpdcache_test_driver.h\<close>: the packing of a request into the bit
  vector of the core interface, the unpacking of a response, and the process that presents the requests
  one after the other. The bit vectors are words of the widths of the default configuration.
\<close>

section \<open>Packing\<close>

text \<open>Assignment to \<^verbatim>\<open>bv.range(pos + w - 1, pos)\<close> keeps the low \<open>w\<close> bits of the value.\<close>

definition put_range :: "nat \<Rightarrow> nat \<Rightarrow> 'a::len word \<Rightarrow> 'a word \<Rightarrow> 'a word" where
  "put_range pos w v bv = (bv AND NOT (push_bit pos (mask w))) OR push_bit pos (take_bit w v)"

definition get_range :: "nat \<Rightarrow> nat \<Rightarrow> 'a::len word \<Rightarrow> 'a word" where
  "get_range pos w bv = take_bit w (drop_bit pos bv)"

definition core_get_req_tag :: "core_req \<Rightarrow> u64" where
  "core_get_req_tag t =
     ucast (get_range HPDCACHE_ADDR_OFFSET_WIDTH (HPDCACHE_PA_WIDTH - HPDCACHE_ADDR_OFFSET_WIDTH) (req_addr t))"

definition core_get_req_pma :: "core_req \<Rightarrow> u32" where
  "core_get_req_pma t =
     (let ret = 0;
          ret = (if is_wr_policy_auto t then ret OR push_bit 0 1 else ret);
          ret = (if is_wr_policy_wb t then ret OR push_bit 1 1 else ret);
          ret = (if is_wr_policy_wt t then ret OR push_bit 2 1 else ret);
          ret = (if req_io t then ret OR push_bit 3 1 else ret)
      in if req_uncacheable t then ret OR push_bit 4 1 else ret)"

definition PMA_POS :: nat where "PMA_POS = 0"
definition TAG_POS :: nat where "TAG_POS = PMA_POS + 5"
definition PHYS_INDEXED_POS :: nat where "PHYS_INDEXED_POS = TAG_POS + HPDCACHE_TAG_WIDTH"
definition NEED_RSP_POS :: nat where "NEED_RSP_POS = PHYS_INDEXED_POS + 1"
definition TRANS_ID_POS :: nat where "TRANS_ID_POS = NEED_RSP_POS + 1"
definition SRC_ID_POS :: nat where "SRC_ID_POS = TRANS_ID_POS + HPDCACHE_REQ_TRANS_ID_WIDTH"
definition SIZE_POS :: nat where "SIZE_POS = SRC_ID_POS + HPDCACHE_REQ_SRC_ID_WIDTH"
definition BE_POS :: nat where "BE_POS = SIZE_POS + 3"
definition OP_POS :: nat where "OP_POS = BE_POS + HPDCACHE_REQ_DATA_WIDTH div 8"
definition WDATA_POS :: nat where "WDATA_POS = OP_POS + 5"
definition ADDR_POS :: nat where "ADDR_POS = WDATA_POS + HPDCACHE_REQ_DATA_WIDTH"

lemma req_positions [simp]:
  "PMA_POS = 0" "TAG_POS = 5" "PHYS_INDEXED_POS = 42" "NEED_RSP_POS = 43" "TRANS_ID_POS = 44" "SRC_ID_POS = 50"
  "SIZE_POS = 53" "BE_POS = 56" "OP_POS = 64" "WDATA_POS = 69" "ADDR_POS = 133"
  by (simp_all add: PMA_POS_def TAG_POS_def PHYS_INDEXED_POS_def NEED_RSP_POS_def TRANS_ID_POS_def SRC_ID_POS_def
      SIZE_POS_def BE_POS_def OP_POS_def WDATA_POS_def ADDR_POS_def config_defs)

text \<open>The low address bits are read with \<^verbatim>\<open>range(HPDCACHE_ADDR_OFFSET_WIDTH, 0)\<close>, one bit more than the
  field has.\<close>

definition core_req_to_bv :: "core_req \<Rightarrow> 145 word" where
  "core_req_to_bv t =
     (let ret = 0;
          ret = put_range PMA_POS 5 (ucast (core_get_req_pma t)) ret;
          ret = put_range TAG_POS HPDCACHE_TAG_WIDTH (ucast (core_get_req_tag t)) ret;
          ret = put_range PHYS_INDEXED_POS 1 (if req_phys_indexed t then 1 else 0) ret;
          ret = put_range NEED_RSP_POS 1 (if req_need_rsp t then 1 else 0) ret;
          ret = put_range TRANS_ID_POS HPDCACHE_REQ_TRANS_ID_WIDTH (ucast (req_tid t)) ret;
          ret = put_range SRC_ID_POS HPDCACHE_REQ_SRC_ID_WIDTH (ucast (req_sid t)) ret;
          ret = put_range SIZE_POS 3 (ucast (req_size t)) ret;
          ret = put_range BE_POS (HPDCACHE_REQ_DATA_WIDTH div 8) (ucast (req_be t)) ret;
          ret = put_range OP_POS 5 (ucast (req_op t)) ret;
          ret = put_range WDATA_POS HPDCACHE_REQ_DATA_WIDTH (ucast (req_wdata t)) ret
      in put_range ADDR_POS HPDCACHE_ADDR_OFFSET_WIDTH
           (ucast (get_range 0 (HPDCACHE_ADDR_OFFSET_WIDTH + 1) (req_addr t))) ret)"

definition core_resp_to_struct :: "75 word \<Rightarrow> core_resp" where
  "core_resp_to_struct bv =
     (let ABORTED_POS = 0; ERROR_POS = ABORTED_POS + 1; TRANS_ID_POS = ERROR_POS + 1;
          SRC_ID_POS = TRANS_ID_POS + HPDCACHE_REQ_TRANS_ID_WIDTH; RDATA_POS = SRC_ID_POS + HPDCACHE_REQ_SRC_ID_WIDTH
      in \<lparr>rsp_rdata = ucast (get_range RDATA_POS HPDCACHE_REQ_DATA_WIDTH bv),
          rsp_sid = ucast (get_range SRC_ID_POS HPDCACHE_REQ_SRC_ID_WIDTH bv),
          rsp_tid = ucast (get_range TRANS_ID_POS HPDCACHE_REQ_TRANS_ID_WIDTH bv),
          rsp_error = (0 < get_range ERROR_POS 1 bv), rsp_aborted = (0 < get_range ABORTED_POS 1 bv)\<rparr>)"

section \<open>The processes\<close>

record driver =
  core_req_valid_o :: bool
  core_req_o :: "145 word"
  core_req_abort_o :: bool
  core_req_tag_o :: u64
  core_req_pma_o :: u32
  transaction_ret :: "u64 list"
  sb_core_req :: "core_req list"
  sb_core_resp :: "core_resp list"
  got_finish :: bool

datatype drive_pc = Waiting | Driving core_req u64 | Draining nat | Finished

text \<open>\<open>drive_fetch\<close> reads the next transaction (\<open>None\<close>: the null pointer that stops the driver) with its
  identifier; \<open>drive_clock\<close> is what happens at a clock edge.\<close>

fun drive_fetch :: "(core_req \<times> u64) option \<Rightarrow> driver \<Rightarrow> drive_pc \<times> driver" where
  "drive_fetch None s = (Draining 0, s)"
| "drive_fetch (Some (t, n)) s =
     (Driving t n, s\<lparr>core_req_valid_o := True, core_req_o := core_req_to_bv t\<rparr>)"

fun drive_clock :: "bool \<Rightarrow> drive_pc \<Rightarrow> driver \<Rightarrow> drive_pc \<times> driver" where
  "drive_clock ready (Driving t n) s =
     (if ready
      then (Waiting, s\<lparr>core_req_valid_o := False, core_req_tag_o := core_get_req_tag t,
              core_req_pma_o := core_get_req_pma t, core_req_abort_o := is_aborted t,
              transaction_ret := transaction_ret s @ [n], sb_core_req := sb_core_req s @ [t]\<rparr>)
      else (Driving t n, s))"
| "drive_clock ready (Draining i) s =
     (if i + 1 < 10000 then (Draining (i + 1), s) else (Finished, s\<lparr>got_finish := True\<rparr>))"
| "drive_clock ready pc s = (pc, s)"

definition monitor_response :: "bool \<Rightarrow> 75 word \<Rightarrow> driver \<Rightarrow> driver" where
  "monitor_response valid bv s =
     (if valid then s\<lparr>sb_core_resp := sb_core_resp s @ [core_resp_to_struct bv]\<rparr> else s)"

section \<open>The packed request\<close>

lemma get_put_same:
  "p + w \<le> LENGTH('a) \<Longrightarrow> get_range p w (put_range p w x bv) = take_bit w (x :: 'a::len word)"
  by (auto intro!: bit_word_eqI simp: get_range_def put_range_def bit_simps possible_bit_def)

lemma get_put_other:
  assumes "p + w \<le> q \<or> q + v \<le> p"
  shows "get_range q v (put_range p w x bv) = get_range q v (bv :: 'a::len word)"
proof (rule bit_word_eqI)
  fix n assume "n < LENGTH('a)"
  have "bit bv (q + n) \<Longrightarrow> q + n < LENGTH('a)" by (rule bit_imp_le_length)
  moreover have "n < v \<Longrightarrow> p \<le> q + n \<Longrightarrow> \<not> q + n - p < w" using assms by auto
  ultimately show "bit (get_range q v (put_range p w x bv)) n = bit (get_range q v bv) n"
    using \<open>n < LENGTH('a)\<close> by (auto simp: get_range_def put_range_def bit_simps possible_bit_def)
qed

lemma take_bit_ucast:
  assumes "LENGTH('b) \<le> w"
  shows "take_bit w (ucast (x :: 'b::len word) :: 'a::len word) = ucast x"
proof (rule bit_word_eqI)
  fix n assume "n < LENGTH('a)"
  have "bit x n \<Longrightarrow> n < w" using assms bit_imp_le_length [of x n] by simp
  then show "bit (take_bit w (ucast x :: 'a word)) n = bit (ucast x :: 'a word) n"
    using \<open>n < LENGTH('a)\<close> by (auto simp: bit_simps)
qed

lemma core_req_data_width [simp]: "HPDCACHE_REQ_DATA_WIDTH = 64"
  by (simp add: HPDCACHE_REQ_DATA_WIDTH_def HPDCACHE_REQ_WORDS_def HPDCACHE_WORD_WIDTH_def)

lemma field_widths [simp]:
  "HPDCACHE_TAG_WIDTH = 37" "HPDCACHE_ADDR_OFFSET_WIDTH = 12" "HPDCACHE_REQ_TRANS_ID_WIDTH = 6"
  "HPDCACHE_REQ_SRC_ID_WIDTH = 3" "HPDCACHE_PA_WIDTH = 49"
  by (simp_all add: core_req_width HPDCACHE_REQ_TRANS_ID_WIDTH_def HPDCACHE_REQ_SRC_ID_WIDTH_def HPDCACHE_PA_WIDTH_def)

lemma ucast_down_up:
  assumes "LENGTH('b) \<le> LENGTH('a)"
  shows "ucast (ucast (x :: 'b::len word) :: 'a::len word) = x"
  using assms by (auto intro!: bit_word_eqI simp: bit_simps dest: bit_imp_le_length)

lemma pma_bits:
  "bit (core_get_req_pma t) 0 = is_wr_policy_auto t" "bit (core_get_req_pma t) 1 = is_wr_policy_wb t"
  "bit (core_get_req_pma t) 2 = is_wr_policy_wt t" "bit (core_get_req_pma t) 3 = req_io t"
  "bit (core_get_req_pma t) 4 = req_uncacheable t"
  by (cases "is_wr_policy_auto t"; cases "is_wr_policy_wb t"; cases "is_wr_policy_wt t"; cases "req_io t";
      cases "req_uncacheable t"; simp add: core_get_req_pma_def Let_def bit_numeral_rec)+

lemma field_read:
  "get_range 0 5 (core_req_to_bv t) = take_bit 5 (ucast (core_get_req_pma t))"
  "get_range 5 37 (core_req_to_bv t) = take_bit 37 (ucast (core_get_req_tag t))"
  "get_range 42 1 (core_req_to_bv t) = (if req_phys_indexed t then 1 else 0)"
  "get_range 43 1 (core_req_to_bv t) = (if req_need_rsp t then 1 else 0)"
  "get_range 44 6 (core_req_to_bv t) = ucast (req_tid t)"
  "get_range 50 3 (core_req_to_bv t) = ucast (req_sid t)"
  "get_range 53 3 (core_req_to_bv t) = ucast (req_size t)"
  "get_range 56 8 (core_req_to_bv t) = ucast (req_be t)"
  "get_range 64 5 (core_req_to_bv t) = ucast (req_op t)"
  "get_range 69 64 (core_req_to_bv t) = ucast (req_wdata t)"
  "get_range 133 12 (core_req_to_bv t) = take_bit 12 (ucast (get_range 0 13 (req_addr t)))"
  by (simp_all del: One_nat_def add: core_req_to_bv_def get_put_same get_put_other take_bit_ucast Let_def)

lemma address_fields:
  fixes a :: "49 word"
  shows "take_bit 12 (ucast (get_range 0 13 a) :: 145 word) = ucast (take_bit 12 a)"
    "take_bit 37 (ucast (ucast (get_range 12 37 a) :: u64) :: 145 word) = ucast (drop_bit 12 a)"
  by (auto intro!: bit_word_eqI simp: get_range_def bit_simps possible_bit_def)
    (auto dest: bit_imp_le_length)

text \<open>What the cache reads from the vector: the fields at the positions of its request structure.\<close>

definition unpack :: "145 word \<Rightarrow> bool \<Rightarrow> core_req" where
  "unpack bv aborted =
     (let pma = get_range 0 5 bv in
      \<lparr>req_addr = (push_bit 12 (ucast (get_range 5 37 bv)) OR ucast (get_range 133 12 bv)),
       req_wdata = ucast (get_range 69 64 bv), req_op = ucast (get_range 64 5 bv), req_be = ucast (get_range 56 8 bv),
       req_size = ucast (get_range 53 3 bv), req_sid = ucast (get_range 50 3 bv), req_tid = ucast (get_range 44 6 bv),
       req_need_rsp = bit bv 43, req_phys_indexed = bit bv 42, req_uncacheable = bit pma 4, req_io = bit pma 3,
       req_wr_policy_hint = (if bit pma 1 then WR_POLICY_WB else if bit pma 2 then WR_POLICY_WT else WR_POLICY_AUTO),
       req_abort = aborted\<rparr>)"

lemma bit_of_range: "k < LENGTH('a) \<Longrightarrow> bit (bv :: 'a::len word) k = (get_range k 1 bv = 1)"
proof -
  assume "k < LENGTH('a)"
  have "get_range k 1 bv = of_bool (bit bv k)"
    by (rule bit_word_eqI) (auto simp: get_range_def bit_simps bit_1_iff simp flip: bit_iff_odd_drop_bit)
  then show ?thesis by simp
qed

lemma join_address: "push_bit 12 (drop_bit 12 a) OR take_bit 12 a = (a :: 49 word)"
  by (rule bit_word_eqI) (auto simp: bit_simps possible_bit_def)

text \<open>C15: the packed request loses nothing: reading the fields of the bit vector at the positions of the
  request structure, with the abort signal, gives back the request.\<close>

theorem core_req_roundtrip: "unpack (core_req_to_bv t) (is_aborted t) = t"
proof -
  have addr: "push_bit 12 (ucast (get_range 5 37 (core_req_to_bv t))) OR ucast (get_range 133 12 (core_req_to_bv t)) = req_addr t"
    unfolding field_read core_get_req_tag_def
    using address_fields [of "req_addr t"] join_address [of "req_addr t"] by (simp add: ucast_down_up)
  have pma: "bit (get_range 0 5 (core_req_to_bv t)) k = bit (core_get_req_pma t) k" if "k < 5" for k
    using that by (simp add: field_read bit_simps)
  have hint: "(if is_wr_policy_wb t then WR_POLICY_WB else if is_wr_policy_wt t then WR_POLICY_WT else WR_POLICY_AUTO)
      = req_wr_policy_hint t"
    by (cases "req_wr_policy_hint t") (simp_all add: is_wr_policy_wb_def is_wr_policy_wt_def)
  have bits: "bit (core_req_to_bv t) 43 = req_need_rsp t" "bit (core_req_to_bv t) 42 = req_phys_indexed t"
    using bit_of_range [of 43 "core_req_to_bv t"] bit_of_range [of 42 "core_req_to_bv t"]
    by (simp_all add: field_read del: One_nat_def)
  show ?thesis
    using addr hint bits unfolding unpack_def Let_def
    by (intro core_req.equality)
      (simp_all add: pma pma_bits field_read(5-10) ucast_down_up is_aborted_def split: if_splits del: One_nat_def)
qed

text \<open>The response structure of the cache, from its fields.\<close>

definition pack_resp :: "core_resp \<Rightarrow> 75 word" where
  "pack_resp r =
     put_range 11 64 (ucast (rsp_rdata r)) (put_range 8 3 (ucast (rsp_sid r)) (put_range 2 6 (ucast (rsp_tid r))
       (put_range 1 1 (if rsp_error r then 1 else 0) (put_range 0 1 (if rsp_aborted r then 1 else 0) 0))))"

text \<open>Unpacking a response gives back the fields that the cache put into it.\<close>

lemma core_resp_roundtrip: "core_resp_to_struct (pack_resp r) = r"
  by (intro core_resp.equality)
    (simp_all add: core_resp_to_struct_def pack_resp_def get_put_same get_put_other take_bit_ucast ucast_down_up
      Let_def del: One_nat_def)

section \<open>Requests are driven in order\<close>

definition driver_new :: driver where
  "driver_new = \<lparr>core_req_valid_o = False, core_req_o = 0, core_req_abort_o = False, core_req_tag_o = 0,
     core_req_pma_o = 0, transaction_ret = [], sb_core_req = [], sb_core_resp = [], got_finish = False\<rparr>"

text \<open>\<open>xs\<close> is everything that is ever written to the transaction FIFO; the first \<open>n\<close> elements have been read.\<close>

inductive driver_run :: "(core_req \<times> u64) option list \<Rightarrow> nat \<Rightarrow> drive_pc \<Rightarrow> driver \<Rightarrow> bool" for xs where
  dr_start: "driver_run xs 0 Waiting driver_new"
| dr_fetch: "driver_run xs n Waiting s \<Longrightarrow> n < length xs \<Longrightarrow> drive_fetch (xs ! n) s = (pc', s') \<Longrightarrow>
    driver_run xs (Suc n) pc' s'"
| dr_clock: "driver_run xs n pc s \<Longrightarrow> drive_clock ready pc s = (pc', s') \<Longrightarrow> driver_run xs n pc' s'"
| dr_monitor: "driver_run xs n pc s \<Longrightarrow> driver_run xs n pc (monitor_response valid bv s)"

fun in_hand :: "drive_pc \<Rightarrow> (core_req \<times> u64) option list" where
  "in_hand Waiting = []"
| "in_hand (Driving t n) = [Some (t, n)]"
| "in_hand (Draining i) = [None]"
| "in_hand Finished = [None]"

fun outputs_ok :: "drive_pc \<Rightarrow> driver \<Rightarrow> bool" where
  "outputs_ok (Driving t n) s \<longleftrightarrow> core_req_valid_o s \<and> core_req_o s = core_req_to_bv t \<and> \<not> got_finish s"
| "outputs_ok Finished s \<longleftrightarrow> \<not> core_req_valid_o s \<and> got_finish s"
| "outputs_ok pc s \<longleftrightarrow> \<not> core_req_valid_o s \<and> \<not> got_finish s"

text \<open>C16: the driver presents the transactions one at a time and in order: what it has acknowledged and
  reported to the scoreboard, followed by the transaction in hand, is exactly what it has read; the
  valid signal is set exactly while it presents a request, with the packed request on the bus, and the
  end of the simulation is requested only after the stop marker.\<close>

theorem driver_in_order:
  assumes "driver_run xs n pc s"
  shows "map Some (zip (sb_core_req s) (transaction_ret s)) @ in_hand pc = take n xs \<and>
    length (sb_core_req s) = length (transaction_ret s) \<and> outputs_ok pc s"
  using assms
proof (induction rule: driver_run.induct)
  case (dr_fetch n s pc' s')
  then have "take (Suc n) xs = take n xs @ [xs ! n]" by (simp add: take_Suc_conv_app_nth)
  then show ?case using dr_fetch by (cases "xs ! n") auto
next
  case (dr_clock n pc s ready pc' s')
  then show ?case by (cases pc) (auto split: if_splits)
next
  case (dr_monitor n pc s valid bv)
  then show ?case by (cases pc) (auto simp: monitor_response_def)
qed (simp add: driver_new_def)

theorem driver_in_order_witness:
  "\<exists>s. driver_run [Some (new_core_req, 0), None] 1 (Driving new_core_req 0) s \<and> core_req_valid_o s"
proof -
  have "driver_run [Some (new_core_req, 0), None] 1 (Driving new_core_req 0)
      (driver_new\<lparr>core_req_valid_o := True, core_req_o := core_req_to_bv new_core_req\<rparr>)"
    using dr_fetch [OF dr_start, of "[Some (new_core_req, 0), None]"] by simp
  then show ?thesis using driver_in_order by fastforce
qed

section \<open>The driver gets through\<close>

text \<open>Clock cycle by clock cycle, with a FIFO that has the next transaction whenever the driver wants it.
  \<open>drive_cycles r n\<close> is the state after \<open>n\<close> clock edges, with \<open>r k\<close> the ready signal of the cache
  at edge \<open>k\<close>.\<close>

type_synonym drive_state = "(core_req \<times> u64) option list \<times> drive_pc \<times> driver"

fun drive_refill :: "drive_state \<Rightarrow> drive_state" where
  "drive_refill (x # xs, Waiting, s) = (xs, drive_fetch x s)"
| "drive_refill st = st"

definition drive_cycle :: "bool \<Rightarrow> drive_state \<Rightarrow> drive_state" where
  "drive_cycle ready st = (case st of (xs, pc, s) \<Rightarrow> drive_refill (xs, drive_clock ready pc s))"

primrec drive_cycles :: "(nat \<Rightarrow> bool) \<Rightarrow> nat \<Rightarrow> drive_state \<Rightarrow> drive_state" where
  "drive_cycles r 0 st = st"
| "drive_cycles r (Suc n) st = drive_cycle (r n) (drive_cycles r n st)"

fun presenting :: "drive_state \<Rightarrow> bool" where
  "presenting (xs, Driving t m, s) \<longleftrightarrow> True"
| "presenting st \<longleftrightarrow> False"

interpretation drv: handshake "\<lambda>ready n. drive_cycle ready" drive_cycles presenting
proof unfold_locales
  fix st :: drive_state and n :: nat
  show "presenting st \<Longrightarrow> drive_cycle False st = st" by (cases st rule: presenting.cases) (simp_all add: drive_cycle_def)
qed simp

definition accepted :: "core_req \<Rightarrow> u64 \<Rightarrow> driver \<Rightarrow> driver" where
  "accepted t n s = s\<lparr>core_req_o := core_req_to_bv t, core_req_valid_o := False, core_req_tag_o := core_get_req_tag t,
     core_req_pma_o := core_get_req_pma t, core_req_abort_o := is_aborted t,
     transaction_ret := transaction_ret s @ [n], sb_core_req := sb_core_req s @ [t]\<rparr>"

lemma driving_accepted:
  assumes "drive_cycles r k st = drive_refill (Some (t, m) # xs, Waiting, s)" "\<exists>j \<le> B. r (k + j)"
  shows "\<exists>k' \<le> k + Suc B. drive_cycles r k' st = drive_refill (xs, Waiting, accepted t m s)"
proof -
  let ?st = "(xs, Driving t m, s\<lparr>core_req_valid_o := True, core_req_o := core_req_to_bv t\<rparr>)"
  have "drive_cycles r k st = ?st" using assms(1) by simp
  from drv.moves_on [OF this _ assms(2)] obtain j where "j \<le> B" "drive_cycles r (k + Suc j) st = drive_cycle True ?st" by auto
  then show ?thesis by (intro exI [of _ "k + Suc j"]) (simp add: drive_cycle_def accepted_def)
qed

lemma drive_all:
  assumes "\<forall>k. \<exists>j \<le> B. r (k + j)" "drive_cycles r k st = drive_refill (map Some ts @ [None], Waiting, s)"
  shows "\<exists>k' s'. k' \<le> k + Suc B * length ts \<and> drive_cycles r k' st = ([], Draining 0, s') \<and>
    sb_core_req s' = sb_core_req s @ map fst ts \<and> transaction_ret s' = transaction_ret s @ map snd ts"
  using assms(2)
proof (induction ts arbitrary: k s)
  case Nil
  then show ?case by (intro exI [of _ k] exI [of _ s]) simp
next
  case (Cons x ts)
  obtain t m where x: "x = (t, m)" by (cases x)
  obtain k1 where k1: "k1 \<le> k + Suc B" "drive_cycles r k1 st = drive_refill (map Some ts @ [None], Waiting, accepted t m s)"
    using driving_accepted [OF Cons.prems [unfolded x list.map append_Cons] assms(1) [rule_format]] by blast
  obtain k' s' where "k' \<le> k1 + Suc B * length ts" "drive_cycles r k' st = ([], Draining 0, s')"
    "sb_core_req s' = sb_core_req s @ t # map fst ts" "transaction_ret s' = transaction_ret s @ m # map snd ts"
    using Cons.IH [OF k1(2)] by (auto simp: accepted_def)
  then show ?case using k1(1) x by (intro exI [of _ k'] exI [of _ s']) simp
qed

lemma draining_ends:
  assumes "drive_cycles r k st = ([], Draining 0, s)"
  shows "i < 10000 \<Longrightarrow> drive_cycles r (k + i) st = ([], Draining i, s)"
    "drive_cycles r (k + 10000) st = ([], Finished, s\<lparr>got_finish := True\<rparr>)"
proof -
  show *: "drive_cycles r (k + i) st = ([], Draining i, s)" if "i < 10000" for i
    using that by (induction i) (simp_all add: assms drive_cycle_def)
  have "drive_cycles r (k + 9999) st = ([], Draining 9999, s)" by (rule *) simp
  then have "drive_cycles r (Suc (k + 9999)) st = ([], Finished, s\<lparr>got_finish := True\<rparr>)"
    unfolding drive_cycles.simps by (simp add: drive_cycle_def)
  moreover have "k + 10000 = Suc (k + 9999)" by simp
  ultimately show "drive_cycles r (k + 10000) st = ([], Finished, s\<lparr>got_finish := True\<rparr>)" by (simp only:)
qed

text \<open>C17: the driver gets through: if the cache is ready at least once in every \<open>B + 1\<close> clock cycles, then
  after at most \<open>B + 1\<close> cycles per transaction and the 10000 cycles of draining every transaction has
  been presented, acknowledged and reported to the scoreboard, in order, and the end of the simulation
  is requested.\<close>

theorem driver_completes:
  assumes "\<forall>k. \<exists>j \<le> B. r (k + j)"
  shows "\<exists>n s. n \<le> Suc B * length ts + 10000 \<and>
    drive_cycles r n (drive_refill (map Some ts @ [None], Waiting, driver_new)) = ([], Finished, s) \<and>
    sb_core_req s = map fst ts \<and> transaction_ret s = map snd ts \<and> got_finish s"
proof -
  obtain k s where k: "k \<le> Suc B * length ts"
    "drive_cycles r k (drive_refill (map Some ts @ [None], Waiting, driver_new)) = ([], Draining 0, s)"
    "sb_core_req s = map fst ts" "transaction_ret s = map snd ts"
    using drive_all [OF assms, of 0 "drive_refill (map Some ts @ [None], Waiting, driver_new)" ts driver_new]
    by (auto simp: driver_new_def)
  from draining_ends(2) [OF k(2)] show ?thesis using k(1,3,4)
    by (intro exI [of _ "k + 10000"] exI [of _ "s\<lparr>got_finish := True\<rparr>"]) simp
qed

theorem driver_completes_witness:
  "\<exists>n s. n \<le> 2 * 1 + 10000 \<and>
    drive_cycles odd n (drive_refill ([Some (new_core_req, 3), None], Waiting, driver_new)) = ([], Finished, s) \<and>
    sb_core_req s = [new_core_req] \<and> got_finish s"
proof -
  have "\<forall>k. \<exists>j \<le> 1. odd (k + j :: nat)" by presburger
  from driver_completes [OF this, of "[(new_core_req, 3)]"] show ?thesis by (auto simp: numeral_2_eq_2)
qed

end
