(* ===== verification/Mem_Timing.thy ===== *)
theory Mem_Timing
  imports Mem_Resp Handshake
begin

text \<open>
  The memory response model clock edge by clock edge: the distributions of its random delays
  (\<^verbatim>\<open>hpdcache_test_mem_resp_model_base.h\<close>), the two processes that accept write requests and data beats
  after a delay, and the two that present responses until the cache takes them
  (\<^verbatim>\<open>hpdcache_test_mem_resp_model.h\<close>). The theory Mem\_Resp says what the processes do, this one when. A delay is the
  argument \<open>d k\<close> at edge \<open>k\<close>; \<open>drawn\<close> is what a draw from a bag of ranges guarantees.
\<close>

section \<open>The delays\<close>

type_synonym delay_bag = "((nat \<times> nat) \<times> nat) list"

record mem_delays =
  ra_ready_delay :: delay_bag
  rd_valid_delay :: delay_bag
  wa_ready_delay :: delay_bag
  wd_ready_delay :: delay_bag
  wb_valid_delay :: delay_bag

definition ra_delay_distribution :: delay_bag where "ra_delay_distribution = [((0, 2), 90), ((3, 8), 8), ((9, 32), 2)]"
definition rd_delay_distribution :: delay_bag where "rd_delay_distribution = [((0, 2), 8), ((3, 8), 90), ((9, 64), 2)]"
definition wa_delay_distribution :: delay_bag where "wa_delay_distribution = [((0, 2), 90), ((3, 8), 8), ((9, 32), 2)]"
definition wd_delay_distribution :: delay_bag where "wd_delay_distribution = [((0, 2), 90), ((3, 8), 8), ((9, 32), 2)]"
definition wb_delay_distribution :: delay_bag where "wb_delay_distribution = [((0, 2), 8), ((3, 8), 90), ((9, 64), 2)]"

definition mem_delays_new :: mem_delays where
  "mem_delays_new = \<lparr>ra_ready_delay = ra_delay_distribution, rd_valid_delay = rd_delay_distribution,
     wa_ready_delay = wa_delay_distribution, wd_ready_delay = wd_delay_distribution,
     wb_valid_delay = wb_delay_distribution\<rparr>"

definition set_ra_ready_delay_distribution :: "delay_bag \<Rightarrow> mem_delays \<Rightarrow> mem_delays" where
  "set_ra_ready_delay_distribution dist m = m\<lparr>ra_ready_delay := dist\<rparr>"
definition set_rd_valid_delay_distribution :: "delay_bag \<Rightarrow> mem_delays \<Rightarrow> mem_delays" where
  "set_rd_valid_delay_distribution dist m = m\<lparr>rd_valid_delay := dist\<rparr>"
definition set_wa_ready_delay_distribution :: "delay_bag \<Rightarrow> mem_delays \<Rightarrow> mem_delays" where
  "set_wa_ready_delay_distribution dist m = m\<lparr>wa_ready_delay := dist\<rparr>"
definition set_wd_ready_delay_distribution :: "delay_bag \<Rightarrow> mem_delays \<Rightarrow> mem_delays" where
  "set_wd_ready_delay_distribution dist m = m\<lparr>wd_ready_delay := dist\<rparr>"
definition set_wb_valid_delay_distribution :: "delay_bag \<Rightarrow> mem_delays \<Rightarrow> mem_delays" where
  "set_wb_valid_delay_distribution dist m = m\<lparr>wb_valid_delay := dist\<rparr>"

text \<open>The read and the write sequence change the delays before their first request; \<open>keep\<close> stands for the
  library's \<^verbatim>\<open>keep_only\<close>.\<close>

definition no_delay :: delay_bag where "no_delay = [((0, 0), 100)]"

definition read_seq_delays :: "mem_delays \<Rightarrow> mem_delays" where
  "read_seq_delays m =
     set_wb_valid_delay_distribution no_delay (set_wd_ready_delay_distribution no_delay
     (set_wa_ready_delay_distribution no_delay (set_rd_valid_delay_distribution no_delay
     (set_ra_ready_delay_distribution no_delay m))))"

definition write_seq_delays :: "(nat \<Rightarrow> delay_bag \<Rightarrow> delay_bag) \<Rightarrow> mem_delays \<Rightarrow> mem_delays" where
  "write_seq_delays keep m =
     set_wb_valid_delay_distribution no_delay (set_wd_ready_delay_distribution no_delay
     (set_wa_ready_delay_distribution no_delay
     (m\<lparr>ra_ready_delay := keep 0 (ra_ready_delay m), rd_valid_delay := keep 16 (rd_valid_delay m)\<rparr>)))"

definition drawn :: "delay_bag \<Rightarrow> nat \<Rightarrow> bool" where
  "drawn bag n \<longleftrightarrow> (\<exists>((lo, hi), w) \<in> set bag. 0 < w \<and> lo \<le> n \<and> n \<le> hi)"

lemma drawn_bounds:
  "drawn ra_delay_distribution n \<Longrightarrow> n \<le> 32" "drawn rd_delay_distribution n \<Longrightarrow> n \<le> 64"
  "drawn wa_delay_distribution n \<Longrightarrow> n \<le> 32" "drawn wd_delay_distribution n \<Longrightarrow> n \<le> 32"
  "drawn wb_delay_distribution n \<Longrightarrow> n \<le> 64" "drawn no_delay n \<Longrightarrow> n \<le> 0"
  by (auto simp: drawn_def ra_delay_distribution_def rd_delay_distribution_def wa_delay_distribution_def
      wd_delay_distribution_def wb_delay_distribution_def no_delay_def)

section \<open>Printing\<close>

text \<open>The write request and data flits as text; \<open>bv\<close> prints a bit vector of a width.\<close>

definition write_flit_to_string :: "mem_req \<Rightarrow> string" where
  "write_flit_to_string r = out (puts
     ([Str ''MEM_WRITE'', Str '' / ADDR = 0x''] @ hex_val (unat (maddr r)) @
      [Str '' / LEN = 0d'', SetDec, ULong (ucast (mlen r)), SetDec, Str '' / ID = 0x''] @ hex_val (unat (mid r))) fresh_stream)"

definition data_flit_to_string :: "(nat \<Rightarrow> nat \<Rightarrow> string) \<Rightarrow> data_flit \<Rightarrow> string" where
  "data_flit_to_string bv r = out (puts
     [Str ''MEM_WRITE_DATA'', Str '' / DATA = 0x'', SetHex, Str (bv 512 (unat (flit_data r))), SetDec,
      Str '' / BE = 0x'', SetHex, Str (bv 64 (unat (flit_be r))), SetDec, Str (if flit_last r then '' / LAST'' else [])] fresh_stream)"

section \<open>Accepting a request\<close>

text \<open>The loop of \<^verbatim>\<open>write_address_process\<close> and \<^verbatim>\<open>write_data_process\<close>: at the top of the loop the
  ready signal is cleared and a request is waited for; \<open>ADelay n\<close>: \<open>n\<close> more waits of the delay; \<open>AReady\<close>: the
  wait while the ready signal is set.\<close>

datatype accept_pc = AWait | ADelay nat | AReady

type_synonym 'r accept = "accept_pc \<times> bool \<times> 'r list"

fun accept_now :: "'r \<Rightarrow> nat \<Rightarrow> 'r list \<Rightarrow> 'r accept" where
  "accept_now r 0 fifo = (AReady, True, fifo @ [r])"
| "accept_now r (Suc n) fifo = (ADelay (Suc n), False, fifo)"

fun accept_edge :: "bool \<Rightarrow> 'r \<Rightarrow> nat \<Rightarrow> 'r accept \<Rightarrow> 'r accept" where
  "accept_edge valid r d (ADelay n, ready, fifo) = accept_now r (n - 1) fifo"
| "accept_edge valid r d (pc, ready, fifo) = (if valid then accept_now r d fifo else (AWait, False, fifo))"

primrec accept_run :: "(nat \<Rightarrow> bool) \<Rightarrow> (nat \<Rightarrow> 'r) \<Rightarrow> (nat \<Rightarrow> nat) \<Rightarrow> nat \<Rightarrow> 'r accept \<Rightarrow> 'r accept" where
  "accept_run valid r d 0 st = st"
| "accept_run valid r d (Suc n) st = accept_edge (valid n) (r n) (d n) (accept_run valid r d n st)"

lemma accept_delay:
  assumes "accept_run valid r d k st = (ADelay (Suc m), False, fifo)" "i \<le> m"
  shows "accept_run valid r d (k + i) st = (ADelay (Suc (m - i)), False, fifo)"
  using assms(2)
proof (induction i)
  case (Suc i)
  then have "m - i = Suc (m - Suc i)" by simp
  then show ?case using Suc by simp
qed (simp add: assms(1))

section \<open>Presenting a response\<close>

text \<open>The loop of \<^verbatim>\<open>read_response_process\<close> and \<^verbatim>\<open>write_response_process\<close>. \<open>inval r\<close>: the response
  carries an invalidation, which is presented for one cycle first (never for a write response, and for a
  read response only with \<^verbatim>\<open>HPDCACHE_OPENPITON\<close>). The process starts with its valid signal low.\<close>

datatype 'r resp_pc = RIdle | RDelay nat 'r | RInval 'r | RValid 'r

record 'r resp_chan =
  rc_fifo :: "'r list"
  rc_valid :: bool
  rc_inval :: bool
  rc_data :: "'r option"
  rc_sb :: "'r list"

definition resp_start :: "'r list \<Rightarrow> 'r resp_pc \<times> 'r resp_chan" where
  "resp_start fifo = (RIdle, \<lparr>rc_fifo = fifo, rc_valid = False, rc_inval = False, rc_data = None, rc_sb = []\<rparr>)"

definition resp_drive :: "'r \<Rightarrow> 'r resp_chan \<Rightarrow> 'r resp_pc \<times> 'r resp_chan" where
  "resp_drive r c = (RValid r, c\<lparr>rc_inval := False, rc_valid := True, rc_data := Some r\<rparr>)"

definition resp_present :: "('r \<Rightarrow> bool) \<Rightarrow> 'r \<Rightarrow> 'r resp_chan \<Rightarrow> 'r resp_pc \<times> 'r resp_chan" where
  "resp_present inval r c =
     (let c = c\<lparr>rc_sb := rc_sb c @ [r]\<rparr> in
      if inval r then (RInval r, c\<lparr>rc_valid := True, rc_inval := True\<rparr>) else resp_drive r c)"

definition resp_top :: "('r \<Rightarrow> bool) \<Rightarrow> nat \<Rightarrow> 'r resp_chan \<Rightarrow> 'r resp_pc \<times> 'r resp_chan" where
  "resp_top inval d c =
     (case rc_fifo c of
        [] \<Rightarrow> (RIdle, c)
      | r # rs \<Rightarrow>
          let c = c\<lparr>rc_fifo := rs\<rparr> in if d = 0 then resp_present inval r c else (RDelay d r, c))"

fun resp_edge :: "('r \<Rightarrow> bool) \<Rightarrow> bool \<Rightarrow> nat \<Rightarrow> 'r resp_pc \<times> 'r resp_chan \<Rightarrow> 'r resp_pc \<times> 'r resp_chan" where
  "resp_edge inval ready d (RIdle, c) = resp_top inval d c"
| "resp_edge inval ready d (RDelay n r, c) = (if n \<le> 1 then resp_present inval r c else (RDelay (n - 1) r, c))"
| "resp_edge inval ready d (RInval r, c) = resp_drive r c"
| "resp_edge inval ready d (RValid r, c) =
     (if ready then resp_top inval d (c\<lparr>rc_valid := False\<rparr>) else (RValid r, c))"

text \<open>The cache's side of the channel sees only the pins: at a clock edge with its ready signal set it takes
  what the data pins hold, if valid is set and no invalidation is announced. A run keeps the state of the
  process and the list of what the cache has taken.\<close>

definition cache_takes :: "bool \<Rightarrow> 'r resp_chan \<Rightarrow> 'r list" where
  "cache_takes ready c =
     (if ready \<and> rc_valid c \<and> \<not> rc_inval c then (case rc_data c of Some r \<Rightarrow> [r] | None \<Rightarrow> []) else [])"

type_synonym 'r resp_run_state = "('r resp_pc \<times> 'r resp_chan) \<times> 'r list"

definition resp_cycle :: "('r \<Rightarrow> bool) \<Rightarrow> bool \<Rightarrow> nat \<Rightarrow> 'r resp_run_state \<Rightarrow> 'r resp_run_state" where
  "resp_cycle inval ready d = (\<lambda>(st, taken). (resp_edge inval ready d st, taken @ cache_takes ready (snd st)))"

primrec resp_run ::
  "('r \<Rightarrow> bool) \<Rightarrow> (nat \<Rightarrow> bool) \<Rightarrow> (nat \<Rightarrow> nat) \<Rightarrow> nat \<Rightarrow> 'r resp_run_state \<Rightarrow> 'r resp_run_state" where
  "resp_run inval ready d 0 st = st"
| "resp_run inval ready d (Suc n) st = resp_cycle inval (ready n) (d n) (resp_run inval ready d n st)"

section \<open>Requests are accepted\<close>

text \<open>The memory model accepts what it is offered: a write request (or data beat) that is held on the pins until
  it is accepted is accepted after exactly the delay drawn for it, so within 32 clock edges after the one that saw it;
  the ready signal is low until then, and the request is put into the FIFO once.\<close>

lemma write_accepted:
  assumes "accept_run valid r d k st = (pc, rdy, fifo)" "pc = AWait \<or> pc = AReady"
    and "drawn (wa_ready_delay mem_delays_new) (d k)" "\<forall>i \<le> d k. valid (k + i) \<and> r (k + i) = req"
  shows "d k \<le> 32 \<and> accept_run valid r d (k + Suc (d k)) st = (AReady, True, fifo @ [req]) \<and>
    (\<forall>i < d k. \<exists>pc'. accept_run valid r d (k + Suc i) st = (pc', False, fifo))"
proof -
  have "d k \<le> 32" using assms(3) drawn_bounds(3) by (simp add: mem_delays_new_def)
  have first: "accept_run valid r d (Suc k) st = accept_now req (d k) fifo"
    using assms(1,2) assms(4) [rule_format, of 0] by auto
  show ?thesis
  proof (cases "d k")
    case 0
    then show ?thesis using first by simp
  next
    case (Suc m)
    note wait = accept_delay [OF first [unfolded Suc accept_now.simps]]
    have "accept_run valid r d (Suc k + m) st = (ADelay (Suc 0), False, fifo)" using wait [of m] by simp
    moreover have "r (k + Suc m) = req" using assms(4) [rule_format, of "Suc m"] Suc by simp
    ultimately have "accept_run valid r d (Suc (Suc k + m)) st = (AReady, True, fifo @ [req])" by simp
    moreover have "\<exists>pc'. accept_run valid r d (k + Suc i) st = (pc', False, fifo)" if "i < Suc m" for i
      using wait [of i] that by simp
    ultimately show ?thesis using \<open>d k \<le> 32\<close> Suc by simp
  qed
qed

section \<open>Responses are delivered\<close>

lemma cache_takes_none [simp]: "\<not> rc_valid c \<Longrightarrow> cache_takes ready c = []" "rc_inval c \<Longrightarrow> cache_takes ready c = []"
  "cache_takes False c = []"
  by (simp_all add: cache_takes_def)

lemma resp_delay:
  assumes "resp_run inval ready d k st = ((RDelay (Suc m) r, c), taken)" "\<not> rc_valid c"
  shows "resp_run inval ready d (k + Suc m) st = (resp_present inval r c, taken)"
  using assms
proof (induction m arbitrary: k)
  case (Suc m)
  have "resp_run inval ready d (Suc k) st = ((RDelay (Suc m) r, c), taken)" using Suc.prems by (simp add: resp_cycle_def)
  from Suc.IH [OF this Suc.prems(2)] show ?case by simp
qed (simp add: resp_cycle_def)

text \<open>A response that has reached the pins.\<close>

definition on_pins :: "'r \<Rightarrow> 'r resp_chan \<Rightarrow> bool" where
  "on_pins r c \<longleftrightarrow> rc_valid c \<and> \<not> rc_inval c \<and> rc_data c = Some r"

lemma cache_takes_pins: "on_pins r c \<Longrightarrow> cache_takes True c = [r]"
  by (simp add: on_pins_def cache_takes_def)

lemma resp_presented:
  assumes "resp_run inval ready d k st = (resp_present inval r c, taken)"
  shows "\<exists>j \<le> 1. \<exists>c'. resp_run inval ready d (k + j) st = ((RValid r, c'), taken) \<and> rc_fifo c' = rc_fifo c \<and>
    rc_sb c' = rc_sb c @ [r] \<and> on_pins r c'"
proof (cases "inval r")
  case True
  then show ?thesis
    using assms by (intro exI [of _ 1]) (simp add: resp_cycle_def resp_present_def resp_drive_def on_pins_def)
next
  case False
  then show ?thesis using assms by (intro exI [of _ 0]) (simp add: resp_present_def resp_drive_def on_pins_def)
qed

fun offering :: "'r resp_run_state \<Rightarrow> bool" where
  "offering ((RValid r, c), taken) \<longleftrightarrow> True"
| "offering st \<longleftrightarrow> False"

interpretation rsp: handshake "\<lambda>ready n. resp_cycle inval ready (d n)" "\<lambda>ready. resp_run inval ready d" offering for inval d
proof unfold_locales
  fix st :: "'a resp_run_state" and n :: nat
  show "offering st \<Longrightarrow> resp_cycle inval False (d n) st = st"
    by (cases st rule: offering.cases) (simp_all add: resp_cycle_def)
qed simp

lemma resp_one:
  assumes "\<forall>k. d k \<le> D" "\<forall>k. \<exists>j \<le> B. ready (k + j)"
    and "resp_run inval ready d k st = (resp_top inval m c, taken)" "m \<le> D" "\<not> rc_valid c" "rc_fifo c = r # rs"
  shows "\<exists>k' m' c'. k' \<le> k + (D + B + 2) \<and> m' \<le> D \<and> resp_run inval ready d k' st = (resp_top inval m' c', taken @ [r]) \<and>
    \<not> rc_valid c' \<and> rc_fifo c' = rs \<and> rc_sb c' = rc_sb c @ [r]"
proof -
  let ?c = "c\<lparr>rc_fifo := rs\<rparr>"
  have "resp_run inval ready d (k + m) st = (resp_present inval r ?c, taken)"
  proof (cases m)
    case 0
    then show ?thesis using assms(3,6) by (simp add: resp_top_def)
  next
    case (Suc n)
    then show ?thesis using assms(3,5,6) resp_delay [of inval ready d k st n r ?c taken] by (simp add: resp_top_def)
  qed
  from resp_presented [OF this] obtain j c1 where j: "j \<le> 1"
    and c1: "resp_run inval ready d (k + m + j) st = ((RValid r, c1), taken)" "rc_fifo c1 = rs"
      "rc_sb c1 = rc_sb c @ [r]" "on_pins r c1" by auto
  obtain i where i: "i \<le> B" "resp_run inval ready d (k + m + j + Suc i) st =
      (resp_top inval (d (k + m + j + i)) (c1\<lparr>rc_valid := False\<rparr>), taken @ [r])"
    using rsp.moves_on [OF c1(1) _ assms(2) [rule_format]] cache_takes_pins [OF c1(4)] by (auto simp: resp_cycle_def)
  show ?thesis using i j c1(2,3) assms(1,4)
    by (intro exI [of _ "k + m + j + Suc i"] exI [of _ "d (k + m + j + i)"] exI [of _ "c1\<lparr>rc_valid := False\<rparr>"]) simp
qed

lemma resp_all:
  assumes "\<forall>k. d k \<le> D" "\<forall>k. \<exists>j \<le> B. ready (k + j)"
    and "resp_run inval ready d k st = (resp_top inval m c, taken)" "m \<le> D" "\<not> rc_valid c"
  shows "\<exists>k' c'. k' \<le> k + (D + B + 2) * length (rc_fifo c) \<and>
    resp_run inval ready d k' st = ((RIdle, c'), taken @ rc_fifo c) \<and>
    rc_fifo c' = [] \<and> \<not> rc_valid c' \<and> rc_sb c' = rc_sb c @ rc_fifo c"
  using assms(3,4,5)
proof (induction "rc_fifo c" arbitrary: c k m taken)
  case Nil
  then show ?case by (intro exI [of _ k] exI [of _ c]) (simp add: resp_top_def)
next
  case (Cons r rs)
  obtain k1 m1 c1 where c1: "k1 \<le> k + (D + B + 2)" "m1 \<le> D"
    "resp_run inval ready d k1 st = (resp_top inval m1 c1, taken @ [r])"
    "\<not> rc_valid c1" "rc_fifo c1 = rs" "rc_sb c1 = rc_sb c @ [r]"
    using resp_one [OF assms(1,2) Cons.prems Cons.hyps(2) [symmetric]] by blast
  obtain k' c' where "k' \<le> k1 + (D + B + 2) * length rs" "resp_run inval ready d k' st = ((RIdle, c'), taken @ r # rs)"
    "rc_fifo c' = []" "\<not> rc_valid c'" "rc_sb c' = rc_sb c @ r # rs"
    using Cons.hyps(1) [OF c1(5) [symmetric] c1(3,2,4)] c1(5,6) by auto
  then show ?case using c1(1) Cons.hyps(2) [symmetric] by (intro exI [of _ k'] exI [of _ c']) simp
qed

text \<open>C22: the memory model delivers what it owes. The cache takes the value of the data pins at a clock edge
  where its ready signal and the valid signal are set and no invalidation is announced. If its ready signal is
  set at least once in every \<open>B + 1\<close> clock cycles, then it takes exactly the responses that wait in the FIFO, in
  order, each once, within \<open>64 + B + 2\<close> cycles per response; afterwards valid is low, and the scoreboard has been
  told of exactly these responses in the same order.\<close>

theorem responses_delivered:
  assumes "\<forall>k. drawn (rd_valid_delay mem_delays_new) (d k)" "\<forall>k. \<exists>j \<le> B. ready (k + j)"
  shows "\<exists>n c'. n \<le> (64 + B + 2) * length fifo + 1 \<and>
    resp_run inval ready d n (resp_start fifo, []) = ((RIdle, c'), fifo) \<and>
    rc_fifo c' = [] \<and> \<not> rc_valid c' \<and> rc_sb c' = fifo"
proof -
  have d: "\<forall>k. d k \<le> 64" using assms(1) drawn_bounds(2) by (simp add: mem_delays_new_def)
  have "resp_run inval ready d 1 (resp_start fifo, []) = (resp_top inval (d 0) (snd (resp_start fifo)), [])"
    by (simp add: resp_cycle_def resp_start_def)
  from resp_all [OF d assms(2) this] show ?thesis using d by (auto simp: algebra_simps resp_start_def)
qed

theorem responses_delivered_witness:
  "\<exists>n c'. n \<le> (64 + 1 + 2) * 2 + 1 \<and>
    resp_run (\<lambda>_. False) odd (\<lambda>k. 5) n (resp_start ''ab'', []) = ((RIdle, c'), ''ab'') \<and> rc_sb c' = ''ab''"
proof -
  have "\<forall>k :: nat. drawn (rd_valid_delay mem_delays_new) 5" by (simp add: drawn_def mem_delays_new_def rd_delay_distribution_def)
  moreover have "\<forall>k. \<exists>j \<le> 1. odd (k + j :: nat)" by presburger
  ultimately show ?thesis using responses_delivered [of "\<lambda>k. 5" 1 odd "''ab''" "\<lambda>_. False"] by auto
qed

end
