(* ===== verification/Scoreboard.thy ===== *)
theory Scoreboard
  imports Sequence_Lib Amo Ram_Model
begin

text \<open>
  The scoreboard of the cache testbench, \<^verbatim>\<open>hpdcache_test_scoreboard.h\<close>: it follows the requests and
  responses of the core and of the memory, keeps its own copy of the written bytes, and reports every
  response that is not as expected. An iteration of a process (one element read from its FIFO) is one
  step; the steps of the processes interleave. The configuration is the default one: requests of one
  64-bit word, and no check of the cache directory (\<^verbatim>\<open>ENABLE_CACHE_DIR_VERIF\<close> is not defined). \<open>N\<close> is the
  size of the scoreboard's memory, \<^verbatim>\<open>SCOREBOARD_RAM_SIZE\<close>; \<open>junk\<close> is what uninitialised members hold.
  The debug output is left out.
\<close>

section \<open>State\<close>

record inflight_entry =
  e_addr :: u64
  e_hit :: bool
  e_is_read :: bool
  e_is_write :: bool
  e_is_amo :: bool
  e_is_amo_sc :: bool
  e_is_amo_lr :: bool
  e_is_atomic :: bool
  e_is_error :: bool
  e_op :: "5 word"
  e_is_uncacheable :: bool
  e_bytes :: u8
  e_wdata :: u64
  e_be :: u8
  e_rdata :: u64
  e_rv :: u8

definition inflight_entry_to_string :: "inflight_entry \<Rightarrow> string" where
  "inflight_entry_to_string e = out (puts
     ([Str ''@0x''] @ hex_val (unat (e_addr e)) @
      [Str (if e_hit e then '' / hit'' else '' / miss''),
       Str (if e_is_read e then '' / read'' else if e_is_write e then '' / write'' else if e_is_amo e then '' / amo''
            else if e_is_amo_sc e then '' / sc'' else if e_is_amo_lr e then '' / lr'' else []),
       Str '' / '', Str (op_to_string (e_op e)), Str (if e_is_uncacheable e then '' / uncacheable'' else []),
       Str '' / bytes = '', ULong (ucast (e_bytes e))]) fresh_stream)"

record inflight_mem_entry =
  m_addr :: u64
  m_is_uncacheable :: bool
  m_is_error :: bool

record lrsc_buf =
  lr_valid :: bool
  lr_base :: u64
  lr_end :: u64
  lr_is_atomic :: bool

text \<open>The messages of \<^verbatim>\<open>print_error\<close>.\<close>

datatype sb_msg =
    ReqIdInflight u32
  | RespIdUnknown u32
  | WrongErrorFlag
  | ShallBeScSuccess
  | ShallBeScFailure
  | WrongData u64 u8 u8
  | AmoFifoFull
  | MemReadReqIdInflight u32
  | MemReadRespIdUnknown u32
  | MemWriteReqIdInflight u32
  | MemWriteRespIdUnknown u32
  | SeveralAtomics
  | UnexpectedLdex
  | UnexpectedAmo
  | UnexpectedStex
  | StexNoReservation
  | ResponseCount u64 u64
  | WriteMissCount u64 u64
  | ReadMissCount u64 u64
  | UnrespondedIds "nat list"

record perf =
  evt_cache_write_miss :: u64
  evt_cache_read_miss :: u64
  evt_uncached_req :: u64
  evt_cmo_req :: u64
  evt_write_req :: u64
  evt_read_req :: u64
  evt_prefetch_req :: u64
  evt_req_on_hold :: u64
  evt_rtab_rollback :: u64
  evt_stall_refill :: u64
  evt_stall :: u64

record scoreboard =
  nb_cycles :: u64
  nb_cycles_effective :: u64
  nb_core_req :: u64
  nb_core_req_need_rsp :: u64
  nb_core_resp :: u64
  nb_mem_read_req :: u64
  nb_mem_read_resp :: u64
  nb_mem_write_req :: u64
  nb_mem_write_resp :: u64
  nb_error :: u64
  sb_error_limit_m :: u64
  evts :: perf
  seq_ids :: "nat list"
  mem_resp_model :: "segment list option"
  inflight_m :: "(u32, inflight_entry) std_map"
  inflight_mem_read_m :: "(u64, inflight_mem_entry) std_map"
  inflight_mem_write_m :: "(u64, inflight_mem_entry) std_map"
  lrsc_buf_m :: lrsc_buf
  ram_m :: ram_model
  inflight_amo_req_m :: "inflight_entry list"
  sc_is_atomic :: bool
  sb_log :: "sb_msg list"

definition perf_new :: perf where
  "perf_new = \<lparr>evt_cache_write_miss = 0, evt_cache_read_miss = 0, evt_uncached_req = 0, evt_cmo_req = 0,
     evt_write_req = 0, evt_read_req = 0, evt_prefetch_req = 0, evt_req_on_hold = 0, evt_rtab_rollback = 0,
     evt_stall_refill = 0, evt_stall = 0\<rparr>"

text \<open>The constructor; the identifiers and the error segments are those of the sequence and the memory
  model that are connected afterwards.\<close>

definition scoreboard_new :: "lrsc_buf \<Rightarrow> ram_model \<Rightarrow> scoreboard" where
  "scoreboard_new junk ram =
     \<lparr>nb_cycles = 0, nb_cycles_effective = 0, nb_core_req = 0, nb_core_req_need_rsp = 0, nb_core_resp = 0,
      nb_mem_read_req = 0, nb_mem_read_resp = 0, nb_mem_write_req = 0, nb_mem_write_resp = 0, nb_error = 0,
      sb_error_limit_m = 0, evts = perf_new, seq_ids = [], mem_resp_model = None, inflight_m = [],
      inflight_mem_read_m = [], inflight_mem_write_m = [], lrsc_buf_m = junk, ram_m = ram,
      inflight_amo_req_m = [], sc_is_atomic = False, sb_log = []\<rparr>"

definition set_sequence :: "nat list \<Rightarrow> scoreboard \<Rightarrow> scoreboard" where
  "set_sequence p s = s\<lparr>seq_ids := p\<rparr>"

definition set_mem_resp_model :: "segment list \<Rightarrow> scoreboard \<Rightarrow> scoreboard" where
  "set_mem_resp_model p s = s\<lparr>mem_resp_model := Some p\<rparr>"

definition set_error_limit :: "u64 \<Rightarrow> scoreboard \<Rightarrow> scoreboard" where
  "set_error_limit n s = s\<lparr>sb_error_limit_m := n\<rparr>"

definition print_error :: "sb_msg \<Rightarrow> scoreboard \<Rightarrow> scoreboard res" where
  "print_error msg s =
     (let s = s\<lparr>sb_log := sb_log s @ [msg], nb_error := nb_error s + 1\<rparr> in
      if 0 < sb_error_limit_m s \<and> sb_error_limit_m s \<le> nb_error s then Inl Aborted else Inr s)"

definition align_to :: "u64 \<Rightarrow> u64 \<Rightarrow> u64" where
  "align_to val al = (val div al) * al"

definition release_id :: "nat \<Rightarrow> scoreboard \<Rightarrow> scoreboard" where
  "release_id n s = s\<lparr>seq_ids := snd (deallocate_id n (seq_ids s))\<rparr>"

section \<open>Performance events\<close>

record evt_in =
  in_write_miss :: bool
  in_read_miss :: bool
  in_uncached :: bool
  in_cmo :: bool
  in_write :: bool
  in_read :: bool
  in_prefetch :: bool
  in_on_hold :: bool
  in_rollback :: bool
  in_stall_refill :: bool
  in_stall :: bool

definition count_if :: "bool \<Rightarrow> u64 \<Rightarrow> u64" where
  "count_if b n = (if b then n + 1 else n)"

definition perf_events_process :: "evt_in \<Rightarrow> scoreboard \<Rightarrow> scoreboard" where
  "perf_events_process i s =
     (let p = evts s in
      s\<lparr>nb_cycles := nb_cycles s + 1,
        evts := \<lparr>evt_cache_write_miss = count_if (in_write_miss i) (evt_cache_write_miss p),
          evt_cache_read_miss = count_if (in_read_miss i) (evt_cache_read_miss p),
          evt_uncached_req = count_if (in_uncached i) (evt_uncached_req p),
          evt_cmo_req = count_if (in_cmo i) (evt_cmo_req p),
          evt_write_req = count_if (in_write i) (evt_write_req p),
          evt_read_req = count_if (in_read i) (evt_read_req p),
          evt_prefetch_req = count_if (in_prefetch i) (evt_prefetch_req p),
          evt_req_on_hold = count_if (in_on_hold i) (evt_req_on_hold p),
          evt_rtab_rollback = count_if (in_rollback i) (evt_rtab_rollback p),
          evt_stall_refill = count_if (in_stall_refill i) (evt_stall_refill p),
          evt_stall = count_if (in_stall i) (evt_stall p)\<rparr>\<rparr>)"

section \<open>Requests of the core\<close>

definition new_entry :: "inflight_entry \<Rightarrow> core_req \<Rightarrow> inflight_entry" where
  "new_entry junk req =
     (let e = junk\<lparr>e_addr := ucast (req_addr req), e_hit := False, e_is_read := is_load req,
                e_is_write := is_store req, e_is_amo := is_amo req, e_is_amo_lr := is_amo_lr req,
                e_is_amo_sc := is_amo_sc req, e_is_uncacheable := req_uncacheable req, e_is_error := False,
                e_bytes := 2 ^ unat (req_size req), e_op := req_op req\<rparr>
      in if is_store req \<or> is_amo_sc req \<or> is_amo req then e\<lparr>e_wdata := req_wdata req, e_be := req_be req\<rparr> else e)"

definition entry_error :: "segment list option \<Rightarrow> core_req \<Rightarrow> inflight_entry \<Rightarrow> inflight_entry" where
  "entry_error model req e =
     (case model of
        Some segs \<Rightarrow>
          if \<not> is_cmo req \<or> is_cmo_prefetch req
          then e\<lparr>e_is_error := within_error_region_of segs (e_addr e) (e_addr e + ucast (e_bytes e))\<rparr> else e
      | None \<Rightarrow> e)"

definition expect_data :: "nat \<Rightarrow> core_req \<Rightarrow> ram_model \<Rightarrow> inflight_entry \<Rightarrow> inflight_entry res" where
  "expect_data N req ram e =
     (if \<not> e_is_error e \<and> (is_load req \<or> is_amo_lr req \<or> is_amo req)
      then res_bind (ram_read N ram 8 (align_to (e_addr e) 8)) (\<lambda>(bytes, valid).
           Inr (e\<lparr>e_rdata := le_word bytes, e_rv := valid ! 0\<rparr>))
      else Inr e)"

definition make_reservation :: "core_req \<Rightarrow> inflight_entry \<Rightarrow> lrsc_buf \<Rightarrow> lrsc_buf" where
  "make_reservation req e b =
     (if is_amo_lr req
      then if \<not> e_is_error e
           then \<lparr>lr_valid = True, lr_base = e_addr e, lr_end = e_addr e + 8, lr_is_atomic = False\<rparr>
           else b\<lparr>lr_valid := False\<rparr>
      else b)"

definition check_reservation :: "core_req \<Rightarrow> inflight_entry \<times> lrsc_buf \<Rightarrow> inflight_entry \<times> lrsc_buf" where
  "check_reservation req = (\<lambda>(e, b).
     if is_amo req \<or> is_amo_sc req \<or> is_store req
     then let addr_match = (lr_valid b \<and> drop_bit 3 (e_addr e) = drop_bit 3 (lr_base b));
              e = (if is_amo_sc req then e\<lparr>e_is_error := (e_is_error e \<and> addr_match), e_is_atomic := addr_match\<rparr> else e)
          in (e, if addr_match \<or> is_amo_sc req then b\<lparr>lr_valid := False\<rparr> else b)
     else (e, b))"

definition forwarded :: "core_req \<Rightarrow> inflight_entry \<Rightarrow> bool" where
  "forwarded req e \<longleftrightarrow> is_amo req \<or> is_amo_lr req \<or> (is_amo_sc req \<and> e_is_atomic e)"

text \<open>A FIFO of the SystemC default size, 16.\<close>

definition AMO_FIFO_SIZE :: nat where "AMO_FIFO_SIZE = 16"

definition track_store :: "nat \<Rightarrow> core_req \<Rightarrow> inflight_entry \<Rightarrow> scoreboard \<Rightarrow> scoreboard res" where
  "track_store N req e s =
     (if is_store req \<and> \<not> e_is_error e
      then res_bind (ram_write N (ram_m s) (le_bytes 8 (e_wdata e)) [e_be e] 8 (align_to (e_addr e) 8)) (\<lambda>r.
           Inr (s\<lparr>ram_m := r\<rparr>))
      else Inr s)"

definition counted :: "core_req \<Rightarrow> scoreboard \<Rightarrow> scoreboard" where
  "counted req s = s\<lparr>nb_core_req := nb_core_req s + 1,
     nb_core_req_need_rsp := (if req_need_rsp req then nb_core_req_need_rsp s + 1 else nb_core_req_need_rsp s)\<rparr>"

definition core_req_process :: "nat \<Rightarrow> inflight_entry \<Rightarrow> core_req \<Rightarrow> scoreboard \<Rightarrow> scoreboard res" where
  "core_req_process N junk req s =
     (let s = counted req s; req_id = ucast (req_tid req)
      in if map_find (inflight_m s) req_id \<noteq> None then print_error (ReqIdInflight req_id) s
         else if is_cmo req \<and> \<not> req_need_rsp req then Inr (release_id (unat req_id) s)
         else
           res_bind (expect_data N req (ram_m s) (entry_error (mem_resp_model s) req (new_entry junk req))) (\<lambda>e.
           let (e, b) = check_reservation req (e, make_reservation req e (lrsc_buf_m s));
               s = s\<lparr>lrsc_buf_m := b\<rparr>
           in if forwarded req e \<and> AMO_FIFO_SIZE \<le> length (inflight_amo_req_m s) then print_error AmoFifoFull s
              else
                let s = (if forwarded req e then s\<lparr>inflight_amo_req_m := inflight_amo_req_m s @ [e]\<rparr> else s) in
                res_bind (track_store N req e s) (\<lambda>s.
                Inr (s\<lparr>inflight_m := map_insert req_id e (inflight_m s)\<rparr>))))"

section \<open>Responses to the core\<close>

definition check_sc :: "nat \<Rightarrow> core_resp \<Rightarrow> inflight_entry \<Rightarrow> scoreboard \<Rightarrow> scoreboard res" where
  "check_sc N resp e s =
     (if e_is_amo_sc e
      then let sc_resp = (if e_bytes e = 4 then ucast (ucast (rsp_rdata resp) :: u32) else rsp_rdata resp) in
           if e_is_atomic e \<and> sc_is_atomic s
           then res_bind (ram_write N (ram_m s) (le_bytes 8 (e_wdata e)) [e_be e] 8 (align_to (e_addr e) 8)) (\<lambda>r.
                let s = s\<lparr>ram_m := r\<rparr> in if sc_resp \<noteq> 0 then print_error ShallBeScSuccess s else Inr s)
           else if sc_resp \<noteq> 1 then print_error ShallBeScFailure s else Inr s
      else Inr s)"

definition check_byte :: "core_resp \<Rightarrow> inflight_entry \<Rightarrow> nat \<Rightarrow> scoreboard \<Rightarrow> scoreboard res" where
  "check_byte resp e i s =
     (if i < 8
      then let recv = byte_at (rsp_rdata resp) i; expc = byte_at (e_rdata e) i in
           if drop_bit (i mod 8) (e_rv e) AND 1 \<noteq> 0 \<and> recv \<noteq> expc
           then print_error (WrongData (align_to (e_addr e) 8 + of_nat i) recv expc) s else Inr s
      else Inl OutOfBounds)"

definition check_bytes :: "core_resp \<Rightarrow> inflight_entry \<Rightarrow> scoreboard \<Rightarrow> scoreboard res" where
  "check_bytes resp e s =
     (let b = unat (e_addr e) mod 8 in for_res (check_byte resp e) [b..<b + unat (e_bytes e)] s)"

definition amo_update :: "nat \<Rightarrow> core_resp \<Rightarrow> inflight_entry \<Rightarrow> scoreboard \<Rightarrow> scoreboard res" where
  "amo_update N resp e s =
     (let offset = unat (e_addr e) mod 8 * 8;
          part = (\<lambda>v. if e_bytes e = 4 then ucast (ucast (drop_bit offset v) :: u32) else v)
      in res_bind (compute_amo (e_op e) (part (rsp_rdata resp)) (part (e_wdata e)) (ucast (e_bytes e))) (\<lambda>amo_res.
         res_bind (ram_write N (ram_m s) (le_bytes 8 (push_bit offset amo_res)) [e_be e] 8 (align_to (e_addr e) 8)) (\<lambda>r.
         Inr (s\<lparr>ram_m := r\<rparr>))))"

text \<open>The bytes of the word that the scoreboard has not seen written, and the lanes of the access among
  them: these take the data of the response.\<close>

definition unset_lanes :: "nat \<Rightarrow> ram_model \<Rightarrow> u64 \<Rightarrow> u8" where
  "unset_lanes N ram a =
     for_upto 8 (\<lambda>i u. u OR push_bit (i mod 8) (if getBmap N ram (unat (a + of_nat i)) then 0 else 1)) 0"

definition learn_bytes :: "nat \<Rightarrow> core_resp \<Rightarrow> inflight_entry \<Rightarrow> scoreboard \<Rightarrow> scoreboard res" where
  "learn_bytes N resp e s =
     (let a = align_to (e_addr e) 8;
          msk = ucast (push_bit (unat (e_addr e) mod 8) (2 ^ unat (e_bytes e) - 1 :: u64)) :: u8
      in res_bind (require (e_bytes e \<le> 8) OutOfBounds) (\<lambda>_.
         res_bind (ram_write N (ram_m s) (le_bytes 8 (rsp_rdata resp)) [msk AND unset_lanes N (ram_m s) a] 8 a) (\<lambda>r.
         Inr (s\<lparr>ram_m := r\<rparr>))))"

definition check_data :: "nat \<Rightarrow> core_resp \<Rightarrow> inflight_entry \<Rightarrow> scoreboard \<Rightarrow> scoreboard res" where
  "check_data N resp e s =
     (if e_is_read e \<or> e_is_amo e \<or> e_is_amo_lr e
      then res_bind (check_bytes resp e s) (if e_is_amo e then amo_update N resp e else learn_bytes N resp e)
      else Inr s)"

definition core_resp_process :: "nat \<Rightarrow> core_resp \<Rightarrow> scoreboard \<Rightarrow> scoreboard res" where
  "core_resp_process N resp s =
     (let s = s\<lparr>nb_core_resp := nb_core_resp s + 1, nb_cycles_effective := nb_cycles s\<rparr>;
          rsp_id = ucast (rsp_tid resp)
      in case map_find (inflight_m s) rsp_id of
           None \<Rightarrow> print_error (RespIdUnknown rsp_id) s
         | Some e \<Rightarrow>
             if \<not> e_is_write e \<and> rsp_error resp \<noteq> e_is_error e then print_error WrongErrorFlag s
             else
               res_bind (if e_is_error e then Inr s
                         else res_bind (check_sc N resp e s) (check_data N resp e)) (\<lambda>s.
               Inr (release_id (unat rsp_id) (s\<lparr>inflight_m := map_erase rsp_id (inflight_m s)\<rparr>))))"

section \<open>The memory side\<close>

definition mem_entry :: "'a mem_req_scheme \<Rightarrow> scoreboard \<Rightarrow> inflight_mem_entry res" where
  "mem_entry req s =
     (if 64 \<le> unat (msize req) then Inl UndefinedShift
      else case mem_resp_model s of
             None \<Rightarrow> Inl NullPointer
           | Some segs \<Rightarrow> Inr \<lparr>m_addr = maddr req, m_is_uncacheable = (\<not> cacheable req),
               m_is_error = within_error_region_of segs (maddr req) (maddr req + 2 ^ unat (msize req))\<rparr>)"

text \<open>Taking the entry of the atomic operation in flight: the result is \<open>None\<close> when there is none.\<close>

definition take_amo :: "sb_msg \<Rightarrow> scoreboard \<Rightarrow> (inflight_entry option \<times> scoreboard) res" where
  "take_amo unexpected s =
     res_bind (if 1 < length (inflight_amo_req_m s) then print_error SeveralAtomics s else Inr s) (\<lambda>s.
     case inflight_amo_req_m s of
       [] \<Rightarrow> res_bind (print_error unexpected s) (\<lambda>s. Inr (None, s))
     | e # es \<Rightarrow> Inr (Some e, s\<lparr>inflight_amo_req_m := es\<rparr>))"

definition mem_read_req_process :: "mem_req \<Rightarrow> scoreboard \<Rightarrow> scoreboard res" where
  "mem_read_req_process req s =
     (let s = s\<lparr>nb_mem_read_req := nb_mem_read_req s + 1\<rparr> in
      if map_find (inflight_mem_read_m s) (ucast (mid req)) \<noteq> None then print_error (MemReadReqIdInflight (mid req)) s
      else res_bind (mem_entry req s) (\<lambda>e.
           let s = s\<lparr>inflight_mem_read_m := map_insert (ucast (mid req)) e (inflight_mem_read_m s)\<rparr> in
           if mem_is_ldex req then res_bind (take_amo UnexpectedLdex s) (\<lambda>(_, s). Inr s) else Inr s))"

definition mem_read_resp_process :: "mem_read_resp \<Rightarrow> scoreboard \<Rightarrow> scoreboard res" where
  "mem_read_resp_process resp s =
     (let s = s\<lparr>nb_mem_read_resp := nb_mem_read_resp s + 1\<rparr> in
      if map_find (inflight_mem_read_m s) (ucast (rid resp)) = None then print_error (MemReadRespIdUnknown (rid resp)) s
      else Inr (if rlast resp
                then s\<lparr>inflight_mem_read_m := map_erase (ucast (rid resp)) (inflight_mem_read_m s)\<rparr> else s))"

definition mem_write_req_process :: "mem_write_req \<Rightarrow> scoreboard \<Rightarrow> scoreboard res" where
  "mem_write_req_process req s =
     (let s = s\<lparr>nb_mem_write_req := nb_mem_write_req s + 1\<rparr> in
      if 64 \<le> unat (msize req) then Inl UndefinedShift
      else if map_find (inflight_mem_write_m s) (ucast (mid req)) \<noteq> None then print_error (MemWriteReqIdInflight (mid req)) s
      else res_bind (mem_entry req s) (\<lambda>e.
           let s = s\<lparr>inflight_mem_write_m := map_insert (ucast (mid req)) e (inflight_mem_write_m s)\<rparr> in
           if mem_is_amo req
           then res_bind (take_amo UnexpectedAmo s) (\<lambda>(a, s).
                Inr (case a of None \<Rightarrow> s
                     | Some _ \<Rightarrow> s\<lparr>inflight_mem_read_m := map_insert (ucast (mid req)) e (inflight_mem_read_m s)\<rparr>))
           else if mem_is_stex req
           then res_bind (take_amo UnexpectedStex s) (\<lambda>(a, s).
                case a of None \<Rightarrow> Inr s
                | Some a \<Rightarrow> if e_is_atomic a then Inr s else print_error StexNoReservation s)
           else Inr s))"

definition mem_write_resp_process :: "mem_write_resp \<Rightarrow> scoreboard \<Rightarrow> scoreboard res" where
  "mem_write_resp_process resp s =
     (let s = s\<lparr>nb_mem_write_resp := nb_mem_write_resp s + 1\<rparr> in
      if map_find (inflight_mem_write_m s) (ucast (wid resp)) = None then print_error (MemWriteRespIdUnknown (wid resp)) s
      else Inr (s\<lparr>sc_is_atomic := is_atomic resp,
                  inflight_mem_write_m := map_erase (ucast (wid resp)) (inflight_mem_write_m s)\<rparr>))"

section \<open>The end of the simulation\<close>

text \<open>The checks of the destructor.\<close>

definition print_if :: "bool \<Rightarrow> sb_msg \<Rightarrow> scoreboard \<Rightarrow> scoreboard res" where
  "print_if b msg s = (if b then print_error msg s else Inr s)"

definition final_checks :: "scoreboard \<Rightarrow> scoreboard res" where
  "final_checks s =
     res_bind (print_if (nb_core_resp s \<noteq> nb_core_req_need_rsp s)
                 (ResponseCount (nb_core_resp s) (nb_core_req_need_rsp s)) s) (\<lambda>s.
     res_bind (print_if (evt_cache_write_miss (evts s) > evt_write_req (evts s))
                 (WriteMissCount (evt_cache_write_miss (evts s)) (evt_write_req (evts s))) s) (\<lambda>s.
     res_bind (print_if (evt_cache_read_miss (evts s) > evt_read_req (evts s))
                 (ReadMissCount (evt_cache_read_miss (evts s)) (evt_read_req (evts s))) s) (\<lambda>s.
     print_if (0 < length (seq_ids s)) (UnrespondedIds (seq_ids s)) s)))"

section \<open>The scoreboard's knowledge of the memory\<close>

text \<open>What the scoreboard knows of byte \<open>i\<close> of the double word of address \<open>a\<close>.\<close>

definition shadow :: "nat \<Rightarrow> ram_model \<Rightarrow> u64 \<Rightarrow> nat \<Rightarrow> u8 option" where
  "shadow N r a i =
     (let k = unat (align_to a 8) mod N + i in if written r k then Some (mem_m r ! k) else None)"

lemma align_to_8: "unat (align_to a 8) = unat a div 8 * 8"
proof -
  have "unat a div 8 * 8 < 2 ^ LENGTH(64)"
    by (rule le_less_trans [OF _ unat_less_exp [of a]]) simp
  then show ?thesis by (simp add: align_to_def unat_word_ariths unat_div)
qed

lemma dword_in_ram:
  assumes "ram_wf N r"
  shows "unat (align_to a 8) mod N + 8 \<le> N"
proof -
  obtain n where n: "N = 8 * n" "0 < n" using assms by (auto simp: ram_wf_def elim!: dvdE)
  have "unat (align_to a 8) mod N = (unat a div 8 mod n) * 8"
    unfolding align_to_8 n using mod_mult_mult1 [of 8 "unat a div 8" n] by (metis mult.commute)
  moreover have "unat a div 8 mod n < n" using n by simp
  ultimately show ?thesis unfolding n by linarith
qed

lemma enabled_single [simp]: "i < 8 \<Longrightarrow> enabled [be] i = bit be i"
  by (simp add: enabled_def)

lemma ram_write_word:
  assumes "ram_wf N r"
  shows "\<exists>r'. ram_write N r (le_bytes 8 (w :: u64)) [be] 8 (align_to a 8) = Inr r' \<and> ram_wf N r' \<and>
     (\<forall>i < 8. shadow N r' a i = (if bit be i then Some (byte_at w i) else shadow N r a i))"
proof -
  let ?off = "unat (align_to a 8) mod N"
  obtain r' where r': "ram_write N r (le_bytes 8 w) [be] 8 (align_to a 8) = Inr r'" "ram_wf N r'"
    "\<forall>k < N. mem_m r' ! k = (if ?off \<le> k \<and> k < ?off + 8 \<and> enabled [be] (k - ?off) then le_bytes 8 w ! (k - ?off) else mem_m r ! k) \<and>
              written r' k = (?off \<le> k \<and> k < ?off + 8 \<and> enabled [be] (k - ?off) \<or> written r k)"
    using ram_write_ok [OF assms refl dword_in_ram [OF assms, of a], of "le_bytes 8 w" "[be]"] by blast
  have "shadow N r' a i = (if bit be i then Some (byte_at w i) else shadow N r a i)" if "i < 8" for i
    using r'(3) [rule_format, of "?off + i"] that dword_in_ram [OF assms, of a] by (simp add: shadow_def Let_def)
  then show ?thesis using r' by blast
qed

lemma ram_read_word:
  assumes "ram_wf N r"
  shows "\<exists>bytes valid. ram_read N r 8 (align_to a 8) = Inr (bytes, valid) \<and>
     (\<forall>i < 8. shadow N r a i = (if bit (valid ! 0) i then Some (byte_at (le_word bytes :: u64) i) else None))"
proof -
  let ?off = "unat (align_to a 8) mod N" and ?bs = "map (\<lambda>i. mem_m r ! (unat (align_to a 8) mod N + i)) [0..<8]"
  obtain valid where v: "ram_read N r 8 (align_to a 8) = Inr (?bs, valid)" "length valid = 1"
    "\<forall>i < 8. enabled valid i = written r (?off + i)"
    using ram_read_ok [OF assms refl dword_in_ram [OF assms, of a]] by auto
  have "byte_at (le_word ?bs :: u64) i = mem_m r ! (?off + i)" if "i < 8" for i
    using that by (subst byte_at_le_word) simp_all
  moreover have "enabled valid i = bit (valid ! 0) i" if "i < 8" for i
    using that by (simp add: enabled_def)
  ultimately have "\<forall>i < 8. shadow N r a i = (if bit (valid ! 0) i then Some (byte_at (le_word ?bs :: u64) i) else None)"
    using v(3) by (simp add: shadow_def Let_def)
  then show ?thesis using v(1) by blast
qed

section \<open>Messages without a limit\<close>

definition logged :: "sb_msg list \<Rightarrow> scoreboard \<Rightarrow> scoreboard" where
  "logged ms s = s\<lparr>sb_log := sb_log s @ ms, nb_error := nb_error s + of_nat (length ms)\<rparr>"

lemma logged_simps [simp]:
  "logged [] s = s" "logged ms (logged ms' s) = logged (ms' @ ms) s"
  "sb_log (logged ms s) = sb_log s @ ms" "sb_error_limit_m (logged ms s) = sb_error_limit_m s"
  "ram_m (logged ms s) = ram_m s" "inflight_m (logged ms s) = inflight_m s" "seq_ids (logged ms s) = seq_ids s"
  by (simp_all add: logged_def add_ac)

lemma print_error_nolimit: "sb_error_limit_m s = 0 \<Longrightarrow> print_error m s = Inr (logged [m] s)"
  by (simp add: print_error_def logged_def Let_def)

definition wrong :: "core_resp \<Rightarrow> inflight_entry \<Rightarrow> nat \<Rightarrow> bool" where
  "wrong resp e i \<longleftrightarrow> bit (e_rv e) i \<and> byte_at (rsp_rdata resp) i \<noteq> byte_at (e_rdata e) i"

definition wrong_msg :: "core_resp \<Rightarrow> inflight_entry \<Rightarrow> nat \<Rightarrow> sb_msg" where
  "wrong_msg resp e i = WrongData (align_to (e_addr e) 8 + of_nat i) (byte_at (rsp_rdata resp) i) (byte_at (e_rdata e) i)"

lemma check_byte_ok:
  assumes "i < 8" "sb_error_limit_m s = 0"
  shows "check_byte resp e i s = Inr (logged (if wrong resp e i then [wrong_msg resp e i] else []) s)"
  using assms print_error_nolimit [OF assms(2)] drop_bit_and_one [of i "e_rv e"]
  by (simp add: check_byte_def wrong_def wrong_msg_def Let_def)

lemma check_bytes_ok:
  assumes "sb_error_limit_m s = 0" "unat (e_addr e) mod 8 + unat (e_bytes e) \<le> 8"
  shows "check_bytes resp e s =
     Inr (logged (map (wrong_msg resp e) (filter (wrong resp e) [unat (e_addr e) mod 8..<unat (e_addr e) mod 8 + unat (e_bytes e)])) s)"
proof -
  have "for_res (check_byte resp e) xs s = Inr (logged (map (wrong_msg resp e) (filter (wrong resp e) xs)) s)"
    if "\<forall>i \<in> set xs. i < 8" "sb_error_limit_m s = 0" for xs s
    using that by (induction xs arbitrary: s) (simp_all add: check_byte_ok)
  then show ?thesis using assms by (simp add: check_bytes_def Let_def)
qed

section \<open>Stores and loads\<close>

abbreviation free_id :: "core_req \<Rightarrow> scoreboard \<Rightarrow> bool" where
  "free_id req s \<equiv> map_find (inflight_m s) (ucast (req_tid req)) = None"

text \<open>An access of the core: of one to eight bytes, inside a double word, and outside the error segments.\<close>

definition plain_access :: "core_req \<Rightarrow> scoreboard \<Rightarrow> bool" where
  "plain_access req s \<longleftrightarrow> unat (req_addr req) mod 8 + 2 ^ unat (req_size req) \<le> 8 \<and>
     (case mem_resp_model s of None \<Rightarrow> True
      | Some segs \<Rightarrow> \<not> within_error_region_of segs (ucast (req_addr req)) (ucast (req_addr req) + 2 ^ unat (req_size req)))"

lemma size_byte:
  assumes "plain_access req s"
  shows "unat (2 ^ unat (req_size req) :: u8) = 2 ^ unat (req_size req)"
    "ucast (2 ^ unat (req_size req) :: u8) = (2 ^ unat (req_size req) :: u64)"
    "2 ^ unat (req_size req) \<le> (8 :: nat)"
proof -
  show le: "2 ^ unat (req_size req) \<le> (8 :: nat)" using assms unfolding plain_access_def by linarith
  have "(2 :: nat) ^ unat (req_size req) \<le> 2 ^ 3" using le by simp
  then have "unat (req_size req) \<le> 3" by (rule power_le_imp_le_exp [rotated]) simp
  then have "unat (req_size req) = 0 \<or> unat (req_size req) = 1 \<or> unat (req_size req) = 2 \<or> unat (req_size req) = 3" by auto
  then show "unat (2 ^ unat (req_size req) :: u8) = 2 ^ unat (req_size req)"
    "ucast (2 ^ unat (req_size req) :: u8) = (2 ^ unat (req_size req) :: u64)" by auto
qed

lemma unat_addr64: "unat (ucast (a :: 49 word) :: u64) = unat a"
  using unat_less_exp [of a] by (simp add: unsigned_ucast_eq take_bit_nat_eq_self)

lemma entry_no_error:
  assumes "plain_access req s"
  shows "entry_error (mem_resp_model s) req (new_entry junk req) = new_entry junk req"
  using assms size_byte(2) [OF assms]
  by (auto simp: entry_error_def plain_access_def new_entry_def Let_def split: option.splits)

lemma new_entry_fields [simp]:
  "e_addr (new_entry junk req) = ucast (req_addr req)" "\<not> e_is_error (new_entry junk req)"
  "e_bytes (new_entry junk req) = 2 ^ unat (req_size req)" "e_is_read (new_entry junk req) = is_load req"
  "e_is_write (new_entry junk req) = is_store req" "e_is_amo (new_entry junk req) = is_amo req"
  "e_is_amo_lr (new_entry junk req) = is_amo_lr req" "e_is_amo_sc (new_entry junk req) = is_amo_sc req"
  "e_op (new_entry junk req) = req_op req"
  by (simp_all add: new_entry_def Let_def)

lemma op_exclusive:
  "is_load req \<Longrightarrow> \<not> is_cmo req \<and> \<not> is_store req \<and> \<not> is_amo req \<and> \<not> is_amo_sc req \<and> \<not> is_amo_lr req"
  "is_store req \<Longrightarrow> \<not> is_cmo req \<and> \<not> is_load req \<and> \<not> is_amo req \<and> \<not> is_amo_sc req \<and> \<not> is_amo_lr req"
  "is_amo req \<Longrightarrow> \<not> is_cmo req \<and> \<not> is_load req \<and> \<not> is_store req \<and> \<not> is_amo_sc req \<and> \<not> is_amo_lr req"
  "is_amo_sc req \<Longrightarrow> \<not> is_cmo req \<and> \<not> is_load req \<and> \<not> is_store req \<and> \<not> is_amo req \<and> \<not> is_amo_lr req"
  "is_amo_lr req \<Longrightarrow> \<not> is_cmo req \<and> \<not> is_load req \<and> \<not> is_store req \<and> \<not> is_amo req \<and> \<not> is_amo_sc req"
  by (auto simp: is_load_def is_store_def is_amo_def is_amo_sc_def is_amo_lr_def is_cmo_def op_defs Let_def)

lemma counted_simps [simp]:
  "inflight_m (counted req s) = inflight_m s" "ram_m (counted req s) = ram_m s" "sb_log (counted req s) = sb_log s"
  "mem_resp_model (counted req s) = mem_resp_model s" "lrsc_buf_m (counted req s) = lrsc_buf_m s"
  "inflight_amo_req_m (counted req s) = inflight_amo_req_m s" "seq_ids (counted req s) = seq_ids s"
  "sb_error_limit_m (counted req s) = sb_error_limit_m s"
  by (simp_all add: counted_def)

lemma load_request:
  assumes "ram_wf N (ram_m s)" "is_load req" "free_id req s" "plain_access req s"
  shows "\<exists>e. core_req_process N junk req s =
       Inr ((counted req s)\<lparr>inflight_m := map_insert (ucast (req_tid req)) e (inflight_m s)\<rparr>) \<and>
     e_addr e = ucast (req_addr req) \<and> e_bytes e = 2 ^ unat (req_size req) \<and> \<not> e_is_error e \<and> e_is_read e \<and>
     \<not> e_is_amo e \<and> \<not> e_is_amo_sc e \<and> \<not> e_is_write e \<and>
     (\<forall>i < 8. shadow N (ram_m s) (e_addr e) i = (if bit (e_rv e) i then Some (byte_at (e_rdata e) i) else None))"
proof -
  obtain bytes valid where r: "ram_read N (ram_m s) 8 (align_to (ucast (req_addr req)) 8) = Inr (bytes, valid)"
    "\<forall>i < 8. shadow N (ram_m s) (ucast (req_addr req)) i =
       (if bit (valid ! 0) i then Some (byte_at (le_word bytes :: u64) i) else None)"
    using ram_read_word [OF assms(1)] by blast
  let ?e = "(new_entry junk req)\<lparr>e_rdata := le_word bytes, e_rv := valid ! 0\<rparr>"
  have "core_req_process N junk req s =
      Inr ((counted req s)\<lparr>inflight_m := map_insert (ucast (req_tid req)) ?e (inflight_m s)\<rparr>)"
    using assms(2,3) op_exclusive(1) [OF assms(2)] entry_no_error [OF assms(4)] r(1)
    by (simp add: core_req_process_def expect_data_def check_reservation_def make_reservation_def forwarded_def
        track_store_def Let_def)
  then show ?thesis using r(2) assms(2) op_exclusive(1) [OF assms(2)] by (intro exI [of _ ?e]) simp
qed

lemma store_request:
  assumes "ram_wf N (ram_m s)" "is_store req" "free_id req s" "plain_access req s"
  shows "\<exists>e b r. core_req_process N junk req s =
       Inr ((counted req s)\<lparr>lrsc_buf_m := b, ram_m := r, inflight_m := map_insert (ucast (req_tid req)) e (inflight_m s)\<rparr>) \<and>
     ram_wf N r \<and> e_is_write e \<and>
     (\<forall>i < 8. shadow N r (ucast (req_addr req)) i =
        (if bit (req_be req) i then Some (byte_at (req_wdata req) i) else shadow N (ram_m s) (ucast (req_addr req)) i))"
proof -
  let ?e = "new_entry junk req"
  obtain r where r: "ram_write N (ram_m s) (le_bytes 8 (req_wdata req)) [req_be req] 8 (align_to (ucast (req_addr req)) 8) = Inr r"
    "ram_wf N r" "\<forall>i < 8. shadow N r (ucast (req_addr req)) i =
        (if bit (req_be req) i then Some (byte_at (req_wdata req) i) else shadow N (ram_m s) (ucast (req_addr req)) i)"
    using ram_write_word [OF assms(1)] by blast
  have w: "e_wdata ?e = req_wdata req" "e_be ?e = req_be req" using assms(2) by (simp_all add: new_entry_def Let_def)
  define b where "b = snd (check_reservation req (?e, lrsc_buf_m s))"
  have b: "check_reservation req (?e, lrsc_buf_m s) = (?e, b)"
    using assms(2) op_exclusive(2) [OF assms(2)] unfolding b_def by (simp add: check_reservation_def Let_def)
  have "core_req_process N junk req s =
      Inr ((counted req s)\<lparr>lrsc_buf_m := b, ram_m := r, inflight_m := map_insert (ucast (req_tid req)) ?e (inflight_m s)\<rparr>)"
    using assms(2,3) op_exclusive(2) [OF assms(2)] entry_no_error [OF assms(4)] r(1) w b
    by (simp add: core_req_process_def expect_data_def make_reservation_def forwarded_def track_store_def Let_def)
  then show ?thesis using r(2,3) assms(2) by (intro exI [of _ ?e] exI [of _ b] exI [of _ r]) simp
qed

end
