(* ===== verification/Scoreboard_Check.thy ===== *)
theory Scoreboard_Check
  imports Scoreboard
begin

text \<open>
  What the scoreboard checks, over every interleaving of its processes: a run is a sequence of events,
  one per element that a process takes from its FIFO (or per clock edge for the performance counters).
\<close>

section \<open>Runs\<close>

datatype sb_event =
    CoreReq inflight_entry core_req
  | CoreResp core_resp
  | MemReadReq mem_req
  | MemReadResp mem_read_resp
  | MemWriteReq mem_write_req
  | MemWriteResp mem_write_resp
  | PerfEvents evt_in

fun sb_step :: "nat \<Rightarrow> sb_event \<Rightarrow> scoreboard \<Rightarrow> scoreboard res" where
  "sb_step N (CoreReq junk req) s = core_req_process N junk req s"
| "sb_step N (CoreResp resp) s = core_resp_process N resp s"
| "sb_step N (MemReadReq req) s = mem_read_req_process req s"
| "sb_step N (MemReadResp resp) s = mem_read_resp_process resp s"
| "sb_step N (MemWriteReq req) s = mem_write_req_process req s"
| "sb_step N (MemWriteResp resp) s = mem_write_resp_process resp s"
| "sb_step N (PerfEvents i) s = Inr (perf_events_process i s)"

primrec sb_run :: "nat \<Rightarrow> sb_event list \<Rightarrow> scoreboard \<Rightarrow> scoreboard res" where
  "sb_run N [] s = Inr s"
| "sb_run N (ev # evs) s = res_bind (sb_step N ev s) (sb_run N evs)"

lemma sb_run_induct:
  assumes "sb_run N evs s = Inr s'" "P s"
    "\<And>ev s s'. ev \<in> set evs \<Longrightarrow> P s \<Longrightarrow> sb_step N ev s = Inr s' \<Longrightarrow> P s'"
  shows "P s'"
  using assms by (induction evs arbitrary: s) (auto simp: res_bind_Inr_iff)

section \<open>What a step keeps\<close>

text \<open>Two states that differ only in what the memory side and the error count own.\<close>

definition core_fields :: "scoreboard \<Rightarrow> scoreboard \<Rightarrow> bool" where
  "core_fields s s' \<longleftrightarrow> inflight_m s' = inflight_m s \<and> ram_m s' = ram_m s \<and> seq_ids s' = seq_ids s \<and>
     lrsc_buf_m s' = lrsc_buf_m s \<and> mem_resp_model s' = mem_resp_model s"

text \<open>The message that an identifier is used twice has not been printed.\<close>

abbreviation clash_free :: "scoreboard \<Rightarrow> bool" where
  "clash_free s \<equiv> \<forall>k. ReqIdInflight k \<notin> set (sb_log s)"

definition core_same :: "scoreboard \<Rightarrow> scoreboard \<Rightarrow> bool" where
  "core_same s s' \<longleftrightarrow> core_fields s s' \<and> (clash_free s \<longrightarrow> clash_free s')"

lemmas same_defs = core_same_def core_fields_def

text \<open>The error count: with a limit, it is the number of messages and stays below the limit.\<close>

definition err_inv :: "scoreboard \<Rightarrow> bool" where
  "err_inv s \<longleftrightarrow> (0 < sb_error_limit_m s \<longrightarrow>
     unat (nb_error s) = length (sb_log s) \<and> length (sb_log s) < unat (sb_error_limit_m s))"

definition err_step :: "scoreboard \<Rightarrow> scoreboard \<Rightarrow> bool" where
  "err_step s s' \<longleftrightarrow> sb_error_limit_m s' = sb_error_limit_m s \<and> (err_inv s \<longrightarrow> err_inv s') \<and>
     (\<exists>ms. sb_log s' = sb_log s @ ms)"

lemma err_step_refl [simp]: "err_step s s"
  by (simp add: err_step_def)

lemma err_step_trans [trans]: "err_step s s' \<Longrightarrow> err_step s' s'' \<Longrightarrow> err_step s s''"
  unfolding err_step_def by (metis append_assoc)

lemma core_same_refl [simp]: "core_same s s"
  by (simp add: same_defs)

lemma core_same_trans [trans]: "core_same s s' \<Longrightarrow> core_same s' s'' \<Longrightarrow> core_same s s''"
  unfolding same_defs by metis

text \<open>Updates of the fields that neither relation reads.\<close>

lemma err_step_update [simp]:
  "sb_error_limit_m s' = sb_error_limit_m s \<Longrightarrow> sb_log s' = sb_log s \<Longrightarrow> nb_error s' = nb_error s \<Longrightarrow> err_step s s'"
  by (simp add: err_step_def err_inv_def)

lemma print_error_keeps:
  assumes "print_error m s = Inr s'"
  shows "core_fields s s'" "err_step s s'" "sb_log s' = sb_log s @ [m]" "inflight_amo_req_m s' = inflight_amo_req_m s"
proof -
  have s': "s' = s\<lparr>sb_log := sb_log s @ [m], nb_error := nb_error s + 1\<rparr>"
    "0 < sb_error_limit_m s \<longrightarrow> nb_error s + 1 < sb_error_limit_m s"
    using assms by (auto simp: print_error_def Let_def split: if_splits)
  have "unat (nb_error s + 1) = unat (nb_error s) + 1" if "err_inv s" "0 < sb_error_limit_m s"
  proof -
    have "unat (nb_error s) < unat (sb_error_limit_m s)" using that by (simp add: err_inv_def)
    then have "unat (nb_error s) + 1 < 2 ^ LENGTH(64)" using unat_less_exp [of "sb_error_limit_m s"] by linarith
    then show ?thesis by (simp add: unat_word_ariths)
  qed
  then have "err_inv s'" if "err_inv s" using that s' by (auto simp: err_inv_def word_less_nat_alt)
  then show "core_fields s s'" "err_step s s'" "sb_log s' = sb_log s @ [m]" "inflight_amo_req_m s' = inflight_amo_req_m s"
    using s'(1) by (simp_all add: core_fields_def err_step_def)
qed

lemma print_error_quiet: "print_error m s = Inr s' \<Longrightarrow> \<forall>k. m \<noteq> ReqIdInflight k \<Longrightarrow> core_same s s' \<and> err_step s s'"
  using print_error_keeps [of m s s'] by (auto simp: core_same_def)

lemma take_amo_keeps:
  assumes "take_amo m s = Inr (a, s')" "\<forall>k. m \<noteq> ReqIdInflight k"
  shows "core_same s s'" "err_step s s'"
proof -
  obtain t where t: "(if 1 < length (inflight_amo_req_m s) then print_error SeveralAtomics s else Inr s) = Inr t"
    "(case inflight_amo_req_m t of [] \<Rightarrow> res_bind (print_error m t) (\<lambda>s. Inr (None, s))
      | e # es \<Rightarrow> Inr (Some e, t\<lparr>inflight_amo_req_m := es\<rparr>)) = Inr (a, s')"
    using assms(1) by (auto simp: take_amo_def res_bind_Inr_iff)
  have 1: "core_same s t" "err_step s t"
    using t(1) print_error_quiet [of SeveralAtomics s t] by (auto split: if_splits)
  have 2: "core_same t s'" "err_step t s'"
    using t(2) print_error_quiet [of m t s'] assms(2) by (auto simp: res_bind_Inr_iff same_defs split: list.splits)
  show "core_same s s'" "err_step s s'" using core_same_trans [OF 1(1) 2(1)] err_step_trans [OF 1(2) 2(2)] by blast+
qed

text \<open>The memory side leaves the core side alone.\<close>

lemma same_from:
  "core_same (s\<lparr>nb_mem_read_req := n1\<rparr>) s' = core_same s s'" "err_step (s\<lparr>nb_mem_read_req := n1\<rparr>) s' = err_step s s'"
  "core_same (s\<lparr>nb_mem_read_resp := n1\<rparr>) s' = core_same s s'" "err_step (s\<lparr>nb_mem_read_resp := n1\<rparr>) s' = err_step s s'"
  "core_same (s\<lparr>nb_mem_write_req := n1\<rparr>) s' = core_same s s'" "err_step (s\<lparr>nb_mem_write_req := n1\<rparr>) s' = err_step s s'"
  "core_same (s\<lparr>nb_mem_write_resp := n1\<rparr>) s' = core_same s s'" "err_step (s\<lparr>nb_mem_write_resp := n1\<rparr>) s' = err_step s s'"
  "core_same (s\<lparr>inflight_mem_read_m := m\<rparr>) s' = core_same s s'" "err_step (s\<lparr>inflight_mem_read_m := m\<rparr>) s' = err_step s s'"
  "core_same (s\<lparr>inflight_mem_write_m := m\<rparr>) s' = core_same s s'" "err_step (s\<lparr>inflight_mem_write_m := m\<rparr>) s' = err_step s s'"
  "core_same s (s'\<lparr>nb_mem_read_req := n1\<rparr>) = core_same s s'" "core_same s (s'\<lparr>nb_mem_write_req := n1\<rparr>) = core_same s s'"
  "core_same s (s'\<lparr>inflight_mem_read_m := m\<rparr>) = core_same s s'" "err_step s (s'\<lparr>inflight_mem_read_m := m\<rparr>) = err_step s s'"
  "core_same s (s'\<lparr>inflight_mem_write_m := m\<rparr>) = core_same s s'" "err_step s (s'\<lparr>inflight_mem_write_m := m\<rparr>) = err_step s s'"
  "core_same s (s'\<lparr>sc_is_atomic := b\<rparr>) = core_same s s'" "err_step s (s'\<lparr>sc_is_atomic := b\<rparr>) = err_step s s'"
  by (simp_all add: same_defs err_step_def err_inv_def)

lemma take_amo_quiet: "take_amo m s = Inr (a, s') \<Longrightarrow> \<forall>k. m \<noteq> ReqIdInflight k \<Longrightarrow> core_same s s' \<and> err_step s s'"
  using take_amo_keeps by blast

lemma mem_read_req_keeps:
  assumes "mem_read_req_process req s = Inr s'"
  shows "core_same s s' \<and> err_step s s'"
  using assms
  by (auto simp: mem_read_req_process_def Let_def res_bind_Inr_iff same_from
      dest!: print_error_quiet take_amo_quiet split: if_splits)

lemma mem_read_resp_keeps:
  assumes "mem_read_resp_process resp s = Inr s'"
  shows "core_same s s' \<and> err_step s s'"
  using assms
  by (auto simp: mem_read_resp_process_def Let_def same_from same_defs dest!: print_error_quiet split: if_splits)

lemma mem_write_resp_keeps:
  assumes "mem_write_resp_process resp s = Inr s'"
  shows "core_same s s' \<and> err_step s s'"
  using assms
  by (auto simp: mem_write_resp_process_def Let_def same_from same_defs dest!: print_error_quiet split: if_splits)

lemma mem_write_req_keeps:
  assumes "mem_write_req_process req s = Inr s'"
  shows "core_same s s' \<and> err_step s s'"
proof -
  have stex: "core_same u s' \<and> err_step u s'"
    if run: "res_bind (take_amo UnexpectedStex u) (\<lambda>(a, s).
          case a of None \<Rightarrow> Inr s | Some a \<Rightarrow> if e_is_atomic a then Inr s else print_error StexNoReservation s) = Inr s'" for u
  proof -
    obtain a t where t: "take_amo UnexpectedStex u = Inr (a, t)"
      "(case a of None \<Rightarrow> Inr t | Some a \<Rightarrow> if e_is_atomic a then Inr t else print_error StexNoReservation t) = Inr s'"
      using run by (cases "take_amo UnexpectedStex u") auto
    have "core_same t s' \<and> err_step t s'"
      using t(2) print_error_quiet by (auto split: option.splits if_splits)
    then show ?thesis using take_amo_keeps [OF t(1)] core_same_trans err_step_trans by blast
  qed
  have amo: "core_same u s' \<and> err_step u s'"
    if "res_bind (take_amo UnexpectedAmo u) (\<lambda>(a, s). Inr (case a of None \<Rightarrow> s
          | Some _ \<Rightarrow> s\<lparr>inflight_mem_read_m := map_insert k e (inflight_mem_read_m s)\<rparr>)) = Inr s'" for u k e
    using that by (auto simp: res_bind_Inr_iff same_from dest!: take_amo_quiet split: option.splits)
  show ?thesis
  proof (cases "mem_entry req (s\<lparr>nb_mem_write_req := nb_mem_write_req s + 1\<rparr>)")
    case (Inl err)
    then show ?thesis using assms
      by (auto simp: mem_write_req_process_def Let_def same_from dest!: print_error_quiet split: if_splits)
  next
    case (Inr e)
    let ?u = "s\<lparr>nb_mem_write_req := nb_mem_write_req s + 1,
        inflight_mem_write_m := map_insert (ucast (mid req)) e (inflight_mem_write_m s)\<rparr>"
    have u: "core_same s ?u" "err_step s ?u" by (simp_all add: same_defs)
    show ?thesis using assms Inr stex [of ?u] amo [of ?u "ucast (mid req)" e] u
      by (auto simp: mem_write_req_process_def Let_def same_from dest!: print_error_quiet split: if_splits)
  qed
qed

lemma perf_events_keeps: "core_same s (perf_events_process i s) \<and> err_step s (perf_events_process i s)"
  by (simp add: perf_events_process_def Let_def same_defs)

section \<open>The outcomes of a request\<close>

lemma expect_data_ok:
  assumes "ram_wf N ram"
  shows "\<exists>d v. expect_data N req ram e = Inr (e\<lparr>e_rdata := d, e_rv := v\<rparr>)"
proof (cases "\<not> e_is_error e \<and> (is_load req \<or> is_amo_lr req \<or> is_amo req)")
  case True
  obtain bytes valid where "ram_read N ram 8 (align_to (e_addr e) 8) = Inr (bytes, valid)"
    using ram_read_word [OF assms] by blast
  then have "expect_data N req ram e = Inr (e\<lparr>e_rdata := le_word bytes, e_rv := valid ! 0\<rparr>)"
    using True by (auto simp: expect_data_def)
  then show ?thesis by blast
next
  case False
  then have "expect_data N req ram e = Inr (e\<lparr>e_rdata := e_rdata e, e_rv := e_rv e\<rparr>)" by (auto simp: expect_data_def)
  then show ?thesis by blast
qed

lemma track_store_ok:
  assumes "ram_wf N (ram_m s)"
  shows "\<exists>r. track_store N req e s = Inr (s\<lparr>ram_m := r\<rparr>) \<and> ram_wf N r"
proof (cases "is_store req \<and> \<not> e_is_error e")
  case True
  then show ?thesis using ram_write_word [OF assms, of "e_wdata e" "e_be e" "e_addr e"] by (auto simp: track_store_def)
next
  case False
  then have "track_store N req e s = Inr (s\<lparr>ram_m := ram_m s\<rparr>)" by (auto simp: track_store_def)
  then show ?thesis using assms by blast
qed

text \<open>The entry and the reservation buffer that a request leads to.\<close>

definition looked_up :: "inflight_entry \<Rightarrow> core_req \<Rightarrow> scoreboard \<Rightarrow> u64 \<Rightarrow> u8 \<Rightarrow> inflight_entry" where
  "looked_up junk req s d v = (entry_error (mem_resp_model s) req (new_entry junk req))\<lparr>e_rdata := d, e_rv := v\<rparr>"

definition resolved :: "inflight_entry \<Rightarrow> core_req \<Rightarrow> scoreboard \<Rightarrow> u64 \<Rightarrow> u8 \<Rightarrow> inflight_entry \<times> lrsc_buf" where
  "resolved junk req s d v = check_reservation req
     (looked_up junk req s d v, make_reservation req (looked_up junk req s d v) (lrsc_buf_m s))"

definition noted :: "core_req \<Rightarrow> inflight_entry \<times> lrsc_buf \<Rightarrow> ram_model \<Rightarrow> scoreboard \<Rightarrow> scoreboard" where
  "noted req = (\<lambda>(e, b) r s. (counted req s)\<lparr>lrsc_buf_m := b, ram_m := r,
     inflight_amo_req_m := (if forwarded req e then inflight_amo_req_m s @ [e] else inflight_amo_req_m s),
     inflight_m := map_insert (ucast (req_tid req)) e (inflight_m s)\<rparr>)"

lemma core_req_outcome:
  assumes "ram_wf N (ram_m s)"
  obtains
    (inflight) "\<not> free_id req s"
      "core_req_process N junk req s = print_error (ReqIdInflight (ucast (req_tid req))) (counted req s)"
  | (no_response) "free_id req s" "is_cmo req" "\<not> req_need_rsp req"
      "core_req_process N junk req s = Inr (release_id (unat (req_tid req)) (counted req s))"
  | (full) e b d v where "free_id req s" "resolved junk req s d v = (e, b)" "forwarded req e"
      "AMO_FIFO_SIZE \<le> length (inflight_amo_req_m s)"
      "core_req_process N junk req s = print_error AmoFifoFull ((counted req s)\<lparr>lrsc_buf_m := b\<rparr>)"
  | (accepted) d v r where "free_id req s" "ram_wf N r" "\<not> (is_cmo req \<and> \<not> req_need_rsp req)"
      "core_req_process N junk req s = Inr (noted req (resolved junk req s d v) r s)"
proof -
  have tid: "unat (ucast (req_tid req) :: u32) = unat (req_tid req)"
    by (simp add: unsigned_ucast_eq take_bit_nat_eq_self less_le_trans [OF unat_less_exp])
  obtain d v where dv: "expect_data N req (ram_m s) (entry_error (mem_resp_model s) req (new_entry junk req)) =
      Inr (looked_up junk req s d v)"
    using expect_data_ok [OF assms] unfolding looked_up_def by blast
  obtain e b where eb: "resolved junk req s d v = (e, b)" by (cases "resolved junk req s d v")
  consider (a) "\<not> free_id req s" | (b) "free_id req s" "is_cmo req" "\<not> req_need_rsp req"
    | (c) "free_id req s" "\<not> (is_cmo req \<and> \<not> req_need_rsp req)" "forwarded req e" "AMO_FIFO_SIZE \<le> length (inflight_amo_req_m s)"
    | (d) "free_id req s" "\<not> (is_cmo req \<and> \<not> req_need_rsp req)"
        "\<not> (forwarded req e \<and> AMO_FIFO_SIZE \<le> length (inflight_amo_req_m s))"
    by blast
  then show thesis
  proof cases
    case a then show ?thesis using inflight by (simp add: core_req_process_def Let_def)
  next
    case b then show ?thesis using no_response tid by (simp add: core_req_process_def Let_def)
  next
    case c
    then have "core_req_process N junk req s = print_error AmoFifoFull ((counted req s)\<lparr>lrsc_buf_m := b\<rparr>)"
      using dv eb by (auto simp: core_req_process_def Let_def resolved_def)
    then show ?thesis using full c eb by blast
  next
    case d
    let ?t = "(counted req s)\<lparr>lrsc_buf_m := b\<rparr>"
    let ?s = "if forwarded req e then ?t\<lparr>inflight_amo_req_m := inflight_amo_req_m s @ [e]\<rparr> else ?t"
    have same: "t\<lparr>ram_m := r, inflight_amo_req_m := inflight_amo_req_m s, inflight_m := m\<rparr> = t\<lparr>ram_m := r, inflight_m := m\<rparr>"
      if "inflight_amo_req_m t = inflight_amo_req_m s" for t r m
      using that by (intro scoreboard.equality) simp_all
    obtain r where r: "track_store N req e ?s = Inr (?s\<lparr>ram_m := r\<rparr>)" "ram_wf N r"
      using track_store_ok [of N ?s req e] assms by (cases "forwarded req e") auto
    have "core_req_process N junk req s = Inr (noted req (e, b) r s)"
      using d dv eb r(1) by (cases "forwarded req e") (auto simp: core_req_process_def Let_def resolved_def noted_def same)
    then show ?thesis using accepted d r(2) eb by metis
  qed
qed

section \<open>The outcomes of a response\<close>

text \<open>The checks of a response change the shadow memory and the error count only.\<close>

definition checked :: "nat \<Rightarrow> scoreboard \<Rightarrow> scoreboard \<Rightarrow> bool" where
  "checked N s s' \<longleftrightarrow> inflight_m s' = inflight_m s \<and> seq_ids s' = seq_ids s \<and> lrsc_buf_m s' = lrsc_buf_m s \<and>
     mem_resp_model s' = mem_resp_model s \<and> (ram_wf N (ram_m s) \<longrightarrow> ram_wf N (ram_m s')) \<and> err_step s s' \<and>
     (clash_free s \<longrightarrow> clash_free s')"

lemma checked_refl [simp]: "checked N s s"
  by (simp add: checked_def)

lemma checked_trans: "checked N s s' \<Longrightarrow> checked N s' s'' \<Longrightarrow> checked N s s''"
  unfolding checked_def using err_step_trans by metis

lemma print_error_checked: "print_error m s = Inr s' \<Longrightarrow> \<forall>k. m \<noteq> ReqIdInflight k \<Longrightarrow> checked N s s'"
  using print_error_keeps [of m s s'] by (auto simp: checked_def core_fields_def)

lemma ram_update_checked:
  assumes "ram_write N (ram_m s) (le_bytes 8 (w :: u64)) [be] 8 (align_to a 8) = Inr r"
  shows "checked N s (s\<lparr>ram_m := r\<rparr>)"
  using assms ram_write_word [of N "ram_m s" w be a] by (auto simp: checked_def)

lemma check_sc_checked: "check_sc N resp e s = Inr s' \<Longrightarrow> checked N s s'"
  by (auto simp: check_sc_def Let_def res_bind_Inr_iff split: if_splits
      intro: print_error_checked checked_trans [OF ram_update_checked print_error_checked] ram_update_checked)

lemma check_bytes_checked: "check_bytes resp e s = Inr s' \<Longrightarrow> checked N s s'"
proof -
  have "for_res (check_byte resp e) xs s = Inr s' \<Longrightarrow> checked N s s'" for xs
  proof (induction xs arbitrary: s)
    case (Cons i xs)
    then obtain t where t: "check_byte resp e i s = Inr t" "for_res (check_byte resp e) xs t = Inr s'"
      by (auto simp: res_bind_Inr_iff)
    then have "checked N s t" by (auto simp: check_byte_def Let_def split: if_splits intro: print_error_checked)
    then show ?case using Cons.IH [OF t(2)] checked_trans by blast
  qed simp
  then show "check_bytes resp e s = Inr s' \<Longrightarrow> checked N s s'" by (auto simp: check_bytes_def Let_def)
qed

lemma amo_update_checked: "amo_update N resp e s = Inr s' \<Longrightarrow> checked N s s'"
  by (auto simp: amo_update_def Let_def res_bind_Inr_iff intro: ram_update_checked)

lemma learn_bytes_checked: "learn_bytes N resp e s = Inr s' \<Longrightarrow> checked N s s'"
  by (auto simp: learn_bytes_def Let_def res_bind_Inr_iff intro: ram_update_checked)

lemma check_data_checked: "check_data N resp e s = Inr s' \<Longrightarrow> checked N s s'"
  by (auto simp: check_data_def res_bind_Inr_iff split: if_splits
      intro: checked_trans [OF check_bytes_checked amo_update_checked] checked_trans [OF check_bytes_checked learn_bytes_checked])

lemma unat_rsp_tid [simp]: "unat (ucast (t :: 6 word) :: u32) = unat t"
  by (simp add: unsigned_ucast_eq take_bit_nat_eq_self less_le_trans [OF unat_less_exp])

lemma core_resp_outcome:
  assumes "core_resp_process N resp s = Inr s'"
  obtains
    (rejected) "checked N s s'"
  | (answered) t e where "map_find (inflight_m s) (ucast (rsp_tid resp)) = Some e" "checked N s t"
      "s' = release_id (unat (rsp_tid resp)) (t\<lparr>inflight_m := map_erase (ucast (rsp_tid resp)) (inflight_m t)\<rparr>)"
proof -
  let ?s = "s\<lparr>nb_core_resp := nb_core_resp s + 1, nb_cycles_effective := nb_cycles s\<rparr>"
  have s: "checked N s ?s" by (simp add: checked_def)
  show thesis
  proof (cases "map_find (inflight_m s) (ucast (rsp_tid resp))")
    case None
    then show ?thesis using assms rejected checked_trans [OF s print_error_checked] by (auto simp: core_resp_process_def Let_def)
  next
    case (Some e)
    show ?thesis
    proof (cases "\<not> e_is_write e \<and> rsp_error resp \<noteq> e_is_error e")
      case True
      then have "print_error WrongErrorFlag ?s = Inr s'" using assms Some by (simp add: core_resp_process_def Let_def)
      then show ?thesis using rejected checked_trans [OF s print_error_checked] by blast
    next
      case False
      then obtain t where t: "(if e_is_error e then Inr ?s else res_bind (check_sc N resp e ?s) (check_data N resp e)) = Inr t"
        "s' = release_id (unat (rsp_tid resp)) (t\<lparr>inflight_m := map_erase (ucast (rsp_tid resp)) (inflight_m t)\<rparr>)"
        using assms Some by (auto simp: core_resp_process_def Let_def res_bind_Inr_iff)
      have "checked N ?s t"
        using t(1) checked_trans [OF check_sc_checked check_data_checked] by (auto simp: res_bind_Inr_iff split: if_splits)
      then show ?thesis using answered [OF Some checked_trans [OF s] t(2)] by blast
    qed
  qed
qed

section \<open>What every step keeps\<close>

definition kept :: "u32 \<Rightarrow> scoreboard \<Rightarrow> scoreboard \<Rightarrow> bool" where
  "kept k s s' \<longleftrightarrow> (\<forall>e. map_find (inflight_m s) k = Some e \<longrightarrow> map_find (inflight_m s') k = Some e)"

abbreviation answers :: "u32 \<Rightarrow> sb_event \<Rightarrow> bool" where
  "answers k ev \<equiv> \<exists>resp. ev = CoreResp resp \<and> ucast (rsp_tid resp) = k"

lemma counted_err [simp]: "err_step s (counted req s)"
  by (simp add: counted_def)

lemma counted_err_lr [simp]: "err_step s ((counted req s)\<lparr>lrsc_buf_m := b\<rparr>)"
  by (simp add: counted_def)

lemma core_req_keeps:
  assumes "ram_wf N (ram_m s)" "core_req_process N junk req s = Inr s'"
  shows "ram_wf N (ram_m s') \<and> err_step s s' \<and> kept k s s'"
proof (rule core_req_outcome [OF assms(1), of req junk])
  assume "core_req_process N junk req s = print_error (ReqIdInflight (ucast (req_tid req))) (counted req s)"
  then have "print_error (ReqIdInflight (ucast (req_tid req))) (counted req s) = Inr s'" using assms(2) by simp
  from print_error_keeps [OF this] show ?thesis
    using assms(1) err_step_trans [OF counted_err] by (auto simp: core_fields_def kept_def)
next
  assume "core_req_process N junk req s = Inr (release_id (unat (req_tid req)) (counted req s))"
  then show ?thesis using assms by (auto simp: release_id_def counted_def kept_def)
next
  fix b assume "core_req_process N junk req s = print_error AmoFifoFull ((counted req s)\<lparr>lrsc_buf_m := b\<rparr>)"
  then have "print_error AmoFifoFull ((counted req s)\<lparr>lrsc_buf_m := b\<rparr>) = Inr s'" using assms(2) by simp
  from print_error_keeps [OF this] show ?thesis
    using assms(1) err_step_trans [OF counted_err_lr] by (auto simp: core_fields_def kept_def)
next
  fix d v r assume "ram_wf N r" "core_req_process N junk req s = Inr (noted req (resolved junk req s d v) r s)"
  then show ?thesis using assms
    by (cases "resolved junk req s d v") (auto simp: noted_def counted_def kept_def map_find_insert)
qed

lemma core_resp_keeps:
  assumes "ram_wf N (ram_m s)" "core_resp_process N resp s = Inr s'"
  shows "ram_wf N (ram_m s') \<and> err_step s s' \<and> (ucast (rsp_tid resp) \<noteq> k \<longrightarrow> kept k s s')"
  using assms(2)
proof (cases rule: core_resp_outcome)
  case rejected
  then show ?thesis using assms(1) by (auto simp: checked_def kept_def)
next
  case (answered t e)
  have "err_step t s'" by (simp add: answered(3) release_id_def)
  then show ?thesis using assms(1) answered err_step_trans
    by (auto simp: checked_def kept_def release_id_def)
qed

lemma sb_step_keeps:
  assumes "ram_wf N (ram_m s)" "sb_step N ev s = Inr s'"
  shows "ram_wf N (ram_m s') \<and> err_step s s' \<and> (\<not> answers k ev \<longrightarrow> kept k s s')"
proof -
  have quiet: "core_same s s' \<and> err_step s s' \<Longrightarrow> ?thesis" using assms(1) by (auto simp: same_defs kept_def)
  show ?thesis
  proof (cases ev)
    case (CoreReq junk req) then show ?thesis using assms core_req_keeps by auto
  next
    case (CoreResp resp) then show ?thesis using assms core_resp_keeps [of N s resp s' k] by auto
  next
    case (MemReadReq x) then show ?thesis using assms(2) mem_read_req_keeps quiet by simp
  next
    case (MemReadResp x) then show ?thesis using assms(2) mem_read_resp_keeps quiet by simp
  next
    case (MemWriteReq x) then show ?thesis using assms(2) mem_write_req_keeps quiet by simp
  next
    case (MemWriteResp x) then show ?thesis using assms(2) mem_write_resp_keeps quiet by simp
  next
    case (PerfEvents i) then show ?thesis using assms(2) perf_events_keeps [of s i] quiet by simp
  qed
qed

lemma sb_run_keeps:
  assumes "ram_wf N (ram_m s)" "sb_run N evs s = Inr s'"
  shows "ram_wf N (ram_m s')" "err_step s s'" "\<forall>ev \<in> set evs. \<not> answers k ev \<Longrightarrow> kept k s s'"
proof -
  have "ram_wf N (ram_m s') \<and> err_step s s'"
  proof (rule sb_run_induct [OF assms(2)])
    fix ev t t' assume a: "ram_wf N (ram_m t) \<and> err_step s t" "sb_step N ev t = Inr t'"
    then show "ram_wf N (ram_m t') \<and> err_step s t'" using sb_step_keeps [of N t ev t' 0] err_step_trans [of s t t'] by simp
  qed (use assms(1) in simp)
  then show "ram_wf N (ram_m s')" "err_step s s'" by blast+
  assume q: "\<forall>ev \<in> set evs. \<not> answers k ev"
  have "ram_wf N (ram_m s') \<and> kept k s s'"
  proof (rule sb_run_induct [OF assms(2)])
    fix ev t t' assume a: "ev \<in> set evs" "ram_wf N (ram_m t) \<and> kept k s t" "sb_step N ev t = Inr t'"
    then have "ram_wf N (ram_m t') \<and> kept k t t'" using sb_step_keeps q by blast
    then show "ram_wf N (ram_m t') \<and> kept k s t'" using a(2) by (auto simp: kept_def)
  qed (use assms(1) in \<open>simp add: kept_def\<close>)
  then show "kept k s s'" by blast
qed

section \<open>The error limit\<close>

definition make_lr :: "u64 \<Rightarrow> lrsc_buf" where
  "make_lr a = \<lparr>lr_valid = False, lr_base = a, lr_end = a, lr_is_atomic = False\<rparr>"

lemma ram_new_wf: "0 < N \<Longrightarrow> 8 dvd N \<Longrightarrow> ram_wf N (ram_new N junk)"
  by (simp add: ram_wf_def ram_new_def)



section \<open>Responses to loads\<close>

definition junk_entry :: inflight_entry where
  "junk_entry = \<lparr>e_addr = 0, e_hit = True, e_is_read = True, e_is_write = True, e_is_amo = True, e_is_amo_sc = True,
     e_is_amo_lr = True, e_is_atomic = True, e_is_error = True, e_op = 0, e_is_uncacheable = True, e_bytes = 0,
     e_wdata = 0, e_be = 0, e_rdata = 0, e_rv = 0\<rparr>"

text \<open>A scoreboard whose memory of eight bytes knows the first byte, with value 7.\<close>

definition sb_example :: scoreboard where
  "sb_example = scoreboard_new (make_lr 0) \<lparr>mem_m = [7, 0, 0, 0, 0, 0, 0, 0], bmap_m = [1]\<rparr>"

lemma unset_lanes_bit:
  assumes "ram_wf N r" "i < 8"
  shows "bit (unset_lanes N r (align_to a 8)) i \<longleftrightarrow> shadow N r a i = None"
proof -
  have wr: "getBmap N r (unat (align_to a 8 + of_nat j)) = (shadow N r a j \<noteq> None)" if j: "j < 8" for j
  proof -
    let ?b = "unat (align_to a 8)"
    have "?b + 8 \<le> 2 ^ LENGTH(64)" using unat_less_exp [of a] unfolding align_to_8 by simp
    then have "unat (align_to a 8 + of_nat j) = ?b + j" using j by (simp add: unat_word_ariths unat_of_nat)
    moreover have "?b mod N + j < N" using dword_in_ram [OF assms(1), of a] j by simp
    then have "(?b + j) mod N = ?b mod N + j" by (metis mod_add_left_eq mod_less)
    moreover have "getBmap N r (?b + j) = getBmap N r ((?b + j) mod N)" by (simp add: getBmap_def)
    ultimately show ?thesis using \<open>?b mod N + j < N\<close> by (simp add: getBmap_written shadow_def Let_def)
  qed
  have "bit (for_upto n (\<lambda>i u. u OR push_bit (i mod 8) (if getBmap N r (unat (align_to a 8 + of_nat i)) then 0 else 1)) 0 :: u8) k
      \<longleftrightarrow> k < n \<and> shadow N r a k = None" if "n \<le> 8" "k < 8" for n k
    using that by (induction n) (auto simp: bit_or_iff bit_push_bit_iff bit_1_iff wr less_Suc_eq)
  then show ?thesis using assms(2) by (simp add: unset_lanes_def)
qed

definition lanes :: "inflight_entry \<Rightarrow> nat list" where
  "lanes e = (let b = unat (e_addr e) mod 8 in [b..<b + unat (e_bytes e)])"

lemma learn_bytes_ok:
  assumes "ram_wf N (ram_m s)" "unat (e_addr e) mod 8 + unat (e_bytes e) \<le> 8"
  shows "\<exists>r. learn_bytes N resp e s = Inr (s\<lparr>ram_m := r\<rparr>) \<and> ram_wf N r \<and>
     (\<forall>i < 8. shadow N r (e_addr e) i =
        (if i \<in> set (lanes e) \<and> shadow N (ram_m s) (e_addr e) i = None then Some (byte_at (rsp_rdata resp) i)
         else shadow N (ram_m s) (e_addr e) i))"
proof -
  let ?b = "unat (e_addr e) mod 8" and ?n = "unat (e_bytes e)"
  let ?m = "ucast (push_bit ?b (2 ^ ?n - 1 :: u64)) :: u8"
  have m: "bit ?m i \<longleftrightarrow> i \<in> set (lanes e)" if "i < 8" for i
    using that assms(2) by (auto simp: lanes_def Let_def bit_simps simp flip: mask_eq_exp_minus_1)
  have n: "e_bytes e \<le> 8" using assms(2) by (simp add: word_le_nat_alt)
  obtain r where r: "ram_write N (ram_m s) (le_bytes 8 (rsp_rdata resp)) [?m AND unset_lanes N (ram_m s) (align_to (e_addr e) 8)]
       8 (align_to (e_addr e) 8) = Inr r" "ram_wf N r"
    "\<forall>i < 8. shadow N r (e_addr e) i = (if bit (?m AND unset_lanes N (ram_m s) (align_to (e_addr e) 8)) i
       then Some (byte_at (rsp_rdata resp) i) else shadow N (ram_m s) (e_addr e) i)"
    using ram_write_word [OF assms(1)] by blast
  have "learn_bytes N resp e s = Inr (s\<lparr>ram_m := r\<rparr>)" using r(1) n by (simp add: learn_bytes_def Let_def require_def)
  moreover have "shadow N r (e_addr e) i = (if i \<in> set (lanes e) \<and> shadow N (ram_m s) (e_addr e) i = None
       then Some (byte_at (rsp_rdata resp) i) else shadow N (ram_m s) (e_addr e) i)" if "i < 8" for i
    unfolding r(3) [rule_format, OF that] bit_and_iff m [OF that] unset_lanes_bit [OF assms(1) that] by simp
  ultimately show ?thesis using r(2) by blast
qed

text \<open>The messages for the bytes in \<open>is\<close> that are known and differ from the data.\<close>

definition mismatches :: "(nat \<Rightarrow> u8 option) \<Rightarrow> u64 \<Rightarrow> u64 \<Rightarrow> nat list \<Rightarrow> sb_msg list" where
  "mismatches kn a data is = concat (map (\<lambda>i. case kn i of
     Some b \<Rightarrow> if byte_at data i = b then [] else [WrongData (align_to a 8 + of_nat i) (byte_at data i) b]
   | None \<Rightarrow> []) is)"

lemma wrong_mismatches:
  assumes "\<forall>i \<in> set xs. i < 8" "\<forall>i < 8. kn i = (if bit (e_rv e) i then Some (byte_at (e_rdata e) i) else None)"
  shows "map (wrong_msg resp e) (filter (wrong resp e) xs) = mismatches kn (e_addr e) (rsp_rdata resp) xs"
  using assms by (induction xs) (auto simp: mismatches_def wrong_def wrong_msg_def)

lemma load_response:
  assumes "ram_wf N (ram_m s)" "sb_error_limit_m s = 0" "map_find (inflight_m s) (ucast (rsp_tid resp)) = Some e"
    "e_is_read e" "\<not> e_is_error e" "\<not> e_is_amo e" "\<not> e_is_amo_sc e" "\<not> e_is_write e" "\<not> rsp_error resp"
    "unat (e_addr e) mod 8 + unat (e_bytes e) \<le> 8"
    "\<forall>i < 8. kn i = (if bit (e_rv e) i then Some (byte_at (e_rdata e) i) else None)"
  shows "\<exists>s'. core_resp_process N resp s = Inr s' \<and>
     sb_log s' = sb_log s @ mismatches kn (e_addr e) (rsp_rdata resp) (lanes e) \<and>
     inflight_m s' = map_erase (ucast (rsp_tid resp)) (inflight_m s) \<and>
     seq_ids s' = snd (deallocate_id (unat (rsp_tid resp)) (seq_ids s)) \<and>
     (\<forall>i < 8. shadow N (ram_m s') (e_addr e) i =
        (if i \<in> set (lanes e) \<and> shadow N (ram_m s) (e_addr e) i = None then Some (byte_at (rsp_rdata resp) i)
         else shadow N (ram_m s) (e_addr e) i))"
proof -
  let ?s = "s\<lparr>nb_core_resp := nb_core_resp s + 1, nb_cycles_effective := nb_cycles s\<rparr>"
  let ?ms = "map (wrong_msg resp e) (filter (wrong resp e) (lanes e))"
  have bytes: "check_bytes resp e ?s = Inr (logged ?ms ?s)"
    using check_bytes_ok [of ?s e resp] assms(2,10) by (simp add: lanes_def Let_def)
  have "\<forall>i \<in> set (lanes e). i < 8" using assms(10) by (auto simp: lanes_def Let_def)
  then have ms: "?ms = mismatches kn (e_addr e) (rsp_rdata resp) (lanes e)"
    by (rule wrong_mismatches) (use assms(11) in simp)
  obtain r where r: "learn_bytes N resp e (logged ?ms ?s) = Inr ((logged ?ms ?s)\<lparr>ram_m := r\<rparr>)" "ram_wf N r"
    "\<forall>i < 8. shadow N r (e_addr e) i = (if i \<in> set (lanes e) \<and> shadow N (ram_m s) (e_addr e) i = None
        then Some (byte_at (rsp_rdata resp) i) else shadow N (ram_m s) (e_addr e) i)"
    using learn_bytes_ok [of N "logged ?ms ?s" e resp] assms(1,10) by auto
  have "core_resp_process N resp s = Inr (release_id (unat (rsp_tid resp))
      ((logged ?ms ?s)\<lparr>ram_m := r, inflight_m := map_erase (ucast (rsp_tid resp)) (inflight_m s)\<rparr>))"
    using assms(3-9) bytes r(1) by (simp add: core_resp_process_def check_sc_def check_data_def Let_def)
  then show ?thesis using r(3) ms by (simp add: release_id_def)
qed

text \<open>C9: the response to a load is checked against the bytes known when the load was issued. Whatever
  the processes do between the request and the response, the response adds to the log exactly one
  message for each byte of the access that was known to have another value, in address order; it frees the identifier;
  and the bytes of the access that were unknown are now known to be those of the response.\<close>

theorem load_checked:
  assumes "ram_wf N (ram_m s)" "sb_error_limit_m s = 0" "is_load req" "free_id req s" "plain_access req s"
    and run: "sb_run N (CoreReq junk req # evs) s = Inr s'" "\<forall>ev \<in> set evs. \<not> answers (ucast (req_tid req)) ev"
    and resp: "rsp_tid resp = req_tid req" "\<not> rsp_error resp"
  shows "\<exists>s''. core_resp_process N resp s' = Inr s'' \<and> free_id req s'' \<and>
     seq_ids s'' = snd (deallocate_id (unat (req_tid req)) (seq_ids s')) \<and>
     (let a = ucast (req_addr req); b = unat (req_addr req) mod 8; is = [b..<b + 2 ^ unat (req_size req)] in
      sb_log s'' = sb_log s' @ mismatches (shadow N (ram_m s) a) a (rsp_rdata resp) is \<and>
      (\<forall>i < 8. shadow N (ram_m s'') a i =
         (if i \<in> set is \<and> shadow N (ram_m s') a i = None then Some (byte_at (rsp_rdata resp) i)
          else shadow N (ram_m s') a i)))"
proof -
  obtain e where e: "core_req_process N junk req s =
      Inr ((counted req s)\<lparr>inflight_m := map_insert (ucast (req_tid req)) e (inflight_m s)\<rparr>)"
    "e_addr e = ucast (req_addr req)" "e_bytes e = 2 ^ unat (req_size req)" "\<not> e_is_error e" "e_is_read e"
    "\<not> e_is_amo e" "\<not> e_is_amo_sc e" "\<not> e_is_write e"
    "\<forall>i < 8. shadow N (ram_m s) (e_addr e) i = (if bit (e_rv e) i then Some (byte_at (e_rdata e) i) else None)"
    using load_request [OF assms(1,3,4,5)] by blast
  let ?s = "(counted req s)\<lparr>inflight_m := map_insert (ucast (req_tid req)) e (inflight_m s)\<rparr>"
  have evs: "sb_run N evs ?s = Inr s'" using run(1) e(1) by simp
  have "ram_wf N (ram_m ?s)" using assms(1) by simp
  from sb_run_keeps [OF this evs] have s': "ram_wf N (ram_m s')" "err_step ?s s'" "kept (ucast (req_tid req)) ?s s'"
    using run(2) by blast+
  have found: "map_find (inflight_m s') (ucast (rsp_tid resp)) = Some e"
    using s'(3) assms(4) resp(1) by (simp add: kept_def map_find_insert)
  have lim: "sb_error_limit_m s' = 0" using s'(2) assms(2) by (simp add: err_step_def)
  have ln: "lanes e = [unat (req_addr req) mod 8..<unat (req_addr req) mod 8 + 2 ^ unat (req_size req)]"
    using size_byte(1) [OF assms(5)] by (simp add: lanes_def Let_def e(2,3) unat_addr64)
  have "unat (e_addr e) mod 8 + unat (e_bytes e) \<le> 8"
    using assms(5) size_byte(1) [OF assms(5)] by (simp add: e(2,3) unat_addr64 plain_access_def)
  from load_response [OF s'(1) lim found e(5,4,6,7,8) resp(2) this e(9)] show ?thesis
    unfolding ln e(2) resp(1) Let_def by auto
qed

theorem load_checked_witness:
  "\<exists>s' s''. sb_run 8 [CoreReq junk_entry new_core_req] sb_example = Inr s' \<and>
     core_resp_process 8 new_core_resp s' = Inr s'' \<and> sb_log s'' = [WrongData 0 0 7]"
proof -
  have wf: "ram_wf 8 (ram_m sb_example)" "sb_error_limit_m sb_example = 0" "free_id new_core_req sb_example"
    "sb_log sb_example = []" "mem_resp_model sb_example = None"
    by (simp_all add: sb_example_def scoreboard_new_def ram_wf_def)
  have ld: "is_load new_core_req" "plain_access new_core_req sb_example"
    using wf(5) by (simp_all add: is_load_def new_core_req_def op_defs plain_access_def)
  obtain s' where s': "sb_run 8 [CoreReq junk_entry new_core_req] sb_example = Inr s'" "sb_log s' = []"
    using load_request [OF wf(1) ld(1) wf(3) ld(2), of junk_entry] wf(4) by auto
  have "shadow 8 (ram_m sb_example) 0 0 = Some 7"
    by (simp add: shadow_def sb_example_def scoreboard_new_def written_def align_to_def)
  then show ?thesis
    using load_checked [OF wf(1,2) ld(1) wf(3) ld(2) s'(1), of new_core_resp] s'
    by (auto simp: new_core_req_def new_core_resp_def mismatches_def align_to_def byte_at_def Let_def)
qed

section \<open>The reservation\<close>

text \<open>The abstract reservation: at most one double word. A load-reserved sets it, a store-conditional
  clears it, a store or an atomic operation clears it if it is to the same double word.\<close>

definition lr_abs :: "lrsc_buf \<Rightarrow> u64 option" where
  "lr_abs b = (if lr_valid b then Some (drop_bit 3 (lr_base b)) else None)"

definition dword :: "core_req \<Rightarrow> u64" where
  "dword req = drop_bit 3 (ucast (req_addr req))"

definition in_error :: "segment list option \<Rightarrow> core_req \<Rightarrow> bool" where
  "in_error model req \<longleftrightarrow> (case model of None \<Rightarrow> False
     | Some segs \<Rightarrow> within_error_region_of segs (ucast (req_addr req)) (ucast (req_addr req) + ucast (2 ^ unat (req_size req) :: u8)))"

definition lr_spec :: "segment list option \<Rightarrow> core_req \<Rightarrow> u64 option \<Rightarrow> u64 option" where
  "lr_spec model req R =
     (if is_amo_lr req then if in_error model req then None else Some (dword req)
      else if is_amo_sc req then None
      else if (is_store req \<or> is_amo req) \<and> R = Some (dword req) then None
      else R)"

lemma entry_error_fields:
  "e_addr (entry_error m req e) = e_addr e"
  "\<not> is_cmo req \<Longrightarrow> e_is_error (entry_error m req (new_entry junk req)) = in_error m req"
  by (auto simp: entry_error_def in_error_def Let_def split: option.splits)

lemma resolved_lr:
  assumes "resolved junk req s d v = (e, b)"
  shows "lr_abs b = lr_spec (mem_resp_model s) req (lr_abs (lrsc_buf_m s))"
    "is_amo_sc req \<Longrightarrow> e_is_atomic e \<longleftrightarrow> lr_abs (lrsc_buf_m s) = Some (dword req)"
    "is_amo_sc req \<Longrightarrow> e_is_error e \<longleftrightarrow> in_error (mem_resp_model s) req \<and> lr_abs (lrsc_buf_m s) = Some (dword req)"
proof -
  have f: "e_addr (looked_up junk req s d v) = ucast (req_addr req)"
    "\<not> is_cmo req \<Longrightarrow> e_is_error (looked_up junk req s d v) = in_error (mem_resp_model s) req"
    by (simp_all add: looked_up_def entry_error_fields)
  consider "is_amo_lr req" | "is_amo_sc req" | "is_store req \<or> is_amo req"
    | "\<not> is_amo_lr req" "\<not> is_amo_sc req" "\<not> is_store req" "\<not> is_amo req" by blast
  then show "lr_abs b = lr_spec (mem_resp_model s) req (lr_abs (lrsc_buf_m s))"
  proof cases
    case 1
    then show ?thesis using assms f op_exclusive(5) [of req]
      by (auto simp: resolved_def check_reservation_def make_reservation_def lr_spec_def lr_abs_def dword_def)
  next
    case 2
    then show ?thesis using assms f op_exclusive(4) [of req]
      by (auto simp: resolved_def check_reservation_def make_reservation_def lr_spec_def lr_abs_def dword_def Let_def)
  next
    case 3
    then have "\<not> is_amo_lr req" "\<not> is_amo_sc req" using op_exclusive(2,3) by blast+
    then show ?thesis using 3 assms f
      by (auto simp: resolved_def check_reservation_def make_reservation_def lr_spec_def lr_abs_def dword_def Let_def split: if_splits)
  next
    case 4
    then show ?thesis using assms by (auto simp: resolved_def check_reservation_def make_reservation_def lr_spec_def)
  qed
  assume sc: "is_amo_sc req"
  show "e_is_atomic e \<longleftrightarrow> lr_abs (lrsc_buf_m s) = Some (dword req)"
    "e_is_error e \<longleftrightarrow> in_error (mem_resp_model s) req \<and> lr_abs (lrsc_buf_m s) = Some (dword req)"
    using assms f sc op_exclusive(4) [OF sc]
    by (auto simp: resolved_def check_reservation_def make_reservation_def lr_abs_def dword_def Let_def)
qed

lemma cmo_no_lr: "is_cmo req \<Longrightarrow> lr_spec m req R = R"
  using op_exclusive(2-5) [of req] unfolding lr_spec_def by metis

lemma core_req_lr:
  assumes "ram_wf N (ram_m s)" "core_req_process N junk req s = Inr s'" "free_id req s"
  shows "lr_abs (lrsc_buf_m s') = lr_spec (mem_resp_model s) req (lr_abs (lrsc_buf_m s)) \<and> mem_resp_model s' = mem_resp_model s"
proof (rule core_req_outcome [OF assms(1), of req junk])
  assume "is_cmo req" "core_req_process N junk req s = Inr (release_id (unat (req_tid req)) (counted req s))"
  then show ?thesis using assms(2) cmo_no_lr by (auto simp: release_id_def counted_def)
next
  fix e b d v
  assume r: "resolved junk req s d v = (e, b)"
    and p: "core_req_process N junk req s = print_error AmoFifoFull ((counted req s)\<lparr>lrsc_buf_m := b\<rparr>)"
  have "core_fields ((counted req s)\<lparr>lrsc_buf_m := b\<rparr>) s'" using p assms(2) print_error_keeps(1) by metis
  then show ?thesis using resolved_lr(1) [OF r] by (auto simp: core_fields_def counted_def)
next
  fix d v r
  assume a: "core_req_process N junk req s = Inr (noted req (resolved junk req s d v) r s)"
  obtain e b where eb: "resolved junk req s d v = (e, b)" by (cases "resolved junk req s d v")
  then show ?thesis using a assms(2) resolved_lr(1) [OF eb] by (auto simp: noted_def counted_def)
qed (use assms(3) in blast)

definition lr_event :: "segment list option \<Rightarrow> sb_event \<Rightarrow> u64 option \<Rightarrow> u64 option" where
  "lr_event model ev R = (case ev of CoreReq junk req \<Rightarrow> lr_spec model req R | _ \<Rightarrow> R)"

lemma sb_step_lr:
  assumes "ram_wf N (ram_m s)" "sb_step N ev s = Inr s'" "clash_free s'"
  shows "lr_abs (lrsc_buf_m s') = lr_event (mem_resp_model s) ev (lr_abs (lrsc_buf_m s)) \<and> mem_resp_model s' = mem_resp_model s"
proof (cases ev)
  case (CoreReq junk req)
  then have p: "core_req_process N junk req s = Inr s'" using assms(2) by simp
  have "free_id req s"
  proof (rule ccontr)
    assume "\<not> free_id req s"
    then have "print_error (ReqIdInflight (ucast (req_tid req))) (counted req s) = Inr s'"
      using p by (simp add: core_req_process_def Let_def)
    then show False using print_error_keeps(3) assms(3) by fastforce
  qed
  then show ?thesis using core_req_lr [OF assms(1) p] CoreReq by (simp add: lr_event_def)
next
  case (CoreResp resp)
  then have "core_resp_process N resp s = Inr s'" using assms(2) by simp
  then show ?thesis using CoreResp
    by (cases rule: core_resp_outcome) (auto simp: checked_def release_id_def lr_event_def)
next
  case (MemReadReq x) then show ?thesis using assms(2) mem_read_req_keeps [of x s s'] by (simp add: same_defs lr_event_def)
next
  case (MemReadResp x) then show ?thesis using assms(2) mem_read_resp_keeps [of x s s'] by (simp add: same_defs lr_event_def)
next
  case (MemWriteReq x) then show ?thesis using assms(2) mem_write_req_keeps [of x s s'] by (simp add: same_defs lr_event_def)
next
  case (MemWriteResp x) then show ?thesis using assms(2) mem_write_resp_keeps [of x s s'] by (simp add: same_defs lr_event_def)
next
  case (PerfEvents i) then show ?thesis using assms(2) perf_events_keeps [of s i] by (auto simp: same_defs lr_event_def)
qed

lemma clash_free_before: "err_step s s' \<Longrightarrow> clash_free s' \<Longrightarrow> clash_free s"
  unfolding err_step_def by (metis UnCI set_append)

lemma sb_run_lr:
  assumes "ram_wf N (ram_m s)" "sb_run N evs s = Inr s'" "clash_free s'"
  shows "lr_abs (lrsc_buf_m s') = fold (lr_event (mem_resp_model s)) evs (lr_abs (lrsc_buf_m s)) \<and> mem_resp_model s' = mem_resp_model s"
  using assms
proof (induction evs arbitrary: s)
  case (Cons ev evs)
  then obtain t where t: "sb_step N ev s = Inr t" "sb_run N evs t = Inr s'" by (auto simp: res_bind_Inr_iff)
  have wf: "ram_wf N (ram_m t)" using sb_step_keeps [OF Cons.prems(1) t(1)] by blast
  have "clash_free t" using sb_run_keeps(2) [OF wf t(2)] clash_free_before Cons.prems(3) by blast
  then show ?case using sb_step_lr [OF Cons.prems(1) t(1)] Cons.IH [OF wf t(2) Cons.prems(3)] by simp
qed simp

text \<open>C13: over every interleaving of the processes in which no request reuses an identifier in flight,
  the reservation buffer implements one optional double word, and a store-conditional is expected to
  be forwarded to the memory as atomic exactly if that reservation is its own double word; it is
  expected to fail with an error exactly if it is also in an error segment. The request always leaves
  no reservation.\<close>

theorem reservation_refines:
  assumes "ram_wf N (ram_m s)" "sb_run N evs s = Inr s'" "clash_free s'"
    and sc: "is_amo_sc req" "free_id req s'" "length (inflight_amo_req_m s') < AMO_FIFO_SIZE"
  shows "\<exists>s'' e. core_req_process N junk req s' = Inr s'' \<and> map_find (inflight_m s'') (ucast (req_tid req)) = Some e \<and>
     lr_abs (lrsc_buf_m s'') = None \<and>
     (let R = fold (lr_event (mem_resp_model s)) evs (lr_abs (lrsc_buf_m s)) in
      e_is_atomic e = (R = Some (dword req)) \<and>
      e_is_error e = (in_error (mem_resp_model s) req \<and> R = Some (dword req)) \<and>
      inflight_amo_req_m s'' = inflight_amo_req_m s' @ (if R = Some (dword req) then [e] else []))"
proof -
  have wf: "ram_wf N (ram_m s')" using sb_run_keeps [OF assms(1,2)] by blast
  have R: "lr_abs (lrsc_buf_m s') = fold (lr_event (mem_resp_model s)) evs (lr_abs (lrsc_buf_m s))"
    "mem_resp_model s' = mem_resp_model s" using sb_run_lr [OF assms(1-3)] by blast+
  show ?thesis
  proof (rule core_req_outcome [OF wf, of req junk])
    fix d v r
    assume a: "core_req_process N junk req s' = Inr (noted req (resolved junk req s' d v) r s')"
    obtain e b where eb: "resolved junk req s' d v = (e, b)" by (cases "resolved junk req s' d v")
    have "forwarded req e \<longleftrightarrow> e_is_atomic e" using op_exclusive(4) [OF sc(1)] sc(1) by (simp add: forwarded_def)
    moreover have "lr_abs b = None" using resolved_lr(1) [OF eb] op_exclusive(4) [OF sc(1)] sc(1) by (simp add: lr_spec_def)
    ultimately show ?thesis
      using a eb resolved_lr(2,3) [OF eb sc(1)] sc(2) R
      by (intro exI [of _ "noted req (e, b) r s'"] exI [of _ e]) (auto simp: noted_def counted_def map_find_insert)
  qed (use sc op_exclusive(4) [OF sc(1)] in auto)
qed

theorem reservation_refines_witness:
  "\<exists>s' s'' e. sb_run 8 [CoreReq junk_entry (new_core_req\<lparr>req_op := REQ_AMO_LR, req_tid := 1\<rparr>)] sb_example = Inr s' \<and>
     core_req_process 8 junk_entry (new_core_req\<lparr>req_op := REQ_AMO_SC\<rparr>) s' = Inr s'' \<and>
     map_find (inflight_m s'') 0 = Some e \<and> e_is_atomic e"
proof -
  let ?lr = "new_core_req\<lparr>req_op := REQ_AMO_LR, req_tid := 1\<rparr>" and ?sc = "new_core_req\<lparr>req_op := REQ_AMO_SC\<rparr>"
  have wf: "ram_wf 8 (ram_m sb_example)" and ex: "inflight_m sb_example = []" "inflight_amo_req_m sb_example = []"
    "sb_log sb_example = []" "mem_resp_model sb_example = None"
    by (simp_all add: sb_example_def scoreboard_new_def ram_wf_def)
  have ops: "is_amo_lr ?lr" "is_amo_sc ?sc" "\<not> is_cmo ?lr" "req_tid ?sc = 0" "dword ?sc = 0" "dword ?lr = 0"
    by (simp_all add: is_amo_lr_def is_amo_sc_def is_cmo_def op_defs new_core_req_def dword_def)
  obtain d v r where acc: "core_req_process 8 junk_entry ?lr sb_example = Inr (noted ?lr (resolved junk_entry ?lr sb_example d v) r sb_example)"
    by (rule core_req_outcome [OF wf, of ?lr junk_entry]) (use ex ops in \<open>auto simp: AMO_FIFO_SIZE_def\<close>)
  obtain e b where eb: "resolved junk_entry ?lr sb_example d v = (e, b)" by (cases "resolved junk_entry ?lr sb_example d v")
  let ?s = "noted ?lr (e, b) r sb_example"
  have run: "sb_run 8 [CoreReq junk_entry ?lr] sb_example = Inr ?s" using acc eb by simp
  have s: "clash_free ?s" "free_id ?sc ?s" "length (inflight_amo_req_m ?s) < AMO_FIFO_SIZE"
    using ex ops by (auto simp: noted_def counted_def map_find_insert AMO_FIFO_SIZE_def)
  have R: "fold (lr_event (mem_resp_model sb_example)) [CoreReq junk_entry ?lr] (lr_abs (lrsc_buf_m sb_example)) = Some 0"
    using ops ex by (simp add: lr_event_def lr_spec_def in_error_def)
  show ?thesis
    using reservation_refines [OF wf run s(1) ops(2) s(2,3), of junk_entry] run ops(4,5) unfolding R Let_def by auto
qed

end
