(* ===== verification/Scoreboard_Ref.thy ===== *)
theory Scoreboard_Ref
  imports Scoreboard_Check
begin

text \<open>
  The scoreboard against a reference cache. This theory has the reference memory, the effect and the right
  answer of each kind of request, and what the scoreboard does with such a request, with the memory
  traffic and with the answer; the reference cache and its runs are in the theory Scoreboard\_Sound.
\<close>

section \<open>Double words of the reference memory\<close>

text \<open>The reference memory is a function from byte addresses to bytes.\<close>

type_synonym gmem = "u64 \<Rightarrow> u8"

definition gbyte :: "gmem \<Rightarrow> u64 \<Rightarrow> nat \<Rightarrow> u8" where
  "gbyte g a i = g (align_to a 8 + of_nat i)"

definition gwrite :: "u64 \<Rightarrow> u64 \<Rightarrow> u8 \<Rightarrow> gmem \<Rightarrow> gmem" where
  "gwrite a w be g = (\<lambda>b. if align_to b 8 = align_to a 8 \<and> bit be (unat b mod 8) then byte_at w (unat b mod 8) else g b)"

lemma unat_dword_byte: "i < 8 \<Longrightarrow> unat (align_to a 8 + of_nat i) = unat a div 8 * 8 + i"
proof -
  assume i: "i < 8"
  have "unat a div 8 * 8 + i < 2 ^ LENGTH(64)"
  proof -
    have "unat a div 8 < 2 ^ 61" using unat_less_exp [of a] by (simp add: less_mult_imp_div_less)
    then show ?thesis using i by simp
  qed
  then show ?thesis using i by (simp add: unat_word_ariths unat_of_nat align_to_8)
qed

lemma align_dword_byte: "i < 8 \<Longrightarrow> align_to (align_to a 8 + of_nat i) 8 = align_to a 8"
  by (rule word_unat_eq_iff [THEN iffD2]) (simp add: align_to_8 unat_dword_byte)

lemma align_align [simp]: "align_to (align_to a 8) 8 = align_to a 8"
  using align_dword_byte [of 0 a] by simp

lemma gbyte_gwrite:
  assumes "i < 8"
  shows "gbyte (gwrite a w be g) b i = (if align_to b 8 = align_to a 8 \<and> bit be i then byte_at w i else gbyte g b i)"
  using assms by (simp add: gbyte_def gwrite_def align_dword_byte unat_dword_byte)

lemma shadow_cong: "align_to a 8 = align_to b 8 \<Longrightarrow> shadow N r a = shadow N r b"
  by (rule ext) (simp add: shadow_def)

section \<open>Writes to the scoreboard's memory\<close>

definition ram_slot :: "nat \<Rightarrow> u64 \<Rightarrow> nat" where
  "ram_slot N a = unat (align_to a 8) mod N"

lemma ram_slot_dvd: "8 dvd N \<Longrightarrow> 8 dvd ram_slot N a"
  by (simp add: ram_slot_def align_to_8 dvd_mod)

lemma ram_write_all:
  assumes "ram_wf N r"
  shows "\<exists>r'. ram_write N r (le_bytes 8 (w :: u64)) [be] 8 (align_to a 8) = Inr r' \<and> ram_wf N r' \<and>
     (\<forall>b. \<forall>i < 8. shadow N r' b i = (if ram_slot N b = ram_slot N a \<and> bit be i then Some (byte_at w i) else shadow N r b i))"
proof -
  let ?off = "ram_slot N a"
  obtain r' where r': "ram_write N r (le_bytes 8 w) [be] 8 (align_to a 8) = Inr r'" "ram_wf N r'"
    "\<forall>k < N. mem_m r' ! k = (if ?off \<le> k \<and> k < ?off + 8 \<and> enabled [be] (k - ?off) then le_bytes 8 w ! (k - ?off) else mem_m r ! k) \<and>
              written r' k = (?off \<le> k \<and> k < ?off + 8 \<and> enabled [be] (k - ?off) \<or> written r k)"
    using ram_write_ok [OF assms refl dword_in_ram [OF assms, of a], of "le_bytes 8 w" "[be]"] unfolding ram_slot_def by blast
  have "shadow N r' b i = (if ram_slot N b = ram_slot N a \<and> bit be i then Some (byte_at w i) else shadow N r b i)" if i: "i < 8" for b i
  proof -
    have k: "ram_slot N b + i < N" using dword_in_ram [OF assms, of b] i by (simp add: ram_slot_def)
    have "8 dvd N" using assms by (simp add: ram_wf_def)
    then obtain x y where xy: "ram_slot N b = 8 * x" "ram_slot N a = 8 * y" using ram_slot_dvd unfolding dvd_def by metis
    have in_range: "?off \<le> ram_slot N b + i \<and> ram_slot N b + i < ?off + 8 \<longleftrightarrow> ram_slot N b = ?off" using i unfolding xy by auto
    show ?thesis using r'(3) [rule_format, OF k] i in_range
      by (auto simp: shadow_def Let_def ram_slot_def [symmetric])
  qed
  then show ?thesis using r' by blast
qed

section \<open>Requests that are not atomic\<close>

definition plain_op :: "core_req \<Rightarrow> bool" where
  "plain_op req \<longleftrightarrow> is_load req \<or> is_store req \<or> is_cmo req"

text \<open>A request is expected to end in an error if it accesses an error segment; of the cache
  management operations only a prefetch does.\<close>

definition faulty :: "segment list option \<Rightarrow> core_req \<Rightarrow> bool" where
  "faulty model req \<longleftrightarrow> (\<not> is_cmo req \<or> is_cmo_prefetch req) \<and> in_error model req"

lemma plain_op_exclusive:
  "plain_op req \<Longrightarrow> \<not> is_amo req \<and> \<not> is_amo_sc req \<and> \<not> is_amo_lr req"
  unfolding plain_op_def using op_exclusive by blast

lemma new_entry_be [simp]:
  "is_store req \<or> is_amo_sc req \<or> is_amo req \<Longrightarrow> e_wdata (new_entry junk req) = req_wdata req"
  "is_store req \<or> is_amo_sc req \<or> is_amo req \<Longrightarrow> e_be (new_entry junk req) = req_be req"
  by (auto simp: new_entry_def Let_def)

lemma entry_error_keeps [simp]:
  "e_bytes (entry_error m req e) = e_bytes e" "e_is_read (entry_error m req e) = e_is_read e"
  "e_is_write (entry_error m req e) = e_is_write e" "e_is_amo (entry_error m req e) = e_is_amo e"
  "e_is_amo_lr (entry_error m req e) = e_is_amo_lr e" "e_is_amo_sc (entry_error m req e) = e_is_amo_sc e"
  "e_wdata (entry_error m req e) = e_wdata e" "e_be (entry_error m req e) = e_be e" "e_addr (entry_error m req e) = e_addr e"
  "e_op (entry_error m req e) = e_op e"
  by (auto simp: entry_error_def split: option.splits)

lemma entry_error_faulty: "e_is_error (entry_error m req (new_entry junk req)) = faulty m req"
  by (auto simp: entry_error_def in_error_def faulty_def split: option.splits)

text \<open>What is known of the double word goes into the entry of a request that reads.\<close>

definition knows :: "nat \<Rightarrow> ram_model \<Rightarrow> inflight_entry \<Rightarrow> bool" where
  "knows N r e \<longleftrightarrow> (\<forall>i < 8. shadow N r (e_addr e) i = (if bit (e_rv e) i then Some (byte_at (e_rdata e) i) else None))"

lemma expect_data_knows:
  assumes "ram_wf N ram"
  shows "\<exists>d v. expect_data N req ram e = Inr (e\<lparr>e_rdata := d, e_rv := v\<rparr>) \<and>
     (\<not> e_is_error e \<and> (is_load req \<or> is_amo_lr req \<or> is_amo req) \<longrightarrow> knows N ram (e\<lparr>e_rdata := d, e_rv := v\<rparr>))"
proof (cases "\<not> e_is_error e \<and> (is_load req \<or> is_amo_lr req \<or> is_amo req)")
  case True
  obtain bytes valid where bv: "ram_read N ram 8 (align_to (e_addr e) 8) = Inr (bytes, valid)"
    "\<forall>i < 8. shadow N ram (e_addr e) i = (if bit (valid ! 0) i then Some (byte_at (le_word bytes :: u64) i) else None)"
    using ram_read_word [OF assms] by blast
  then have "expect_data N req ram e = Inr (e\<lparr>e_rdata := le_word bytes, e_rv := valid ! 0\<rparr>)"
    using True by (auto simp: expect_data_def)
  then show ?thesis using bv(2) by (intro exI [of _ "le_word bytes"] exI [of _ "valid ! 0"]) (simp add: knows_def)
next
  case False
  then show ?thesis using expect_data_ok [OF assms, of req e] by blast
qed

lemma track_store_shadow:
  assumes "ram_wf N (ram_m s)"
  shows "\<exists>r. track_store N req e s = Inr (s\<lparr>ram_m := r\<rparr>) \<and> ram_wf N r \<and>
     (\<forall>b. \<forall>i < 8. shadow N r b i = (if is_store req \<and> \<not> e_is_error e \<and> ram_slot N b = ram_slot N (e_addr e) \<and> bit (e_be e) i
        then Some (byte_at (e_wdata e) i) else shadow N (ram_m s) b i))"
proof (cases "is_store req \<and> \<not> e_is_error e")
  case True
  then show ?thesis using ram_write_all [OF assms, of "e_wdata e" "e_be e" "e_addr e"] by (auto simp: track_store_def)
next
  case False
  then have "track_store N req e s = Inr (s\<lparr>ram_m := ram_m s\<rparr>)" by (auto simp: track_store_def)
  then show ?thesis using False assms by (intro exI [of _ "ram_m s"]) auto
qed

lemma plain_request:
  assumes "ram_wf N (ram_m s)" "free_id req s" "plain_op req" "req_need_rsp req"
  shows "\<exists>e b r. core_req_process N junk req s =
       Inr ((counted req s)\<lparr>lrsc_buf_m := b, ram_m := r, inflight_m := map_insert (ucast (req_tid req)) e (inflight_m s)\<rparr>) \<and>
     ram_wf N r \<and> e_addr e = ucast (req_addr req) \<and> e_bytes e = 2 ^ unat (req_size req) \<and>
     e_is_read e = is_load req \<and> e_is_write e = is_store req \<and> \<not> e_is_amo e \<and> \<not> e_is_amo_sc e \<and> \<not> e_is_amo_lr e \<and>
     e_is_error e = faulty (mem_resp_model s) req \<and> (is_load req \<and> \<not> faulty (mem_resp_model s) req \<longrightarrow> knows N (ram_m s) e) \<and>
     (\<forall>a. \<forall>i < 8. shadow N r a i =
        (if is_store req \<and> \<not> faulty (mem_resp_model s) req \<and> ram_slot N a = ram_slot N (ucast (req_addr req)) \<and> bit (req_be req) i
         then Some (byte_at (req_wdata req) i) else shadow N (ram_m s) a i))"
proof -
  let ?e0 = "entry_error (mem_resp_model s) req (new_entry junk req)"
  note ops = plain_op_exclusive [OF assms(3)]
  obtain d v where dv: "expect_data N req (ram_m s) ?e0 = Inr (?e0\<lparr>e_rdata := d, e_rv := v\<rparr>)"
    "\<not> e_is_error ?e0 \<and> (is_load req \<or> is_amo_lr req \<or> is_amo req) \<longrightarrow> knows N (ram_m s) (?e0\<lparr>e_rdata := d, e_rv := v\<rparr>)"
    using expect_data_knows [OF assms(1)] by blast
  let ?e = "?e0\<lparr>e_rdata := d, e_rv := v\<rparr>"
  define b where "b = snd (check_reservation req (?e, lrsc_buf_m s))"
  have b: "check_reservation req (?e, make_reservation req ?e (lrsc_buf_m s)) = (?e, b)"
    using ops unfolding b_def by (auto simp: check_reservation_def make_reservation_def Let_def)
  let ?t = "(counted req s)\<lparr>lrsc_buf_m := b\<rparr>"
  obtain r where r: "track_store N req ?e ?t = Inr (?t\<lparr>ram_m := r\<rparr>)" "ram_wf N r"
    "\<forall>a. \<forall>i < 8. shadow N r a i = (if is_store req \<and> \<not> e_is_error ?e \<and> ram_slot N a = ram_slot N (e_addr ?e) \<and> bit (e_be ?e) i
        then Some (byte_at (e_wdata ?e) i) else shadow N (ram_m ?t) a i)"
  proof -
    have "ram_wf N (ram_m ?t)" using assms(1) by simp
    from track_store_shadow [OF this, of req ?e] show thesis using that by blast
  qed
  have "core_req_process N junk req s =
      Inr (?t\<lparr>ram_m := r, inflight_m := map_insert (ucast (req_tid req)) ?e (inflight_m s)\<rparr>)"
    using assms(2,4) dv(1) b r(1) ops by (simp add: core_req_process_def Let_def forwarded_def)
  moreover have "is_store req \<longrightarrow> e_wdata ?e = req_wdata req \<and> e_be ?e = req_be req" by simp
  ultimately show ?thesis using r(2,3) dv(2) ops
    by (intro exI [of _ ?e] exI [of _ b] exI [of _ r]) (auto simp: entry_error_faulty)
qed

section \<open>Responses that are as expected\<close>

lemma check_byte_clean:
  assumes "i < 8" "bit (e_rv e) i \<longrightarrow> byte_at (e_rdata e) i = byte_at (rsp_rdata resp) i"
  shows "check_byte resp e i s = Inr s"
  using assms drop_bit_and_one [of i "e_rv e"] by (cases "bit (e_rv e) i") (simp_all add: check_byte_def Let_def)

lemma check_bytes_clean:
  assumes "unat (e_addr e) mod 8 + unat (e_bytes e) \<le> 8"
    "\<forall>i \<in> set (lanes e). bit (e_rv e) i \<longrightarrow> byte_at (e_rdata e) i = byte_at (rsp_rdata resp) i"
  shows "check_bytes resp e s = Inr s"
proof -
  have "for_res (check_byte resp e) xs s = Inr s"
    if "\<forall>i \<in> set xs. i < 8 \<and> (bit (e_rv e) i \<longrightarrow> byte_at (e_rdata e) i = byte_at (rsp_rdata resp) i)" for xs
    using that
  proof (induction xs)
    case (Cons i xs)
    then have "check_byte resp e i s = Inr s" using check_byte_clean [of i e resp s] by simp
    moreover have "for_res (check_byte resp e) xs s = Inr s" using Cons by simp
    ultimately show ?case by simp
  qed simp
  moreover have "\<forall>i \<in> set (lanes e). i < 8" using assms(1) by (auto simp: lanes_def Let_def)
  ultimately have "for_res (check_byte resp e) (lanes e) s = Inr s" using assms(2) by blast
  then show ?thesis unfolding check_bytes_def lanes_def Let_def .
qed

lemma learn_bytes_all:
  assumes "ram_wf N (ram_m s)" "unat (e_addr e) mod 8 + unat (e_bytes e) \<le> 8"
  shows "\<exists>r. learn_bytes N resp e s = Inr (s\<lparr>ram_m := r\<rparr>) \<and> ram_wf N r \<and>
     (\<forall>b. \<forall>i < 8. shadow N r b i =
        (if ram_slot N b = ram_slot N (e_addr e) \<and> i \<in> set (lanes e) \<and> shadow N (ram_m s) b i = None
         then Some (byte_at (rsp_rdata resp) i) else shadow N (ram_m s) b i))"
proof -
  let ?n = "unat (e_bytes e)" and ?a = "align_to (e_addr e) 8"
  let ?m = "ucast (push_bit (unat (e_addr e) mod 8) (2 ^ ?n - 1 :: u64)) :: u8"
  have m: "bit ?m i \<longleftrightarrow> i \<in> set (lanes e)" if "i < 8" for i
    using that assms(2) by (auto simp: lanes_def Let_def bit_simps simp flip: mask_eq_exp_minus_1)
  have n: "e_bytes e \<le> 8" using assms(2) by (simp add: word_le_nat_alt)
  obtain r where r: "ram_write N (ram_m s) (le_bytes 8 (rsp_rdata resp)) [?m AND unset_lanes N (ram_m s) ?a] 8 ?a = Inr r"
    "ram_wf N r" "\<forall>b. \<forall>i < 8. shadow N r b i = (if ram_slot N b = ram_slot N (e_addr e) \<and> bit (?m AND unset_lanes N (ram_m s) ?a) i
       then Some (byte_at (rsp_rdata resp) i) else shadow N (ram_m s) b i)"
    using ram_write_all [OF assms(1)] by blast
  have "learn_bytes N resp e s = Inr (s\<lparr>ram_m := r\<rparr>)" using r(1) n by (simp add: learn_bytes_def Let_def require_def)
  moreover have "shadow N r b i = (if ram_slot N b = ram_slot N (e_addr e) \<and> i \<in> set (lanes e) \<and> shadow N (ram_m s) b i = None
       then Some (byte_at (rsp_rdata resp) i) else shadow N (ram_m s) b i)" if "i < 8" for b i
  proof -
    have "ram_slot N b = ram_slot N (e_addr e) \<Longrightarrow> shadow N (ram_m s) b i = shadow N (ram_m s) (e_addr e) i"
      by (simp add: shadow_def ram_slot_def)
    then show ?thesis
      unfolding r(3) [rule_format, OF that] bit_and_iff m [OF that] unset_lanes_bit [OF assms(1) that] by auto
  qed
  ultimately show ?thesis using r(2) by blast
qed

text \<open>A response that a correct cache may give to an entry: the bytes of the access are the known ones, and
  a byte that is still unknown has the value it has in the reference memory.\<close>

abbreviation reads :: "inflight_entry \<Rightarrow> bool" where
  "reads e \<equiv> e_is_read e \<or> e_is_amo_lr e"

definition expects :: "nat \<Rightarrow> gmem \<Rightarrow> ram_model \<Rightarrow> inflight_entry \<Rightarrow> core_resp \<Rightarrow> bool" where
  "expects N g r e resp \<longleftrightarrow> \<not> e_is_amo e \<and> \<not> e_is_amo_sc e \<and>
     (e_is_write e \<or> rsp_error resp = e_is_error e) \<and>
     (reads e \<and> \<not> e_is_error e \<longrightarrow>
        unat (e_addr e) mod 8 + unat (e_bytes e) \<le> 8 \<and>
        (\<forall>i \<in> set (lanes e). (bit (e_rv e) i \<longrightarrow> byte_at (e_rdata e) i = byte_at (rsp_rdata resp) i) \<and>
           (shadow N r (e_addr e) i = None \<longrightarrow> byte_at (rsp_rdata resp) i = gbyte g (e_addr e) i)))"

definition settled :: "core_resp \<Rightarrow> ram_model \<Rightarrow> scoreboard \<Rightarrow> scoreboard" where
  "settled resp r s = release_id (unat (rsp_tid resp)) (s\<lparr>nb_core_resp := nb_core_resp s + 1, nb_cycles_effective := nb_cycles s,
     ram_m := r, inflight_m := map_erase (ucast (rsp_tid resp)) (inflight_m s)\<rparr>)"

lemma plain_response:
  assumes "ram_wf N (ram_m s)" "map_find (inflight_m s) (ucast (rsp_tid resp)) = Some e" "expects N g (ram_m s) e resp"
  shows "\<exists>r. core_resp_process N resp s = Inr (settled resp r s) \<and> ram_wf N r \<and>
     (\<forall>b. \<forall>i < 8. shadow N r b i =
        (if (reads e \<and> \<not> e_is_error e) \<and> ram_slot N b = ram_slot N (e_addr e) \<and> i \<in> set (lanes e) \<and> shadow N (ram_m s) b i = None
         then Some (byte_at (rsp_rdata resp) i) else shadow N (ram_m s) b i))"
proof -
  let ?s = "s\<lparr>nb_core_resp := nb_core_resp s + 1, nb_cycles_effective := nb_cycles s\<rparr>"
  have e: "\<not> e_is_amo e" "\<not> e_is_amo_sc e" "\<not> (\<not> e_is_write e \<and> rsp_error resp \<noteq> e_is_error e)"
    using assms(3) by (auto simp: expects_def)
  show ?thesis
  proof (cases "reads e \<and> \<not> e_is_error e")
    case True
    then have acc: "unat (e_addr e) mod 8 + unat (e_bytes e) \<le> 8" and ok: "check_bytes resp e ?s = Inr ?s"
      using assms(3) check_bytes_clean [of e resp ?s] by (auto simp: expects_def)
    have "ram_wf N (ram_m ?s)" using assms(1) by simp
    from learn_bytes_all [OF this acc, of resp] obtain r where r: "learn_bytes N resp e ?s = Inr (?s\<lparr>ram_m := r\<rparr>)" "ram_wf N r"
      "\<forall>b. \<forall>i < 8. shadow N r b i = (if ram_slot N b = ram_slot N (e_addr e) \<and> i \<in> set (lanes e) \<and> shadow N (ram_m ?s) b i = None
         then Some (byte_at (rsp_rdata resp) i) else shadow N (ram_m ?s) b i)" by blast
    have "core_resp_process N resp s = Inr (settled resp r s)"
      using assms(2) e True ok r(1) by (auto simp: core_resp_process_def check_sc_def check_data_def settled_def Let_def)
    then show ?thesis using r(2,3) True by (intro exI [of _ r]) simp
  next
    case False
    have "core_resp_process N resp s = Inr (settled resp (ram_m s) s)"
      using assms(2) e False by (auto simp: core_resp_process_def check_sc_def check_data_def settled_def Let_def)
    then show ?thesis using assms(1) False by (intro exI [of _ "ram_m s"]) auto
  qed
qed

section \<open>Atomic requests\<close>

definition atomic_op :: "core_req \<Rightarrow> bool" where
  "atomic_op req \<longleftrightarrow> is_amo req \<or> is_amo_lr req \<or> is_amo_sc req"

lemma atomic_op_exclusive: "atomic_op req \<Longrightarrow> \<not> is_load req \<and> \<not> is_store req \<and> \<not> is_cmo req"
  unfolding atomic_op_def using op_exclusive by blast

lemma resolved_fields:
  assumes "resolved junk req s d v = (e, b)"
  shows "e_addr e = ucast (req_addr req)" "e_bytes e = 2 ^ unat (req_size req)" "e_is_read e = is_load req"
    "e_is_write e = is_store req" "e_is_amo e = is_amo req" "e_is_amo_lr e = is_amo_lr req" "e_is_amo_sc e = is_amo_sc req"
    "e_op e = req_op req" "e_rdata e = d" "e_rv e = v"
    "is_amo_sc req \<or> is_amo req \<Longrightarrow> e_wdata e = req_wdata req \<and> e_be e = req_be req"
    "\<not> is_amo_sc req \<Longrightarrow> e_is_error e = faulty (mem_resp_model s) req"
  using assms
  by (auto simp: resolved_def check_reservation_def looked_up_def Let_def entry_error_faulty split: if_splits)

text \<open>The reservation is an optional double word. An atomic request goes to the memory, except a
  store-conditional without reservation; \<open>fwd\<close> below says whether it does.\<close>

definition goes_out :: "u64 option \<Rightarrow> core_req \<Rightarrow> bool" where
  "goes_out R req \<longleftrightarrow> (is_amo_sc req \<longrightarrow> R = Some (dword req))"

definition atomic_fault :: "segment list option \<Rightarrow> bool \<Rightarrow> core_req \<Rightarrow> bool" where
  "atomic_fault model fwd req \<longleftrightarrow> faulty model req \<and> fwd"

text \<open>The scoreboard's entry of an atomic request.\<close>

definition atomic_entry :: "segment list option \<Rightarrow> bool \<Rightarrow> core_req \<Rightarrow> inflight_entry \<Rightarrow> bool" where
  "atomic_entry model fwd req e \<longleftrightarrow>
     e_addr e = ucast (req_addr req) \<and> e_bytes e = 2 ^ unat (req_size req) \<and> \<not> e_is_read e \<and> \<not> e_is_write e \<and>
     e_is_amo e = is_amo req \<and> e_is_amo_lr e = is_amo_lr req \<and> e_is_amo_sc e = is_amo_sc req \<and> e_op e = req_op req \<and>
     (\<not> is_amo_lr req \<longrightarrow> e_wdata e = req_wdata req \<and> e_be e = req_be req) \<and> e_is_error e = atomic_fault model fwd req \<and>
     (is_amo_sc req \<longrightarrow> e_is_atomic e = fwd)"

lemma atomic_entryD:
  assumes "atomic_entry model fwd req e"
  shows "e_addr e = ucast (req_addr req)" "e_bytes e = 2 ^ unat (req_size req)" "\<not> e_is_read e" "\<not> e_is_write e"
    "e_is_amo e = is_amo req" "e_is_amo_lr e = is_amo_lr req" "e_is_amo_sc e = is_amo_sc req" "e_op e = req_op req"
    "\<not> is_amo_lr req \<longrightarrow> e_wdata e = req_wdata req \<and> e_be e = req_be req" "e_is_error e = atomic_fault model fwd req"
    "is_amo_sc req \<longrightarrow> e_is_atomic e = fwd"
  using assms by (simp_all add: atomic_entry_def)

lemma atomic_request:
  assumes "ram_wf N (ram_m s)" "free_id req s" "atomic_op req" "inflight_amo_req_m s = []"
    and "R = lr_abs (lrsc_buf_m s)" "fwd = goes_out R req"
  shows "\<exists>e b. core_req_process N junk req s = Inr ((counted req s)\<lparr>lrsc_buf_m := b,
       inflight_amo_req_m := (if fwd then [e] else []), inflight_m := map_insert (ucast (req_tid req)) e (inflight_m s)\<rparr>) \<and>
     lr_abs b = lr_spec (mem_resp_model s) req R \<and> atomic_entry (mem_resp_model s) fwd req e \<and>
     (\<not> is_amo_sc req \<and> \<not> atomic_fault (mem_resp_model s) fwd req \<longrightarrow> knows N (ram_m s) e)"
proof -
  note ops = atomic_op_exclusive [OF assms(3)]
  let ?e0 = "entry_error (mem_resp_model s) req (new_entry junk req)"
  obtain d v where dv: "expect_data N req (ram_m s) ?e0 = Inr (looked_up junk req s d v)"
    "\<not> e_is_error ?e0 \<and> (is_load req \<or> is_amo_lr req \<or> is_amo req) \<longrightarrow> knows N (ram_m s) (looked_up junk req s d v)"
    using expect_data_knows [OF assms(1)] unfolding looked_up_def by blast
  obtain e b where eb: "resolved junk req s d v = (e, b)" by (cases "resolved junk req s d v")
  note f = resolved_fields [OF eb]
  have fwd: "forwarded req e = fwd"
  proof (cases "is_amo_sc req")
    case True
    then show ?thesis using op_exclusive(4) [OF True] resolved_lr(2) [OF eb] by (simp add: forwarded_def goes_out_def assms(5,6))
  next
    case False
    then show ?thesis using assms(3) by (auto simp: forwarded_def goes_out_def atomic_op_def assms(6))
  qed
  have err: "e_is_error e = atomic_fault (mem_resp_model s) fwd req"
    using f(12) resolved_lr(3) [OF eb] ops by (auto simp: atomic_fault_def goes_out_def faulty_def assms(5,6))
  have same: "t\<lparr>inflight_amo_req_m := [], inflight_m := m\<rparr> = t\<lparr>inflight_m := m\<rparr>" if "inflight_amo_req_m t = []" for t m
    using that by (intro scoreboard.equality) simp_all
  have "core_req_process N junk req s = Inr ((counted req s)\<lparr>lrsc_buf_m := b,
       inflight_amo_req_m := (if fwd then [e] else []), inflight_m := map_insert (ucast (req_tid req)) e (inflight_m s)\<rparr>)"
    using assms(2,4) dv(1) eb ops fwd
    by (simp add: core_req_process_def resolved_def track_store_def AMO_FIFO_SIZE_def Let_def same)
  moreover have "knows N (ram_m s) e" if "\<not> is_amo_sc req" "\<not> atomic_fault (mem_resp_model s) fwd req"
    using that dv(2) assms(3) f(1,9,10) ops
    by (auto simp: knows_def atomic_op_def entry_error_faulty atomic_fault_def goes_out_def looked_up_def assms(6))
  moreover have "is_amo_sc req \<longrightarrow> e_is_atomic e = fwd" using resolved_lr(2) [OF eb] by (simp add: goes_out_def assms(5,6))
  moreover have "\<not> is_amo_lr req \<longrightarrow> is_amo_sc req \<or> is_amo req" using assms(3) by (auto simp: atomic_op_def)
  ultimately show ?thesis using f err ops resolved_lr(1) [OF eb] assms(5)
    unfolding atomic_entry_def by (intro exI [of _ e] exI [of _ b]) auto
qed

section \<open>Memory traffic\<close>

definition mem_quiet :: "scoreboard \<Rightarrow> scoreboard \<Rightarrow> bool" where
  "mem_quiet s s' \<longleftrightarrow> core_fields s s' \<and> sb_log s' = sb_log s \<and> nb_error s' = nb_error s \<and> evts s' = evts s \<and>
     nb_core_resp s' = nb_core_resp s \<and> nb_core_req_need_rsp s' = nb_core_req_need_rsp s"

lemma mem_quiet_trans: "mem_quiet s s' \<Longrightarrow> mem_quiet s' s'' \<Longrightarrow> mem_quiet s s''"
  by (simp add: mem_quiet_def core_fields_def)

lemmas quiet_defs = mem_quiet_def core_fields_def

lemma mem_entry_ok: "mem_resp_model s = Some segs \<Longrightarrow> unat (msize q) < 64 \<Longrightarrow> \<exists>m. mem_entry q s = Inr m"
  by (simp add: mem_entry_def)

lemma mem_entry_counts [simp]:
  "mem_entry q (s\<lparr>nb_mem_read_req := n\<rparr>) = mem_entry q s" "mem_entry q (s\<lparr>nb_mem_write_req := n\<rparr>) = mem_entry q s"
  by (simp_all add: mem_entry_def)

text \<open>The identifiers of the memory requests under way.\<close>

definition reads_out :: "scoreboard \<Rightarrow> u32 set" where
  "reads_out s = {i. map_find (inflight_mem_read_m s) (ucast i) \<noteq> None}"

definition writes_out :: "scoreboard \<Rightarrow> u32 set" where
  "writes_out s = {i. map_find (inflight_mem_write_m s) (ucast i) \<noteq> None}"

lemma ucast_id_eq [simp]: "(ucast (i :: u32) = (ucast j :: u64)) = (i = j)"
proof -
  have "unat (ucast k :: u64) = unat k" for k :: u32
    using unat_less_exp [of k] by (simp add: unsigned_ucast_eq take_bit_nat_eq_self)
  then show ?thesis by (metis word_unat_eq_iff)
qed

text \<open>A read request: an exclusive one takes the entry of the atomic request from the FIFO.\<close>

lemma read_req_step:
  assumes "mem_resp_model s = Some segs" "unat (msize q) < 64" "mid q \<notin> reads_out s"
    and "if mem_is_ldex q then inflight_amo_req_m s = [e] else True"
  shows "\<exists>s'. mem_read_req_process q s = Inr s' \<and> mem_quiet s s' \<and> sc_is_atomic s' = sc_is_atomic s \<and>
     inflight_amo_req_m s' = (if mem_is_ldex q then [] else inflight_amo_req_m s) \<and>
     reads_out s' = insert (mid q) (reads_out s) \<and> writes_out s' = writes_out s"
  using assms mem_entry_ok [OF assms(1,2)]
  by (auto simp: mem_read_req_process_def take_amo_def Let_def quiet_defs map_find_insert reads_out_def writes_out_def)

lemma read_resp_step:
  assumes "rid r \<in> reads_out s"
  shows "\<exists>s'. mem_read_resp_process r s = Inr s' \<and> mem_quiet s s' \<and> sc_is_atomic s' = sc_is_atomic s \<and>
     inflight_amo_req_m s' = inflight_amo_req_m s \<and>
     reads_out s' = (if rlast r then reads_out s - {rid r} else reads_out s) \<and> writes_out s' = writes_out s"
  using assms by (auto simp: mem_read_resp_process_def Let_def quiet_defs reads_out_def writes_out_def)

text \<open>A write request: an atomic or exclusive one takes the entry, and an atomic one also expects read data.\<close>

lemma write_req_step:
  assumes "mem_resp_model s = Some segs" "unat (msize w) < 64" "mid w \<notin> writes_out s"
    and "if mem_is_amo w \<or> mem_is_stex w then inflight_amo_req_m s = [e] \<and> (mem_is_stex w \<and> \<not> mem_is_amo w \<longrightarrow> e_is_atomic e) else True"
  shows "\<exists>s'. mem_write_req_process w s = Inr s' \<and> mem_quiet s s' \<and> sc_is_atomic s' = sc_is_atomic s \<and>
     inflight_amo_req_m s' = (if mem_is_amo w \<or> mem_is_stex w then [] else inflight_amo_req_m s) \<and>
     reads_out s' = (if mem_is_amo w then insert (mid w) (reads_out s) else reads_out s) \<and>
     writes_out s' = insert (mid w) (writes_out s)"
  using assms mem_entry_ok [OF assms(1,2)]
  by (auto simp: mem_write_req_process_def take_amo_def Let_def quiet_defs map_find_insert reads_out_def writes_out_def)

text \<open>Every write response sets the flag of the store-exclusive.\<close>

lemma write_resp_step:
  assumes "wid r \<in> writes_out s"
  shows "\<exists>s'. mem_write_resp_process r s = Inr s' \<and> mem_quiet s s' \<and> sc_is_atomic s' = is_atomic r \<and>
     inflight_amo_req_m s' = inflight_amo_req_m s \<and> reads_out s' = reads_out s \<and> writes_out s' = writes_out s - {wid r}"
  using assms by (auto simp: mem_write_resp_process_def Let_def quiet_defs reads_out_def writes_out_def)

section \<open>The reference memory and the scoreboard's memory\<close>

text \<open>No two double words of the addresses used share a place of the scoreboard's memory.\<close>

definition alias_free :: "nat \<Rightarrow> u64 set \<Rightarrow> bool" where
  "alias_free N A \<longleftrightarrow> (\<forall>a \<in> A. \<forall>b \<in> A. ram_slot N a = ram_slot N b \<longrightarrow> align_to a 8 = align_to b 8)"

definition consistent :: "nat \<Rightarrow> u64 set \<Rightarrow> gmem \<Rightarrow> ram_model \<Rightarrow> bool" where
  "consistent N A g r \<longleftrightarrow> ram_wf N r \<and> (\<forall>a \<in> A. \<forall>i < 8. \<forall>x. shadow N r a i = Some x \<longrightarrow> x = gbyte g a i)"

text \<open>A step of both memories: knowledge is kept, and what stays unknown does not change.\<close>

definition evolves :: "nat \<Rightarrow> u64 set \<Rightarrow> gmem \<Rightarrow> ram_model \<Rightarrow> gmem \<Rightarrow> ram_model \<Rightarrow> bool" where
  "evolves N A g r g' r' \<longleftrightarrow> consistent N A g' r' \<and>
     (\<forall>b i. i < 8 \<longrightarrow> shadow N r' b i = None \<longrightarrow> shadow N r b i = None \<and> gbyte g' b i = gbyte g b i)"

lemma write_evolves:
  assumes "alias_free N A" "a \<in> A" "consistent N A g r" "ram_wf N r'"
    "\<forall>b. \<forall>i < 8. shadow N r' b i = (if ram_slot N b = ram_slot N a \<and> bit be i then Some (byte_at w i) else shadow N r b i)"
  shows "evolves N A g r (gwrite a w be g) r'"
proof -
  have "x = gbyte (gwrite a w be g) b i" if "b \<in> A" "i < 8" "shadow N r' b i = Some x" for b i x
  proof (cases "ram_slot N b = ram_slot N a")
    case True
    then have "align_to b 8 = align_to a 8" using assms(1,2) that(1) unfolding alias_free_def by blast
    then show ?thesis using assms(3,5) that True by (auto simp: gbyte_gwrite consistent_def split: if_splits)
  next
    case False
    then have "align_to b 8 \<noteq> align_to a 8" by (auto simp: ram_slot_def)
    then show ?thesis using assms(3,5) that False by (auto simp: gbyte_gwrite consistent_def)
  qed
  moreover have "shadow N r b i = None \<and> gbyte (gwrite a w be g) b i = gbyte g b i" if "i < 8" "shadow N r' b i = None" for b i
  proof -
    have "\<not> (ram_slot N b = ram_slot N a \<and> bit be i)" "shadow N r b i = None"
      using assms(5) [rule_format, OF that(1), of b] that(2) by (simp_all split: if_splits)
    moreover have "align_to b 8 = align_to a 8 \<Longrightarrow> ram_slot N b = ram_slot N a" by (simp add: ram_slot_def)
    ultimately show ?thesis using that(1) by (auto simp: gbyte_gwrite)
  qed
  ultimately show ?thesis using assms(4) by (simp add: evolves_def consistent_def)
qed

lemma learn_evolves:
  assumes "alias_free N A" "a \<in> A" "consistent N A g r" "ram_wf N r'"
    "\<forall>b. \<forall>i < 8. shadow N r' b i = (if P \<and> ram_slot N b = ram_slot N a \<and> i \<in> L \<and> shadow N r b i = None
       then Some (byte_at w i) else shadow N r b i)"
    "\<And>i. P \<Longrightarrow> i \<in> L \<Longrightarrow> shadow N r a i = None \<Longrightarrow> byte_at w i = gbyte g a i"
  shows "evolves N A g r g r'"
proof -
  have "x = gbyte g b i" if b: "b \<in> A" "i < 8" "shadow N r' b i = Some x" for b i x
  proof (cases "P \<and> ram_slot N b = ram_slot N a \<and> i \<in> L \<and> shadow N r b i = None")
    case True
    then have "align_to b 8 = align_to a 8" using assms(1,2) b(1) unfolding alias_free_def by blast
    then have "gbyte g b i = gbyte g a i" "shadow N r b i = shadow N r a i" by (simp_all add: gbyte_def shadow_def)
    moreover have "x = byte_at w i" using assms(5) [rule_format, OF b(2), of b] b(3) True by simp
    ultimately show ?thesis using assms(6) [of i] True by simp
  next
    case False
    then have "shadow N r b i = Some x" using assms(5) [rule_format, OF b(2), of b] b(3) by (simp split: if_splits)
    then show ?thesis using assms(3) b(1,2) by (simp add: consistent_def)
  qed
  moreover have "shadow N r b i = None" if "i < 8" "shadow N r' b i = None" for b i
    using assms(5) [rule_format, OF that(1), of b] that(2) by (simp split: if_splits)
  ultimately show ?thesis using assms(4) by (simp add: evolves_def consistent_def)
qed

lemma expects_evolves:
  assumes "expects N g r e resp" "evolves N A g r g' r'"
  shows "expects N g' r' e resp"
proof -
  have "i < 8" if "i \<in> set (lanes e)" "unat (e_addr e) mod 8 + unat (e_bytes e) \<le> 8" for i
    using that by (auto simp: lanes_def Let_def)
  then show ?thesis using assms unfolding expects_def evolves_def by metis
qed

section \<open>Effects and answers of the reference cache\<close>

abbreviation addr64 :: "core_req \<Rightarrow> u64" where "addr64 req \<equiv> ucast (req_addr req)"

definition access_lanes :: "core_req \<Rightarrow> nat list" where
  "access_lanes req = (let b = unat (req_addr req) mod 8 in [b..<b + 2 ^ unat (req_size req)])"

definition in_dword :: "core_req \<Rightarrow> bool" where
  "in_dword req \<longleftrightarrow> unat (req_addr req) mod 8 + 2 ^ unat (req_size req) \<le> 8"

definition right_data :: "gmem \<Rightarrow> core_req \<Rightarrow> core_resp \<Rightarrow> bool" where
  "right_data g req resp \<longleftrightarrow> (\<forall>i \<in> set (access_lanes req). byte_at (rsp_rdata resp) i = gbyte g (addr64 req) i)"

definition plain_effect :: "segment list option \<Rightarrow> core_req \<Rightarrow> gmem \<Rightarrow> gmem" where
  "plain_effect model req g =
     (if is_store req \<and> \<not> faulty model req then gwrite (addr64 req) (req_wdata req) (req_be req) g else g)"

definition plain_answer :: "segment list option \<Rightarrow> gmem \<Rightarrow> core_req \<Rightarrow> core_resp \<Rightarrow> bool" where
  "plain_answer model g req resp \<longleftrightarrow> rsp_tid resp = req_tid req \<and> (is_store req \<or> rsp_error resp = faulty model req) \<and>
     (is_load req \<and> \<not> faulty model req \<longrightarrow> right_data g req resp)"

definition gword :: "gmem \<Rightarrow> u64 \<Rightarrow> u64" where
  "gword g a = le_word (map (gbyte g a) [0..<8])"

definition amo_part :: "core_req \<Rightarrow> u64 \<Rightarrow> u64" where
  "amo_part req v = (if req_size req = 2 then ucast (ucast (drop_bit (unat (req_addr req) mod 8 * 8) v) :: u32) else v)"

definition amo_effect :: "core_req \<Rightarrow> gmem \<Rightarrow> gmem" where
  "amo_effect req g =
     (case compute_amo (req_op req) (amo_part req (gword g (addr64 req))) (amo_part req (req_wdata req)) (2 ^ unat (req_size req)) of
        Inr x \<Rightarrow> gwrite (addr64 req) (push_bit (unat (req_addr req) mod 8 * 8) x) (req_be req) g
      | Inl _ \<Rightarrow> g)"

definition atomic_effect :: "segment list option \<Rightarrow> bool \<Rightarrow> bool \<Rightarrow> core_req \<Rightarrow> gmem \<Rightarrow> gmem" where
  "atomic_effect model fwd ok req g =
     (if atomic_fault model fwd req then g
      else if is_amo req then amo_effect req g
      else if is_amo_sc req \<and> ok then gwrite (addr64 req) (req_wdata req) (req_be req) g
      else g)"

definition sc_value :: "core_req \<Rightarrow> core_resp \<Rightarrow> u64" where
  "sc_value req resp = (if req_size req = 2 then ucast (ucast (rsp_rdata resp) :: u32) else rsp_rdata resp)"

definition atomic_answer :: "segment list option \<Rightarrow> gmem \<Rightarrow> bool \<Rightarrow> bool \<Rightarrow> core_req \<Rightarrow> core_resp \<Rightarrow> bool" where
  "atomic_answer model g fwd ok req resp \<longleftrightarrow> rsp_tid resp = req_tid req \<and> rsp_error resp = atomic_fault model fwd req \<and>
     (\<not> atomic_fault model fwd req \<longrightarrow>
        (if is_amo_sc req then sc_value req resp = (if ok then 0 else 1) else right_data g req resp))"

text \<open>Atomic operations are on words and double words.\<close>

definition atomic_size :: "core_req \<Rightarrow> bool" where
  "atomic_size req \<longleftrightarrow> req_size req = 2 \<or> req_size req = 3"

lemma atomic_size_simps:
  assumes "atomic_size req"
  shows "((2 ^ unat (req_size req) :: u8) = 4) = (req_size req = 2)" "unat (2 ^ unat (req_size req) :: u8) = 2 ^ unat (req_size req)"
    "ucast (2 ^ unat (req_size req) :: u8) = (2 ^ unat (req_size req) :: u32)"
  using assms by (auto simp: atomic_size_def)

lemma byte_at_gword: "i < 8 \<Longrightarrow> byte_at (gword g a) i = gbyte g a i"
  unfolding gword_def by (subst byte_at_le_word) simp_all

lemma amo_part_bytes:
  assumes "atomic_size req" "in_dword req" "\<forall>i \<in> set (access_lanes req). byte_at v i = byte_at w i"
  shows "amo_part req v = amo_part req w"
proof (cases "req_size req = 2")
  case True
  let ?b = "unat (req_addr req) mod 8"
  have b: "?b + 4 \<le> 8" "\<forall>i \<in> {?b..<?b + 4}. byte_at v i = byte_at w i"
    using assms(2,3) True by (simp_all add: in_dword_def access_lanes_def Let_def)
  have sh: "byte_at (ucast (drop_bit (?b * 8) x) :: u32) j = byte_at x (?b + j)" if "j < 4" for x :: u64 and j
  proof (rule bit_word_eqI)
    fix n assume "n < LENGTH(8)"
    then show "bit (byte_at (ucast (drop_bit (?b * 8) x) :: u32) j) n = bit (byte_at x (?b + j)) n"
      using that by (simp add: bitwise bit_simps algebra_simps)
  qed
  have "(ucast (drop_bit (?b * 8) v) :: u32) = ucast (drop_bit (?b * 8) w)"
  proof (rule word_eq_by_bytes [of 4])
    fix i :: nat assume "i < 4"
    then show "byte_at (ucast (drop_bit (?b * 8) v) :: u32) i = byte_at (ucast (drop_bit (?b * 8) w) :: u32) i"
      unfolding sh [OF \<open>i < 4\<close>] using b(2) by simp
  qed simp
  then show ?thesis using True by (simp add: amo_part_def)
next
  case False
  then have three: "req_size req = 3" using assms(1) by (simp add: atomic_size_def)
  then have "unat (req_addr req) mod 8 = 0" using assms(2) by (simp add: in_dword_def)
  then have all: "set (access_lanes req) = {..<8}" using three by (auto simp: access_lanes_def)
  have "v = w"
  proof (rule word_eq_by_bytes [of 8])
    fix i :: nat assume "i < 8"
    then have "i \<in> set (access_lanes req)" unfolding all by simp
    then show "byte_at v i = byte_at w i" using assms(3) by blast
  qed simp
  then show ?thesis by (rule arg_cong)
qed

lemma compute_amo_total: "is_amo req \<Longrightarrow> \<exists>x. compute_amo (req_op req) p q n = Inr x"
  by (auto simp: is_amo_def compute_amo_def Let_def)

lemma evolves_refl: "consistent N A g r \<Longrightarrow> evolves N A g r g r"
  by (simp add: evolves_def)

lemma in_dword_bytes: "in_dword req \<Longrightarrow> unat (2 ^ unat (req_size req) :: u8) = 2 ^ unat (req_size req)"
  using size_byte(1) [of req "scoreboard_new (make_lr 0) (ram_new 8 (\<lambda>_. 0))"]
  by (simp add: plain_access_def in_dword_def scoreboard_new_def)

lemma entry_lanes:
  assumes "e_addr e = addr64 req" "e_bytes e = 2 ^ unat (req_size req)" "in_dword req"
  shows "lanes e = access_lanes req" "unat (e_addr e) mod 8 + unat (e_bytes e) \<le> 8"
  using assms in_dword_bytes [OF assms(3)] by (simp_all add: lanes_def access_lanes_def in_dword_def unat_addr64 Let_def)

text \<open>The expected bytes of an entry are those of the reference memory.\<close>

definition rv_right :: "gmem \<Rightarrow> inflight_entry \<Rightarrow> bool" where
  "rv_right g e \<longleftrightarrow> (\<forall>i < 8. bit (e_rv e) i \<longrightarrow> byte_at (e_rdata e) i = gbyte g (e_addr e) i)"

lemma knows_right:
  assumes "consistent N A g r" "e_addr e \<in> A" "knows N r e"
  shows "rv_right g e"
proof (unfold rv_right_def, intro allI impI)
  fix i :: nat assume "i < 8" "bit (e_rv e) i"
  then have "shadow N r (e_addr e) i = Some (byte_at (e_rdata e) i)" using assms(3) unfolding knows_def by metis
  then show "byte_at (e_rdata e) i = gbyte g (e_addr e) i"
    using assms(1,2) \<open>i < 8\<close> unfolding consistent_def by blast
qed

text \<open>An entry whose data are right is answered with right data.\<close>

lemma right_bytes:
  assumes "e_addr e = addr64 req" "e_bytes e = 2 ^ unat (req_size req)" "in_dword req" "rv_right g e" "right_data g req resp"
  shows "\<forall>i \<in> set (lanes e). bit (e_rv e) i \<longrightarrow> byte_at (e_rdata e) i = byte_at (rsp_rdata resp) i"
    "\<forall>i \<in> set (lanes e). byte_at (rsp_rdata resp) i = gbyte g (e_addr e) i"
proof -
  note ln = entry_lanes [OF assms(1-3)]
  have lt: "i < 8" if "i \<in> set (lanes e)" for i using that ln(2) by (auto simp: lanes_def Let_def)
  show r: "\<forall>i \<in> set (lanes e). byte_at (rsp_rdata resp) i = gbyte g (e_addr e) i"
    using assms(5) unfolding right_data_def ln(1) assms(1) .
  show "\<forall>i \<in> set (lanes e). bit (e_rv e) i \<longrightarrow> byte_at (e_rdata e) i = byte_at (rsp_rdata resp) i"
    using r assms(4) lt unfolding rv_right_def by metis
qed

lemma settled_same: "settled resp (ram_m s) s = release_id (unat (rsp_tid resp)) (s\<lparr>nb_core_resp := nb_core_resp s + 1,
    nb_cycles_effective := nb_cycles s, inflight_m := map_erase (ucast (rsp_tid resp)) (inflight_m s)\<rparr>)"
  unfolding settled_def by (rule arg_cong [of _ _ "release_id _"]) (rule scoreboard.equality, simp_all)

lemma amo_response:
  assumes "alias_free N A" "addr64 req \<in> A" "consistent N A g (ram_m t)" "is_amo req" "atomic_size req" "in_dword req"
    "map_find (inflight_m t) (ucast (rsp_tid resp)) = Some e" "rv_right g e" "right_data g req resp" "\<not> rsp_error resp"
    "e_addr e = addr64 req" "e_bytes e = 2 ^ unat (req_size req)" "\<not> e_is_read e" "\<not> e_is_write e" "e_is_amo e" "\<not> e_is_amo_lr e"
    "\<not> e_is_amo_sc e" "e_op e = req_op req" "e_wdata e = req_wdata req" "e_be e = req_be req" "\<not> e_is_error e"
  shows "\<exists>r. core_resp_process N resp t = Inr (settled resp r t) \<and> evolves N A g (ram_m t) (amo_effect req g) r"
proof -
  let ?t = "t\<lparr>nb_core_resp := nb_core_resp t + 1, nb_cycles_effective := nb_cycles t\<rparr>"
  let ?off = "unat (req_addr req) mod 8 * 8"
  note ln = entry_lanes [OF assms(11,12,6)] and rb = right_bytes [OF assms(11,12,6,8,9)]
  have cb: "check_bytes resp e ?t = Inr ?t" by (rule check_bytes_clean [OF ln(2) rb(1)])
  have part: "amo_part req (rsp_rdata resp) = amo_part req (gword g (addr64 req))"
  proof (rule amo_part_bytes [OF assms(5,6)], rule ballI)
    fix i assume i: "i \<in> set (access_lanes req)"
    then have "i < 8" using assms(6) by (auto simp: access_lanes_def in_dword_def Let_def)
    then show "byte_at (rsp_rdata resp) i = byte_at (gword g (addr64 req)) i"
      using i assms(9) byte_at_gword by (simp add: right_data_def)
  qed
  obtain x where x: "compute_amo (req_op req) (amo_part req (gword g (addr64 req))) (amo_part req (req_wdata req)) (2 ^ unat (req_size req)) = Inr x"
    using compute_amo_total [OF assms(4)] by blast
  have wf: "ram_wf N (ram_m t)" using assms(3) by (simp add: consistent_def)
  obtain r where r: "ram_write N (ram_m t) (le_bytes 8 (push_bit ?off x)) [req_be req] 8 (align_to (addr64 req) 8) = Inr r" "ram_wf N r"
    "\<forall>b. \<forall>i < 8. shadow N r b i = (if ram_slot N b = ram_slot N (addr64 req) \<and> bit (req_be req) i then Some (byte_at (push_bit ?off x) i) else shadow N (ram_m t) b i)"
    using ram_write_all [OF wf] by blast
  have "amo_update N resp e ?t = Inr (?t\<lparr>ram_m := r\<rparr>)"
  proof -
    have ap: "amo_part req v = (if e_bytes e = 4 then ucast (ucast (drop_bit (unat (e_addr e) mod 8 * 8) v) :: u32) else v)" for v
      using atomic_size_simps(1) [OF assms(5)] by (simp add: amo_part_def assms(11,12) unat_addr64)
    show ?thesis using x r(1) part atomic_size_simps(3) [OF assms(5)]
      unfolding amo_update_def Let_def assms(18,19,20) ap [symmetric] by (simp add: assms(11,12) unat_addr64)
  qed
  then have "core_resp_process N resp t = Inr (settled resp r t)"
    using assms(7,10,13-17,21) cb by (simp add: core_resp_process_def check_sc_def check_data_def settled_def Let_def)
  moreover have "evolves N A g (ram_m t) (amo_effect req g) r"
    using write_evolves [OF assms(1-3) r(2,3)] x by (simp add: amo_effect_def)
  ultimately show ?thesis by blast
qed

lemma sc_response:
  assumes "alias_free N A" "addr64 req \<in> A" "consistent N A g (ram_m t)" "is_amo_sc req" "atomic_size req"
    "map_find (inflight_m t) (ucast (rsp_tid resp)) = Some e" "sc_value req resp = (if ok then 0 else 1)" "\<not> rsp_error resp"
    "e_addr e = addr64 req" "e_bytes e = 2 ^ unat (req_size req)" "\<not> e_is_read e" "\<not> e_is_write e" "\<not> e_is_amo e" "\<not> e_is_amo_lr e"
    "e_is_amo_sc e" "e_wdata e = req_wdata req" "e_be e = req_be req" "\<not> e_is_error e" "(e_is_atomic e \<and> sc_is_atomic t) = ok"
  shows "\<exists>r. core_resp_process N resp t = Inr (settled resp r t) \<and>
     evolves N A g (ram_m t) (if ok then gwrite (addr64 req) (req_wdata req) (req_be req) g else g) r"
proof -
  have wf: "ram_wf N (ram_m t)" using assms(3) by (simp add: consistent_def)
  have v: "(if e_bytes e = 4 then ucast (ucast (rsp_rdata resp) :: u32) else rsp_rdata resp) = sc_value req resp"
    using atomic_size_simps(1) [OF assms(5)] by (simp add: sc_value_def assms(10))
  show ?thesis
  proof (cases ok)
    case True
    obtain r where r: "ram_write N (ram_m t) (le_bytes 8 (req_wdata req)) [req_be req] 8 (align_to (addr64 req) 8) = Inr r" "ram_wf N r"
      "\<forall>b. \<forall>i < 8. shadow N r b i = (if ram_slot N b = ram_slot N (addr64 req) \<and> bit (req_be req) i then Some (byte_at (req_wdata req) i) else shadow N (ram_m t) b i)"
      using ram_write_all [OF wf] by blast
    have "core_resp_process N resp t = Inr (settled resp r t)"
      using assms(6,8,11-15,18,19) True r(1) assms(7) v
      by (simp add: core_resp_process_def check_sc_def check_data_def settled_def Let_def assms(9,16,17))
    then show ?thesis using write_evolves [OF assms(1-3) r(2,3)] True by auto
  next
    case False
    have "core_resp_process N resp t = Inr (settled resp (ram_m t) t)"
      using assms(6,8,11-15,18,19) False assms(7) v
      by (auto simp: core_resp_process_def check_sc_def check_data_def settled_same Let_def)
    then show ?thesis using evolves_refl [OF assms(3)] False by auto
  qed
qed

section \<open>The answer to an atomic request\<close>

lemma settled_fields [simp]:
  "ram_m (settled resp r s) = r" "sb_log (settled resp r s) = sb_log s" "nb_error (settled resp r s) = nb_error s"
  "evts (settled resp r s) = evts s" "mem_resp_model (settled resp r s) = mem_resp_model s"
  "inflight_amo_req_m (settled resp r s) = inflight_amo_req_m s" "lrsc_buf_m (settled resp r s) = lrsc_buf_m s"
  "seq_ids (settled resp r s) = snd (deallocate_id (unat (rsp_tid resp)) (seq_ids s))"
  "nb_core_resp (settled resp r s) = nb_core_resp s + 1" "nb_core_req_need_rsp (settled resp r s) = nb_core_req_need_rsp s"
  "inflight_m (settled resp r s) = map_erase (ucast (rsp_tid resp)) (inflight_m s)"
  "reads_out (settled resp r s) = reads_out s" "writes_out (settled resp r s) = writes_out s"
  "sc_is_atomic (settled resp r s) = sc_is_atomic s"
  by (simp_all add: settled_def release_id_def reads_out_def writes_out_def)

lemma atomic_response:
  assumes "alias_free N A" "addr64 req \<in> A" "consistent N A g (ram_m t)" "atomic_op req" "atomic_size req" "in_dword req"
    and e: "map_find (inflight_m t) (ucast (req_tid req)) = Some e" "atomic_entry model fwd req e"
      "\<not> is_amo_sc req \<and> \<not> atomic_fault model fwd req \<longrightarrow> rv_right g e"
    and sc: "is_amo_sc req \<Longrightarrow> (fwd \<and> sc_is_atomic t) = ok" and ans: "atomic_answer model g fwd ok req resp"
  shows "\<exists>r. core_resp_process N resp t = Inr (settled resp r t) \<and> evolves N A g (ram_m t) (atomic_effect model fwd ok req g) r"
proof (cases "atomic_fault model fwd req")
  case True
  then have "core_resp_process N resp t = Inr (settled resp (ram_m t) t)"
    using e(1) atomic_entryD(4,10) [OF e(2)] ans by (simp add: core_resp_process_def settled_same atomic_answer_def Let_def)
  then show ?thesis using True evolves_refl [OF assms(3)] by (auto simp: atomic_effect_def)
next
  case ok: False
  note f = atomic_entryD [OF e(2)]
  have found: "map_find (inflight_m t) (ucast (rsp_tid resp)) = Some e" "\<not> rsp_error resp" "\<not> e_is_error e"
    using e(1) f(10) ans ok by (simp_all add: atomic_answer_def)
  consider (amo) "is_amo req" | (lr) "is_amo_lr req" | (sc) "is_amo_sc req" using assms(4) by (auto simp: atomic_op_def)
  then show ?thesis
  proof cases
    case amo
    note x = op_exclusive(3) [OF amo]
    have "right_data g req resp" "rv_right g e" using ans ok x e(3) by (simp_all add: atomic_answer_def)
    then have "\<exists>r. core_resp_process N resp t = Inr (settled resp r t) \<and> evolves N A g (ram_m t) (amo_effect req g) r"
      using amo_response [OF assms(1-3) amo assms(5,6) found(1)] found(2,3) f(1-9) x amo by blast
    then show ?thesis using amo ok by (simp add: atomic_effect_def)
  next
    case lr
    note x = op_exclusive(5) [OF lr]
    have kn: "right_data g req resp" "rv_right g e" using ans ok x e(3) by (simp_all add: atomic_answer_def)
    note rb = right_bytes [OF f(1,2) assms(6) kn(2,1)] and ln = entry_lanes [OF f(1,2) assms(6)]
    have "expects N g (ram_m t) e resp" using rb ln(2) found(2,3) f(5,7) x by (simp add: expects_def)
    from plain_response [OF _ found(1) this] obtain r where r: "core_resp_process N resp t = Inr (settled resp r t)" "ram_wf N r"
      "\<forall>b. \<forall>i < 8. shadow N r b i = (if (reads e \<and> \<not> e_is_error e) \<and> ram_slot N b = ram_slot N (e_addr e) \<and> i \<in> set (lanes e) \<and>
         shadow N (ram_m t) b i = None then Some (byte_at (rsp_rdata resp) i) else shadow N (ram_m t) b i)"
      using assms(3) unfolding consistent_def by blast
    have "evolves N A g (ram_m t) g r"
      by (rule learn_evolves [OF assms(1) _ assms(3) r(2,3)]) (use f(1) assms(2) rb(2) in auto)
    then show ?thesis using r(1) lr x ok by (auto simp: atomic_effect_def)
  next
    case sc
    note x = op_exclusive(4) [OF sc]
    have "sc_value req resp = (if ok then 0 else 1)" using ans ok sc by (simp add: atomic_answer_def)
    moreover have "(e_is_atomic e \<and> sc_is_atomic t) = ok" using f(11) sc assms(10) by simp
    ultimately have "\<exists>r. core_resp_process N resp t = Inr (settled resp r t) \<and>
        evolves N A g (ram_m t) (if ok then gwrite (addr64 req) (req_wdata req) (req_be req) g else g) r"
      using sc_response [OF assms(1-3) sc assms(5) found(1)] found(2,3) f(1-9) x sc by blast
    then show ?thesis using sc x ok by (auto simp: atomic_effect_def)
  qed
qed

end
