(* ===== verification/Scoreboard_Sound.thy ===== *)
theory Scoreboard_Sound
  imports Scoreboard_Ref Sequence_Lib
begin

text \<open>
  The scoreboard is a monitor; this theory shows that it raises no false alarm. The reference cache is a
  state machine of its own, with its own memory and reservation, that never looks at the scoreboard;
  whatever it does, the scoreboard prints nothing, and at the end its final checks pass.
\<close>

section \<open>The reference cache\<close>

text \<open>
  The reference cache performs a load, store or cache management request on its memory when it accepts it and
  answers it later (\<open>rpend\<close> holds the answers to come). It keeps one optional reserved double word, and works on at most
  one atomic request at a time: an atomic request waits for its turn on the memory side (\<open>Waiting\<close>), is sent
  (\<open>Sent\<close> with its identifier), and is done when its data or, for a store-exclusive, its verdict is back
  (\<open>Done\<close>); a store-conditional without reservation is done at once, and fails. \<open>fwd\<close> says whether it goes to the memory.
\<close>

datatype stage = Waiting | Sent u32 | Done bool

type_synonym atomic_state = "core_req \<times> bool \<times> stage"

record ref_cache =
  rmem :: gmem
  rpend :: "6 word \<rightharpoonup> core_resp"
  rresv :: "u64 option"
  rreads :: "u32 set"
  rwrites :: "u32 set"
  ratomic :: "atomic_state option"

definition ref_new :: "gmem \<Rightarrow> ref_cache" where
  "ref_new g = \<lparr>rmem = g, rpend = Map.empty, rresv = None, rreads = {}, rwrites = {}, ratomic = None\<rparr>"

text \<open>The identifiers of the requests that are not answered yet.\<close>

definition busy :: "ref_cache \<Rightarrow> 6 word set" where
  "busy c = dom (rpend c) \<union> (case ratomic c of None \<Rightarrow> {} | Some (req, _) \<Rightarrow> {req_tid req})"

text \<open>The double word of the atomic request under way is not accessed by another request.\<close>

definition apart :: "ref_cache \<Rightarrow> core_req \<Rightarrow> bool" where
  "apart c req \<longleftrightarrow> (case ratomic c of None \<Rightarrow> True
     | Some (a, _) \<Rightarrow> align_to (addr64 req) 8 \<noteq> align_to (addr64 a) 8)"

definition admitted :: "u64 set \<Rightarrow> ref_cache \<Rightarrow> core_req \<Rightarrow> bool" where
  "admitted A c req \<longleftrightarrow> req_need_rsp req \<and> in_dword req \<and> addr64 req \<in> A \<and> req_tid req \<notin> busy c"

text \<open>A response of the memory settles the atomic request it belongs to: the last read data of a load-reserved or
  atomic operation, the write response of a store-exclusive.\<close>

fun after_read :: "mem_read_resp \<Rightarrow> atomic_state \<Rightarrow> atomic_state" where
  "after_read r (req, fwd, st) = (req, fwd, if st = Sent (rid r) \<and> rlast r \<and> \<not> is_amo_sc req then Done True else st)"

fun after_write :: "mem_write_resp \<Rightarrow> atomic_state \<Rightarrow> atomic_state" where
  "after_write r (req, fwd, st) = (req, fwd, if st = Sent (wid r) \<and> is_amo_sc req then Done (is_atomic r) else st)"

text \<open>A store-conditional whose verdict is back but whose answer is still to come. The scoreboard keeps the flag of
  the last write response only, so that another write response at this time would change its expectation.\<close>

definition sc_judged :: "ref_cache \<Rightarrow> bool" where
  "sc_judged c \<longleftrightarrow> (case ratomic c of Some (req, fwd, Done ok) \<Rightarrow> is_amo_sc req \<and> fwd | _ \<Rightarrow> False)"

inductive ref_step :: "u64 set \<Rightarrow> segment list \<Rightarrow> ref_cache \<Rightarrow> sb_event \<Rightarrow> ref_cache \<Rightarrow> bool" for A segs c where
  rs_issue: "plain_op req \<Longrightarrow> admitted A c req \<Longrightarrow> apart c req \<Longrightarrow> plain_answer (Some segs) (rmem c) req resp \<Longrightarrow>
    ref_step A segs c (CoreReq junk req) (c\<lparr>rmem := plain_effect (Some segs) req (rmem c),
      rpend := (rpend c)(req_tid req \<mapsto> resp), rresv := lr_spec (Some segs) req (rresv c)\<rparr>)"
| rs_cmo: "is_cmo req \<Longrightarrow> \<not> req_need_rsp req \<Longrightarrow> req_tid req \<notin> busy c \<Longrightarrow> ref_step A segs c (CoreReq junk req) c"
| rs_atomic: "atomic_op req \<Longrightarrow> atomic_size req \<Longrightarrow> admitted A c req \<Longrightarrow> ratomic c = None \<Longrightarrow> fwd = goes_out (rresv c) req \<Longrightarrow>
    ref_step A segs c (CoreReq junk req) (c\<lparr>ratomic := Some (req, fwd, if fwd then Waiting else Done False),
      rresv := lr_spec (Some segs) req (rresv c)\<rparr>)"
| rs_answer: "rpend c t = Some resp \<Longrightarrow> ref_step A segs c (CoreResp resp) (c\<lparr>rpend := (rpend c)(t := None)\<rparr>)"
| rs_answer_atomic: "ratomic c = Some (req, fwd, Done ok) \<Longrightarrow> atomic_answer (Some segs) (rmem c) fwd ok req resp \<Longrightarrow>
    ref_step A segs c (CoreResp resp) (c\<lparr>rmem := atomic_effect (Some segs) fwd ok req (rmem c), ratomic := None\<rparr>)"
| rs_read: "\<not> mem_is_ldex q \<Longrightarrow> unat (msize q) < 64 \<Longrightarrow> mid q \<notin> rreads c \<Longrightarrow>
    ref_step A segs c (MemReadReq q) (c\<lparr>rreads := insert (mid q) (rreads c)\<rparr>)"
| rs_read_lr: "ratomic c = Some (req, fwd, Waiting) \<Longrightarrow> is_amo_lr req \<Longrightarrow> mem_is_ldex q \<Longrightarrow> unat (msize q) < 64 \<Longrightarrow>
    mid q \<notin> rreads c \<Longrightarrow>
    ref_step A segs c (MemReadReq q) (c\<lparr>rreads := insert (mid q) (rreads c), ratomic := Some (req, fwd, Sent (mid q))\<rparr>)"
| rs_write: "\<not> mem_is_amo w \<Longrightarrow> \<not> mem_is_stex w \<Longrightarrow> unat (msize w) < 64 \<Longrightarrow> mid w \<notin> rwrites c \<Longrightarrow>
    ref_step A segs c (MemWriteReq w) (c\<lparr>rwrites := insert (mid w) (rwrites c)\<rparr>)"
| rs_write_amo: "ratomic c = Some (req, fwd, Waiting) \<Longrightarrow> is_amo req \<Longrightarrow> mem_is_amo w \<Longrightarrow> unat (msize w) < 64 \<Longrightarrow>
    mid w \<notin> rwrites c \<Longrightarrow> mid w \<notin> rreads c \<Longrightarrow>
    ref_step A segs c (MemWriteReq w) (c\<lparr>rreads := insert (mid w) (rreads c), rwrites := insert (mid w) (rwrites c),
      ratomic := Some (req, fwd, Sent (mid w))\<rparr>)"
| rs_write_sc: "ratomic c = Some (req, fwd, Waiting) \<Longrightarrow> is_amo_sc req \<Longrightarrow> mem_is_stex w \<Longrightarrow> unat (msize w) < 64 \<Longrightarrow>
    mid w \<notin> rwrites c \<Longrightarrow>
    ref_step A segs c (MemWriteReq w) (c\<lparr>rwrites := insert (mid w) (rwrites c), ratomic := Some (req, fwd, Sent (mid w))\<rparr>)"
| rs_read_data: "rid r \<in> rreads c \<Longrightarrow>
    ref_step A segs c (MemReadResp r) (c\<lparr>rreads := (if rlast r then rreads c - {rid r} else rreads c),
      ratomic := map_option (after_read r) (ratomic c)\<rparr>)"
| rs_written: "wid r \<in> rwrites c \<Longrightarrow> \<not> sc_judged c \<Longrightarrow>
    ref_step A segs c (MemWriteResp r) (c\<lparr>rwrites := rwrites c - {wid r}, ratomic := map_option (after_write r) (ratomic c)\<rparr>)"
| rs_clock: "ref_step A segs c (PerfEvents i) c"

text \<open>The scoreboard beside the reference cache. The sequence has registered the identifier of a request before the
  scoreboard sees it. A run starts with the scoreboard as the testbench sets it up, before it has seen anything of
  the memory; its reservation buffer, which the code leaves uninitialised, is assumed to be invalid.\<close>

definition registered :: "core_req \<Rightarrow> scoreboard \<Rightarrow> scoreboard" where
  "registered req s = set_sequence (seq_ids s @ [unat (req_tid req)]) s"

fun arrive :: "sb_event \<Rightarrow> scoreboard \<Rightarrow> scoreboard" where
  "arrive (CoreReq junk req) s = registered req s"
| "arrive ev s = s"

inductive ref_run :: "nat \<Rightarrow> u64 set \<Rightarrow> segment list \<Rightarrow> ref_cache \<Rightarrow> scoreboard \<Rightarrow> bool" for N A segs where
  ref_start: "\<not> lr_valid lr \<Longrightarrow>
    ref_run N A segs (ref_new g) (set_error_limit lim (set_mem_resp_model segs (scoreboard_new lr (ram_new N junk))))"
| ref_next: "ref_run N A segs c s \<Longrightarrow> ref_step A segs c ev c' \<Longrightarrow> sb_step N ev (arrive ev s) = Inr s' \<Longrightarrow> ref_run N A segs c' s'"

section \<open>The invariant\<close>

text \<open>Every pending answer is the one the scoreboard expects.\<close>

definition pend_inv :: "nat \<Rightarrow> u64 set \<Rightarrow> gmem \<Rightarrow> (6 word \<rightharpoonup> core_resp) \<Rightarrow> scoreboard \<Rightarrow> bool" where
  "pend_inv N A g p s \<longleftrightarrow> (\<forall>t resp. p t = Some resp \<longrightarrow> rsp_tid resp = t \<and>
     (\<exists>e. map_find (inflight_m s) (ucast t) = Some e \<and> e_addr e \<in> A \<and> expects N g (ram_m s) e resp))"

definition atomic_inv :: "u64 set \<Rightarrow> segment list \<Rightarrow> ref_cache \<Rightarrow> scoreboard \<Rightarrow> bool" where
  "atomic_inv A segs c s \<longleftrightarrow> (case ratomic c of None \<Rightarrow> inflight_amo_req_m s = []
     | Some (req, fwd, st) \<Rightarrow>
         atomic_op req \<and> atomic_size req \<and> in_dword req \<and> addr64 req \<in> A \<and> rpend c (req_tid req) = None \<and>
         (\<exists>e. map_find (inflight_m s) (ucast (req_tid req)) = Some e \<and> atomic_entry (Some segs) fwd req e \<and>
            (\<not> is_amo_sc req \<and> \<not> atomic_fault (Some segs) fwd req \<longrightarrow> rv_right (rmem c) e) \<and>
            inflight_amo_req_m s = (if st = Waiting then [e] else [])) \<and>
         (case st of Done ok \<Rightarrow> is_amo_sc req \<longrightarrow> (fwd \<and> sc_is_atomic s) = ok | _ \<Rightarrow> fwd))"

text \<open>The identifiers: those registered are those not answered, and the counters differ by their number.\<close>

definition ids_inv :: "6 word set \<Rightarrow> scoreboard \<Rightarrow> bool" where
  "ids_inv B s \<longleftrightarrow> distinct (seq_ids s) \<and> set (seq_ids s) = unat ` B \<and>
     nb_core_resp s + of_nat (card B) = nb_core_req_need_rsp s \<and> (\<forall>t. t \<notin> B \<longrightarrow> map_find (inflight_m s) (ucast t) = None)"

definition ref_inv :: "nat \<Rightarrow> u64 set \<Rightarrow> segment list \<Rightarrow> ref_cache \<Rightarrow> scoreboard \<Rightarrow> bool" where
  "ref_inv N A segs c s \<longleftrightarrow> consistent N A (rmem c) (ram_m s) \<and> sb_log s = [] \<and> nb_error s = 0 \<and>
     mem_resp_model s = Some segs \<and> lr_abs (lrsc_buf_m s) = rresv c \<and> reads_out s = rreads c \<and> writes_out s = rwrites c \<and>
     pend_inv N A (rmem c) (rpend c) s \<and> atomic_inv A segs c s \<and> ids_inv (busy c) s"

lemma ref_invD:
  assumes "ref_inv N A segs c s"
  shows "consistent N A (rmem c) (ram_m s)" "sb_log s = []" "nb_error s = 0" "mem_resp_model s = Some segs"
    "lr_abs (lrsc_buf_m s) = rresv c" "reads_out s = rreads c" "writes_out s = rwrites c"
    "pend_inv N A (rmem c) (rpend c) s" "atomic_inv A segs c s" "ids_inv (busy c) s"
  using assms by (simp_all add: ref_inv_def)

lemma ucast_tid_eq [simp]: "(ucast (t :: 6 word) = (ucast t' :: u32)) = (t = t')"
  by (metis unat_rsp_tid word_unat_eq_iff)

lemma registered_fields [simp]:
  "ram_m (registered req s) = ram_m s" "inflight_m (registered req s) = inflight_m s" "sb_log (registered req s) = sb_log s"
  "nb_error (registered req s) = nb_error s" "mem_resp_model (registered req s) = mem_resp_model s"
  "inflight_amo_req_m (registered req s) = inflight_amo_req_m s" "seq_ids (registered req s) = seq_ids s @ [unat (req_tid req)]"
  "nb_core_resp (registered req s) = nb_core_resp s" "nb_core_req_need_rsp (registered req s) = nb_core_req_need_rsp s"
  "lrsc_buf_m (registered req s) = lrsc_buf_m s" "sc_is_atomic (registered req s) = sc_is_atomic s"
  "reads_out (registered req s) = reads_out s" "writes_out (registered req s) = writes_out s"
  by (simp_all add: registered_def set_sequence_def reads_out_def writes_out_def)

lemma out_updates [simp]:
  "reads_out (s\<lparr>lrsc_buf_m := b\<rparr>) = reads_out s" "writes_out (s\<lparr>lrsc_buf_m := b\<rparr>) = writes_out s"
  "reads_out (s\<lparr>ram_m := r\<rparr>) = reads_out s" "writes_out (s\<lparr>ram_m := r\<rparr>) = writes_out s"
  "reads_out (s\<lparr>inflight_m := m\<rparr>) = reads_out s" "writes_out (s\<lparr>inflight_m := m\<rparr>) = writes_out s"
  "reads_out (s\<lparr>inflight_amo_req_m := q\<rparr>) = reads_out s" "writes_out (s\<lparr>inflight_amo_req_m := q\<rparr>) = writes_out s"
  "reads_out (s\<lparr>nb_core_req := n\<rparr>) = reads_out s" "writes_out (s\<lparr>nb_core_req := n\<rparr>) = writes_out s"
  "reads_out (s\<lparr>nb_core_req_need_rsp := n\<rparr>) = reads_out s" "writes_out (s\<lparr>nb_core_req_need_rsp := n\<rparr>) = writes_out s"
  "reads_out (counted req s) = reads_out s" "writes_out (counted req s) = writes_out s"
  by (simp_all add: reads_out_def writes_out_def counted_def)

lemma busy_simps [simp]:
  "busy (c\<lparr>rmem := g\<rparr>) = busy c" "busy (c\<lparr>rresv := R\<rparr>) = busy c" "busy (c\<lparr>rreads := X\<rparr>) = busy c" "busy (c\<lparr>rwrites := X\<rparr>) = busy c"
  by (simp_all add: busy_def)

lemma inj_tid: "inj (unat :: 6 word \<Rightarrow> nat)"
  by (rule injI) (simp add: word_unat_eq_iff)

lemma ids_take:
  assumes "ids_inv B s" "t \<notin> B" "seq_ids s' = seq_ids s @ [unat t]" "nb_core_resp s' = nb_core_resp s"
    "nb_core_req_need_rsp s' = nb_core_req_need_rsp s + 1"
    "\<And>u. u \<noteq> t \<Longrightarrow> map_find (inflight_m s') (ucast u) = map_find (inflight_m s) (ucast u)"
  shows "ids_inv (insert t B) s'"
proof -
  have "unat t \<notin> unat ` B" using assms(2) inj_image_mem_iff [OF inj_tid] by blast
  then show ?thesis using assms by (auto simp: ids_inv_def card_insert_if algebra_simps)
qed

lemma ids_release:
  assumes "ids_inv B s" "t \<in> B" "seq_ids s' = snd (deallocate_id (unat t) (seq_ids s))" "nb_core_resp s' = nb_core_resp s + 1"
    "nb_core_req_need_rsp s' = nb_core_req_need_rsp s" "inflight_m s' = map_erase (ucast t) (inflight_m s)"
  shows "ids_inv (B - {t}) s'"
proof -
  have "unat t \<in> set (seq_ids s)" using assms(1,2) by (simp add: ids_inv_def)
  then have ids: "seq_ids s' = remove1 (unat t) (seq_ids s)" by (simp add: assms(3) deallocate_id_def)
  have "card B = Suc (card (B - {t}))" using assms(2) card_Suc_Diff1 [of B t] by simp
  then show ?thesis
    using assms(1,4-6) image_set_diff [OF inj_tid, of B "{t}"] by (auto simp: ids_inv_def ids algebra_simps)
qed

lemma pend_evolves:
  assumes "pend_inv N A g p s" "evolves N A g (ram_m s) g' (ram_m s')"
    "\<And>t. p t \<noteq> None \<Longrightarrow> map_find (inflight_m s') (ucast t) = map_find (inflight_m s) (ucast t)"
  shows "pend_inv N A g' p s'"
  unfolding pend_inv_def
proof (intro allI impI)
  fix t resp assume p: "p t = Some resp"
  then show "rsp_tid resp = t \<and> (\<exists>e. map_find (inflight_m s') (ucast t) = Some e \<and> e_addr e \<in> A \<and> expects N g' (ram_m s') e resp)"
    using assms(1) assms(3) [of t] expects_evolves [OF _ assms(2)] unfolding pend_inv_def by fastforce
qed

text \<open>The atomic request under way is not disturbed by what happens elsewhere.\<close>

lemma atomic_inv_same:
  assumes "atomic_inv A segs c s" "ratomic c' = ratomic c" "inflight_amo_req_m s' = inflight_amo_req_m s"
    and "sc_is_atomic s' = sc_is_atomic s \<or> \<not> sc_judged c"
    and "\<And>req fwd st. ratomic c = Some (req, fwd, st) \<Longrightarrow> rpend c' (req_tid req) = None \<and>
       map_find (inflight_m s') (ucast (req_tid req)) = map_find (inflight_m s) (ucast (req_tid req)) \<and>
       (\<forall>i < 8. gbyte (rmem c') (addr64 req) i = gbyte (rmem c) (addr64 req) i)"
  shows "atomic_inv A segs c' s'"
proof (cases "ratomic c")
  case None
  then show ?thesis using assms(1-3) by (simp add: atomic_inv_def)
next
  case (Some x)
  obtain req fwd st where x: "x = (req, fwd, st)" by (cases x)
  obtain e where e: "atomic_op req" "atomic_size req" "in_dword req" "addr64 req \<in> A"
    "map_find (inflight_m s) (ucast (req_tid req)) = Some e" "atomic_entry (Some segs) fwd req e"
    "\<not> is_amo_sc req \<and> \<not> atomic_fault (Some segs) fwd req \<longrightarrow> rv_right (rmem c) e"
    "inflight_amo_req_m s = (if st = Waiting then [e] else [])"
    "case st of Done ok \<Rightarrow> is_amo_sc req \<longrightarrow> (fwd \<and> sc_is_atomic s) = ok | _ \<Rightarrow> fwd"
    using assms(1) unfolding atomic_inv_def Some x by auto
  note k = assms(5) [OF Some [unfolded x]]
  have "rv_right (rmem c') e" if "rv_right (rmem c) e"
    using that k atomic_entryD(1) [OF e(6)] by (simp add: rv_right_def)
  moreover have "case st of Done ok \<Rightarrow> is_amo_sc req \<longrightarrow> (fwd \<and> sc_is_atomic s') = ok | _ \<Rightarrow> fwd"
    using e(9) assms(4) Some x by (cases st) (auto simp: sc_judged_def)
  ultimately show ?thesis
    unfolding atomic_inv_def using Some x assms(2,3) e(1-8) k by auto
qed

section \<open>The steps keep the invariant\<close>

lemma busy_issue [simp]: "busy (c\<lparr>rpend := (rpend c)(t \<mapsto> resp)\<rparr>) = insert t (busy c)"
  by (auto simp: busy_def)

lemma plain_effect_apart:
  assumes "align_to (addr64 req) 8 \<noteq> align_to (addr64 a) 8" "i < 8"
  shows "gbyte (plain_effect model req g) (addr64 a) i = gbyte g (addr64 a) i"
  using assms by (auto simp: plain_effect_def gbyte_gwrite)

lemma inv_issue:
  assumes "alias_free N A" "ref_inv N A segs c s" "plain_op req" "admitted A c req" "apart c req"
    "plain_answer (Some segs) (rmem c) req resp"
  defines "c' \<equiv> c\<lparr>rmem := plain_effect (Some segs) req (rmem c), rpend := (rpend c)(req_tid req \<mapsto> resp),
      rresv := lr_spec (Some segs) req (rresv c)\<rparr>"
  shows "\<exists>s'. core_req_process N junk req (registered req s) = Inr s' \<and> ref_inv N A segs c' s'"
proof -
  note inv = ref_invD [OF assms(2)]
  have ad: "req_need_rsp req" "in_dword req" "addr64 req \<in> A" "req_tid req \<notin> busy c" using assms(4) by (simp_all add: admitted_def)
  have wf: "ram_wf N (ram_m (registered req s))" using inv(1) by (simp add: consistent_def)
  have free: "free_id req (registered req s)" using inv(10) ad(4) by (simp add: ids_inv_def)
  obtain e b r where e: "core_req_process N junk req (registered req s) =
       Inr ((counted req (registered req s))\<lparr>lrsc_buf_m := b, ram_m := r, inflight_m := map_insert (ucast (req_tid req)) e (inflight_m s)\<rparr>)"
       (is "_ = Inr ?s")
     and r: "ram_wf N r" and f: "e_addr e = addr64 req" "e_bytes e = 2 ^ unat (req_size req)" "e_is_read e = is_load req"
     "e_is_write e = is_store req" "\<not> e_is_amo e" "\<not> e_is_amo_sc e" "\<not> e_is_amo_lr e" "e_is_error e = faulty (Some segs) req"
     "is_load req \<and> \<not> faulty (Some segs) req \<longrightarrow> knows N (ram_m s) e"
     and sh: "\<forall>a. \<forall>i < 8. shadow N r a i = (if is_store req \<and> \<not> faulty (Some segs) req \<and> ram_slot N a = ram_slot N (addr64 req) \<and> bit (req_be req) i
         then Some (byte_at (req_wdata req) i) else shadow N (ram_m s) a i)"
    using plain_request [OF wf free assms(3) ad(1), of junk, unfolded registered_fields inv(4)] by blast
  have lr: "lr_abs b = lr_spec (Some segs) req (rresv c)" using core_req_lr [OF wf e free] inv(4,5) by simp
  have ev: "evolves N A (rmem c) (ram_m s) (rmem c') r"
  proof (cases "is_store req \<and> \<not> faulty (Some segs) req")
    case True
    then show ?thesis using write_evolves [OF assms(1) ad(3) inv(1) r, of "req_be req" "req_wdata req"] sh
      by (simp add: c'_def plain_effect_def)
  next
    case False
    then show ?thesis using sh inv(1) r unfolding c'_def plain_effect_def evolves_def consistent_def by auto
  qed
  have "expects N (rmem c) (ram_m s) e resp"
  proof (cases "is_load req \<and> \<not> faulty (Some segs) req")
    case True
    then have "right_data (rmem c) req resp" "rv_right (rmem c) e"
      using assms(6) knows_right [OF inv(1)] f(1,9) ad(3) by (simp_all add: plain_answer_def)
    note rb = right_bytes [OF f(1,2) ad(2) this(2,1)]
    show ?thesis using True f rb entry_lanes(2) [OF f(1,2) ad(2)] assms(6) by (simp add: expects_def plain_answer_def)
  next
    case False
    then show ?thesis using f assms(6) by (auto simp: expects_def plain_answer_def)
  qed
  then have new: "expects N (rmem c') r e resp" using ev by (rule expects_evolves)
  have other: "map_find (inflight_m ?s) (ucast t) = map_find (inflight_m s) (ucast t)" if "t \<noteq> req_tid req" for t
    using that by (simp add: map_find_insert)
  have tid: "map_find (inflight_m ?s) (ucast (req_tid req)) = Some e" using free by (simp add: map_find_insert)
  have nb: "rpend c (req_tid req) = None" using ad(4) by (auto simp: busy_def)
  have "pend_inv N A (rmem c') (rpend c) ?s"
  proof (rule pend_evolves [OF inv(8)])
    show "map_find (inflight_m ?s) (ucast t) = map_find (inflight_m s) (ucast t)" if "rpend c t \<noteq> None" for t
      using other that nb by metis
  qed (use ev in simp)
  then have "pend_inv N A (rmem c') (rpend c') ?s"
    using tid new f(1) ad(3) assms(6) by (auto simp: pend_inv_def c'_def plain_answer_def)
  moreover have "ids_inv (busy c') ?s"
  proof -
    have "busy c' = insert (req_tid req) (busy c)" by (auto simp: c'_def busy_def)
    then show ?thesis using ids_take [OF inv(10) ad(4), of ?s] other ad(1) by (simp add: counted_def)
  qed
  moreover have "atomic_inv A segs c' ?s"
  proof (rule atomic_inv_same [OF inv(9)])
    fix a fwd st assume a: "ratomic c = Some (a, fwd, st)"
    then have "req_tid a \<noteq> req_tid req" "align_to (addr64 req) 8 \<noteq> align_to (addr64 a) 8"
      using ad(4) assms(5) by (auto simp: busy_def apart_def)
    moreover have "rpend c (req_tid a) = None" using inv(9) a by (simp add: atomic_inv_def)
    ultimately show "rpend c' (req_tid a) = None \<and> map_find (inflight_m ?s) (ucast (req_tid a)) = map_find (inflight_m s) (ucast (req_tid a)) \<and>
        (\<forall>i < 8. gbyte (rmem c') (addr64 a) i = gbyte (rmem c) (addr64 a) i)"
      using other plain_effect_apart by (simp add: c'_def)
  qed (simp_all add: c'_def counted_def)
  moreover have "consistent N A (rmem c') (ram_m ?s)" using ev by (simp add: evolves_def)
  ultimately have "ref_inv N A segs c' ?s" using inv(2-4,6,7) lr by (simp add: ref_inv_def c'_def counted_def)
  then show ?thesis using e by blast
qed

text \<open>A step of the memory side or of a counter.\<close>

lemma inv_quiet:
  assumes "ref_inv N A segs c s" "core_fields s s'" "sb_log s' = sb_log s" "nb_error s' = nb_error s"
    "nb_core_resp s' = nb_core_resp s" "nb_core_req_need_rsp s' = nb_core_req_need_rsp s"
    and "rmem c' = rmem c" "rpend c' = rpend c" "rresv c' = rresv c" "busy c' = busy c"
    and "reads_out s' = rreads c'" "writes_out s' = rwrites c'" "atomic_inv A segs c' s'"
  shows "ref_inv N A segs c' s'"
  using assms by (simp add: ref_inv_def core_fields_def pend_inv_def ids_inv_def)

lemma inv_cmo:
  assumes "ref_inv N A segs c s" "is_cmo req" "\<not> req_need_rsp req" "req_tid req \<notin> busy c"
  shows "\<exists>s'. core_req_process N junk req (registered req s) = Inr s' \<and> ref_inv N A segs c s'"
proof -
  note inv = ref_invD [OF assms(1)]
  let ?s = "release_id (unat (req_tid req)) (counted req (registered req s))"
  have "core_req_process N junk req (registered req s) = Inr ?s"
    using inv(10) assms(2-4) by (simp add: core_req_process_def Let_def ids_inv_def counted_def)
  moreover have "unat (req_tid req) \<notin> set (seq_ids s)"
    using inv(10) assms(4) inj_image_mem_iff [OF inj_tid] by (simp add: ids_inv_def)
  then have ids: "seq_ids ?s = seq_ids s" by (simp add: release_id_def counted_def deallocate_id_def remove1_append)
  have at: "atomic_inv A segs c ?s"
    by (rule atomic_inv_same [OF inv(9)]) (use inv(9) in \<open>auto simp: release_id_def counted_def atomic_inv_def\<close>)
  have "ref_inv N A segs c ?s"
    by (rule inv_quiet [OF assms(1) _ _ _ _ _ _ _ _ _ _ _ at])
      (use ids assms(3) inv(6,7) in \<open>simp_all add: core_fields_def release_id_def counted_def reads_out_def writes_out_def
        registered_def set_sequence_def\<close>)
  ultimately show ?thesis by blast
qed

lemma inv_atomic:
  assumes "ref_inv N A segs c s" "atomic_op req" "atomic_size req" "admitted A c req" "ratomic c = None"
    "fwd = goes_out (rresv c) req"
  defines "c' \<equiv> c\<lparr>ratomic := Some (req, fwd, if fwd then Waiting else Done False), rresv := lr_spec (Some segs) req (rresv c)\<rparr>"
  shows "\<exists>s'. core_req_process N junk req (registered req s) = Inr s' \<and> ref_inv N A segs c' s'"
proof -
  note inv = ref_invD [OF assms(1)]
  have ad: "req_need_rsp req" "in_dword req" "addr64 req \<in> A" "req_tid req \<notin> busy c" using assms(4) by (simp_all add: admitted_def)
  have wf: "ram_wf N (ram_m (registered req s))" using inv(1) by (simp add: consistent_def)
  have free: "free_id req (registered req s)" using inv(10) ad(4) by (simp add: ids_inv_def)
  have fifo: "inflight_amo_req_m (registered req s) = []" using inv(9) assms(5) by (simp add: atomic_inv_def)
  have R: "rresv c = lr_abs (lrsc_buf_m (registered req s))" using inv(5) by simp
  obtain e b where e: "core_req_process N junk req (registered req s) = Inr ((counted req (registered req s))\<lparr>lrsc_buf_m := b,
       inflight_amo_req_m := (if fwd then [e] else []), inflight_m := map_insert (ucast (req_tid req)) e (inflight_m s)\<rparr>)"
     (is "_ = Inr ?s") and f: "lr_abs b = lr_spec (Some segs) req (rresv c)" "atomic_entry (Some segs) fwd req e"
     "\<not> is_amo_sc req \<and> \<not> atomic_fault (Some segs) fwd req \<longrightarrow> knows N (ram_m s) e"
    using atomic_request [OF wf free assms(2) fifo R assms(6), of junk, unfolded registered_fields inv(4)] by blast
  have nb: "rpend c (req_tid req) = None" using ad(4) by (auto simp: busy_def)
  have other: "map_find (inflight_m ?s) (ucast t) = map_find (inflight_m s) (ucast t)" if "t \<noteq> req_tid req" for t
    using that by (simp add: map_find_insert)
  have tid: "map_find (inflight_m ?s) (ucast (req_tid req)) = Some e" using free by (simp add: map_find_insert)
  have "pend_inv N A (rmem c) (rpend c) ?s"
  proof (rule pend_evolves [OF inv(8)])
    show "map_find (inflight_m ?s) (ucast t) = map_find (inflight_m s) (ucast t)" if "rpend c t \<noteq> None" for t
      using other that nb by metis
  qed (use evolves_refl [OF inv(1)] in \<open>simp add: counted_def\<close>)
  moreover have "ids_inv (busy c') ?s"
  proof -
    have "busy c' = insert (req_tid req) (busy c)" using assms(5) by (auto simp: c'_def busy_def)
    then show ?thesis using ids_take [OF inv(10) ad(4), of ?s] other ad(1) by (simp add: counted_def)
  qed
  moreover have "atomic_inv A segs c' ?s"
  proof -
    have "\<not> is_amo_sc req \<and> \<not> atomic_fault (Some segs) fwd req \<longrightarrow> rv_right (rmem c) e"
      using f(3) knows_right [OF inv(1)] atomic_entryD(1) [OF f(2)] ad(3) by auto
    then show ?thesis
      using assms(2,3) ad(2,3) nb tid f(2) by (auto simp: atomic_inv_def c'_def)
  qed
  ultimately have "ref_inv N A segs c' ?s" using inv(1-4,6,7) f(1) by (simp add: ref_inv_def c'_def counted_def)
  then show ?thesis using e by blast
qed

lemma inv_answer:
  assumes "alias_free N A" "ref_inv N A segs c s" "rpend c t = Some resp"
  shows "\<exists>s'. core_resp_process N resp s = Inr s' \<and> ref_inv N A segs (c\<lparr>rpend := (rpend c)(t := None)\<rparr>) s'"
proof -
  note inv = ref_invD [OF assms(2)]
  let ?c = "c\<lparr>rpend := (rpend c)(t := None)\<rparr>"
  obtain e where e: "rsp_tid resp = t" "map_find (inflight_m s) (ucast (rsp_tid resp)) = Some e" "e_addr e \<in> A"
    "expects N (rmem c) (ram_m s) e resp"
    using inv(8) assms(3) unfolding pend_inv_def by blast
  obtain r where r: "core_resp_process N resp s = Inr (settled resp r s)" "ram_wf N r"
    "\<forall>b. \<forall>i < 8. shadow N r b i = (if (reads e \<and> \<not> e_is_error e) \<and> ram_slot N b = ram_slot N (e_addr e) \<and> i \<in> set (lanes e) \<and>
         shadow N (ram_m s) b i = None then Some (byte_at (rsp_rdata resp) i) else shadow N (ram_m s) b i)"
    using plain_response [OF _ e(2,4)] inv(1) unfolding consistent_def by blast
  let ?s = "settled resp r s"
  have ev: "evolves N A (rmem c) (ram_m s) (rmem c) r"
    by (rule learn_evolves [OF assms(1) e(3) inv(1) r(2,3)]) (use e(4) in \<open>auto simp: expects_def\<close>)
  have at: "req_tid a \<noteq> t" if "ratomic c = Some (a, fwd, st)" for a fwd st
    using inv(9) that assms(3) by (auto simp: atomic_inv_def)
  have "pend_inv N A (rmem c) ((rpend c)(t := None)) s" using inv(8) by (simp add: pend_inv_def)
  then have "pend_inv N A (rmem c) ((rpend c)(t := None)) ?s"
    by (rule pend_evolves) (use ev e(1) in \<open>auto split: if_splits\<close>)
  then have "pend_inv N A (rmem c) (rpend ?c) ?s" by simp
  moreover have "ids_inv (busy ?c) ?s"
  proof -
    have "busy ?c = busy c - {t}" using at by (auto simp: busy_def split: option.splits)
    moreover have "t \<in> busy c" using assms(3) by (auto simp: busy_def)
    ultimately show ?thesis using ids_release [OF inv(10), of t ?s] e(1) by simp
  qed
  moreover have "atomic_inv A segs ?c ?s"
    by (rule atomic_inv_same [OF inv(9)]) (use inv(9) at e(1) in \<open>auto simp: atomic_inv_def\<close>)
  moreover have "consistent N A (rmem c) r" using ev by (simp add: evolves_def)
  ultimately have "ref_inv N A segs ?c ?s" using inv(2-7) by (simp add: ref_inv_def)
  then show ?thesis using r(1) by blast
qed

lemma inv_answer_atomic:
  assumes "alias_free N A" "ref_inv N A segs c s" "ratomic c = Some (req, fwd, Done ok)"
    "atomic_answer (Some segs) (rmem c) fwd ok req resp"
  shows "\<exists>s'. core_resp_process N resp s = Inr s' \<and>
     ref_inv N A segs (c\<lparr>rmem := atomic_effect (Some segs) fwd ok req (rmem c), ratomic := None\<rparr>) s'"
proof -
  note inv = ref_invD [OF assms(2)]
  let ?c = "c\<lparr>rmem := atomic_effect (Some segs) fwd ok req (rmem c), ratomic := None\<rparr>"
  obtain e where a: "atomic_op req" "atomic_size req" "in_dword req" "addr64 req \<in> A" "rpend c (req_tid req) = None"
    "map_find (inflight_m s) (ucast (req_tid req)) = Some e" "atomic_entry (Some segs) fwd req e"
    "\<not> is_amo_sc req \<and> \<not> atomic_fault (Some segs) fwd req \<longrightarrow> rv_right (rmem c) e" "inflight_amo_req_m s = []"
    "is_amo_sc req \<longrightarrow> (fwd \<and> sc_is_atomic s) = ok"
    using inv(9) assms(3) by (auto simp: atomic_inv_def)
  obtain r where r: "core_resp_process N resp s = Inr (settled resp r s)"
    and ev: "evolves N A (rmem c) (ram_m s) (rmem ?c) r"
    using atomic_response [OF assms(1) a(4) inv(1) a(1-3,6-8) _ assms(4)] a(10) by auto
  let ?s = "settled resp r s"
  have tid: "rsp_tid resp = req_tid req" using assms(4) by (simp add: atomic_answer_def)
  have "pend_inv N A (rmem ?c) (rpend c) ?s"
    by (rule pend_evolves [OF inv(8)]) (use ev a(5) tid in auto)
  moreover have "ids_inv (busy ?c) ?s"
  proof -
    have "busy ?c = busy c - {req_tid req}" "req_tid req \<in> busy c" using assms(3) a(5) by (auto simp: busy_def)
    then show ?thesis using ids_release [OF inv(10), of "req_tid req" ?s] tid by simp
  qed
  moreover have "atomic_inv A segs ?c ?s" using a(9) by (simp add: atomic_inv_def)
  moreover have "consistent N A (rmem ?c) r" using ev by (simp add: evolves_def)
  ultimately have "ref_inv N A segs ?c ?s" using inv(2-7) by (simp add: ref_inv_def)
  then show ?thesis using r by blast
qed

text \<open>The atomic request is sent to the memory, and its response arrives.\<close>

lemma atomic_inv_stage:
  assumes "atomic_inv A segs c s" "ratomic c = Some (req, fwd, st)" "ratomic c' = Some (req, fwd, st')"
    and "rmem c' = rmem c" "rpend c' = rpend c" "inflight_m s' = inflight_m s"
    and "st' = Waiting \<longleftrightarrow> st = Waiting \<and> inflight_amo_req_m s' = inflight_amo_req_m s" "st' \<noteq> Waiting \<Longrightarrow> inflight_amo_req_m s' = []"
    and "case st' of Done ok \<Rightarrow> is_amo_sc req \<longrightarrow> (fwd \<and> sc_is_atomic s') = ok | _ \<Rightarrow> fwd"
  shows "atomic_inv A segs c' s'"
  using assms by (cases "st' = Waiting") (auto simp: atomic_inv_def)

lemma atomic_waiting:
  assumes "atomic_inv A segs c s" "ratomic c = Some (req, fwd, Waiting)"
  shows "\<exists>e. inflight_amo_req_m s = [e] \<and> atomic_entry (Some segs) fwd req e" "fwd"
  using assms by (auto simp: atomic_inv_def)

lemma busy_stage: "ratomic c = Some (req, fwd, st) \<Longrightarrow> ratomic c' = Some (req, fwd', st') \<Longrightarrow> rpend c' = rpend c \<Longrightarrow> busy c' = busy c"
  by (simp add: busy_def)

lemma quietD:
  assumes "mem_quiet s s'"
  shows "core_fields s s'" "sb_log s' = sb_log s" "nb_error s' = nb_error s" "nb_core_resp s' = nb_core_resp s"
    "nb_core_req_need_rsp s' = nb_core_req_need_rsp s" "inflight_m s' = inflight_m s"
  using assms by (simp_all add: quiet_defs)

lemma inv_read:
  assumes "ref_inv N A segs c s" "\<not> mem_is_ldex q" "unat (msize q) < 64" "mid q \<notin> rreads c"
  shows "\<exists>s'. mem_read_req_process q s = Inr s' \<and> ref_inv N A segs (c\<lparr>rreads := insert (mid q) (rreads c)\<rparr>) s'"
proof -
  note inv = ref_invD [OF assms(1)]
  obtain s' where s': "mem_read_req_process q s = Inr s'" "mem_quiet s s'" "sc_is_atomic s' = sc_is_atomic s"
    "inflight_amo_req_m s' = inflight_amo_req_m s" "reads_out s' = insert (mid q) (rreads c)" "writes_out s' = rwrites c"
    using read_req_step [OF inv(4) assms(3)] assms(2,4) inv(6,7) by auto
  have "atomic_inv A segs (c\<lparr>rreads := insert (mid q) (rreads c)\<rparr>) s'"
    by (rule atomic_inv_same [OF inv(9)]) (use s'(3,4) quietD(6) [OF s'(2)] inv(9) in \<open>auto simp: atomic_inv_def\<close>)
  from inv_quiet [OF assms(1) quietD(1-5) [OF s'(2)] _ _ _ _ _ _ this] show ?thesis using s'(1,5,6) by simp
qed

lemma inv_read_lr:
  assumes "ref_inv N A segs c s" "ratomic c = Some (req, fwd, Waiting)" "is_amo_lr req" "mem_is_ldex q" "unat (msize q) < 64" "mid q \<notin> rreads c"
  defines "c' \<equiv> c\<lparr>rreads := insert (mid q) (rreads c), ratomic := Some (req, fwd, Sent (mid q))\<rparr>"
  shows "\<exists>s'. mem_read_req_process q s = Inr s' \<and> ref_inv N A segs c' s'"
proof -
  note inv = ref_invD [OF assms(1)]
  obtain e where e: "inflight_amo_req_m s = [e]" "fwd" using atomic_waiting [OF inv(9) assms(2)] by blast
  obtain s' where s': "mem_read_req_process q s = Inr s'" "mem_quiet s s'"
    "inflight_amo_req_m s' = []" "reads_out s' = insert (mid q) (rreads c)" "writes_out s' = rwrites c"
    using read_req_step [OF inv(4) assms(5), of e] assms(4,6) inv(6,7) e(1) by auto
  have "atomic_inv A segs c' s'"
    by (rule atomic_inv_stage [OF inv(9) assms(2), where st' = "Sent (mid q)"]) (use s'(3) quietD(6) [OF s'(2)] e in \<open>simp_all add: c'_def\<close>)
  from inv_quiet [OF assms(1) quietD(1-5) [OF s'(2)] _ _ _ _ _ _ this]
  show ?thesis using s'(1,4,5) busy_stage [OF assms(2), of c'] by (simp add: c'_def)
qed

lemma inv_write:
  assumes "ref_inv N A segs c s" "\<not> mem_is_amo w" "\<not> mem_is_stex w" "unat (msize w) < 64" "mid w \<notin> rwrites c"
  shows "\<exists>s'. mem_write_req_process w s = Inr s' \<and> ref_inv N A segs (c\<lparr>rwrites := insert (mid w) (rwrites c)\<rparr>) s'"
proof -
  note inv = ref_invD [OF assms(1)]
  obtain s' where s': "mem_write_req_process w s = Inr s'" "mem_quiet s s'" "sc_is_atomic s' = sc_is_atomic s"
    "inflight_amo_req_m s' = inflight_amo_req_m s" "reads_out s' = rreads c" "writes_out s' = insert (mid w) (rwrites c)"
    using write_req_step [OF inv(4) assms(4)] assms(2,3,5) inv(6,7) by auto
  have "atomic_inv A segs (c\<lparr>rwrites := insert (mid w) (rwrites c)\<rparr>) s'"
    by (rule atomic_inv_same [OF inv(9)]) (use s'(3,4) quietD(6) [OF s'(2)] inv(9) in \<open>auto simp: atomic_inv_def\<close>)
  from inv_quiet [OF assms(1) quietD(1-5) [OF s'(2)] _ _ _ _ _ _ this] show ?thesis using s'(1,5,6) by simp
qed

lemma inv_write_atomic:
  assumes "ref_inv N A segs c s" "ratomic c = Some (req, fwd, Waiting)" "mem_is_amo w \<or> is_amo_sc req \<and> mem_is_stex w"
    "unat (msize w) < 64" "mid w \<notin> rwrites c"
  defines "c' \<equiv> c\<lparr>rreads := (if mem_is_amo w then insert (mid w) (rreads c) else rreads c), rwrites := insert (mid w) (rwrites c),
      ratomic := Some (req, fwd, Sent (mid w))\<rparr>"
  shows "\<exists>s'. mem_write_req_process w s = Inr s' \<and> ref_inv N A segs c' s'"
proof -
  note inv = ref_invD [OF assms(1)]
  obtain e where e: "inflight_amo_req_m s = [e]" "fwd" "atomic_entry (Some segs) fwd req e"
    using atomic_waiting [OF inv(9) assms(2)] by blast
  have "is_amo_sc req \<longrightarrow> e_is_atomic e" using atomic_entryD(11) [OF e(3)] e(2) by simp
  then obtain s' where s': "mem_write_req_process w s = Inr s'" "mem_quiet s s'" "inflight_amo_req_m s' = []"
    "reads_out s' = rreads c'" "writes_out s' = rwrites c'"
    using write_req_step [OF inv(4) assms(4), of e] assms(3,5) inv(6,7) e(1) unfolding c'_def by auto
  have "atomic_inv A segs c' s'"
    by (rule atomic_inv_stage [OF inv(9) assms(2), where st' = "Sent (mid w)"]) (use s'(3) quietD(6) [OF s'(2)] e in \<open>simp_all add: c'_def\<close>)
  from inv_quiet [OF assms(1) quietD(1-5) [OF s'(2)] _ _ _ _ s'(4,5) this]
  show ?thesis using s'(1) busy_stage [OF assms(2), of c'] by (simp add: c'_def)
qed

lemma inv_read_data:
  assumes "ref_inv N A segs c s" "rid r \<in> rreads c"
  defines "c' \<equiv> c\<lparr>rreads := (if rlast r then rreads c - {rid r} else rreads c), ratomic := map_option (after_read r) (ratomic c)\<rparr>"
  shows "\<exists>s'. mem_read_resp_process r s = Inr s' \<and> ref_inv N A segs c' s'"
proof -
  note inv = ref_invD [OF assms(1)]
  obtain s' where s': "mem_read_resp_process r s = Inr s'" "mem_quiet s s'" "sc_is_atomic s' = sc_is_atomic s"
    "inflight_amo_req_m s' = inflight_amo_req_m s" "reads_out s' = rreads c'" "writes_out s' = rwrites c'"
    using read_resp_step [of r s] assms(2) inv(6,7) unfolding c'_def by auto
  have "atomic_inv A segs c' s' \<and> busy c' = busy c"
  proof (cases "ratomic c")
    case None
    then show ?thesis using inv(9) s'(4) by (simp add: atomic_inv_def c'_def busy_def)
  next
    case (Some x)
    obtain req fwd st where x: "x = (req, fwd, st)" by (cases x)
    obtain st' where c': "ratomic c' = Some (req, fwd, st')" "st' = st \<or> st = Sent (rid r) \<and> st' = Done True \<and> \<not> is_amo_sc req"
      using Some x by (auto simp: c'_def)
    have "case st' of Done ok \<Rightarrow> is_amo_sc req \<longrightarrow> (fwd \<and> sc_is_atomic s') = ok | _ \<Rightarrow> fwd"
      using c'(2) inv(9) Some x s'(3) by (cases st) (auto simp: atomic_inv_def)
    then have "atomic_inv A segs c' s'"
      by (intro atomic_inv_stage [OF inv(9) Some [unfolded x] c'(1)])
        (use c'(2) inv(9) Some x s'(4) quietD(6) [OF s'(2)] in \<open>auto simp: c'_def atomic_inv_def\<close>)
    then show ?thesis using busy_stage [OF Some [unfolded x] c'(1)] by (simp add: c'_def)
  qed
  then show ?thesis using inv_quiet [OF assms(1) quietD(1-5) [OF s'(2)] _ _ _ _ s'(5,6)] s'(1) by (auto simp: c'_def)
qed

lemma inv_written:
  assumes "ref_inv N A segs c s" "wid r \<in> rwrites c" "\<not> sc_judged c"
  defines "c' \<equiv> c\<lparr>rwrites := rwrites c - {wid r}, ratomic := map_option (after_write r) (ratomic c)\<rparr>"
  shows "\<exists>s'. mem_write_resp_process r s = Inr s' \<and> ref_inv N A segs c' s'"
proof -
  note inv = ref_invD [OF assms(1)]
  obtain s' where s': "mem_write_resp_process r s = Inr s'" "mem_quiet s s'" "sc_is_atomic s' = is_atomic r"
    "inflight_amo_req_m s' = inflight_amo_req_m s" "reads_out s' = rreads c'" "writes_out s' = rwrites c'"
    using write_resp_step [of r s] assms(2) inv(6,7) unfolding c'_def by auto
  have "atomic_inv A segs c' s' \<and> busy c' = busy c"
  proof (cases "ratomic c")
    case None
    then show ?thesis using inv(9) s'(4) by (simp add: atomic_inv_def c'_def busy_def)
  next
    case (Some x)
    obtain req fwd st where x: "x = (req, fwd, st)" by (cases x)
    obtain st' where c': "ratomic c' = Some (req, fwd, st')"
      "st' = st \<or> st = Sent (wid r) \<and> st' = Done (is_atomic r) \<and> is_amo_sc req"
      using Some x by (auto simp: c'_def)
    have "case st' of Done ok \<Rightarrow> is_amo_sc req \<longrightarrow> (fwd \<and> sc_is_atomic s') = ok | _ \<Rightarrow> fwd"
      using c'(2) inv(9) assms(3) Some x s'(3) by (cases st) (auto simp: atomic_inv_def sc_judged_def)
    then have "atomic_inv A segs c' s'"
      by (intro atomic_inv_stage [OF inv(9) Some [unfolded x] c'(1)])
        (use c'(2) inv(9) Some x s'(4) quietD(6) [OF s'(2)] in \<open>auto simp: c'_def atomic_inv_def\<close>)
    then show ?thesis using busy_stage [OF Some [unfolded x] c'(1)] by (simp add: c'_def)
  qed
  then show ?thesis using inv_quiet [OF assms(1) quietD(1-5) [OF s'(2)] _ _ _ _ s'(5,6)] s'(1) by (auto simp: c'_def)
qed

lemma inv_clock:
  assumes "ref_inv N A segs c s"
  shows "ref_inv N A segs c (perf_events_process i s)"
proof -
  note inv = ref_invD [OF assms]
  have "atomic_inv A segs c (perf_events_process i s)"
    by (rule atomic_inv_same [OF inv(9)]) (use inv(9) in \<open>auto simp: perf_events_process_def Let_def atomic_inv_def\<close>)
  then show ?thesis
    by (rule inv_quiet [OF assms, rotated -1])
      (use inv(6,7) in \<open>simp_all add: perf_events_process_def core_fields_def Let_def reads_out_def writes_out_def\<close>)
qed

lemma inv_step:
  assumes "alias_free N A" "ref_inv N A segs c s" "ref_step A segs c ev c'"
  shows "\<exists>s'. sb_step N ev (arrive ev s) = Inr s' \<and> ref_inv N A segs c' s'"
  using assms(3)
proof cases
  case (rs_issue req resp junk)
  then show ?thesis using inv_issue [OF assms(1,2)] by simp
next
  case (rs_cmo req junk)
  then show ?thesis using inv_cmo [OF assms(2)] by simp
next
  case (rs_atomic req fwd junk)
  then show ?thesis using inv_atomic [OF assms(2) rs_atomic(3-7), of junk] by simp
next
  case (rs_answer t resp)
  then show ?thesis using inv_answer [OF assms(1,2)] by simp
next
  case (rs_answer_atomic req fwd ok resp)
  then show ?thesis using inv_answer_atomic [OF assms(1,2)] by simp
next
  case (rs_read q)
  then show ?thesis using inv_read [OF assms(2)] by simp
next
  case (rs_read_lr req fwd q)
  then show ?thesis using inv_read_lr [OF assms(2)] by simp
next
  case (rs_write w)
  then show ?thesis using inv_write [OF assms(2)] by simp
next
  case (rs_write_amo req fwd w)
  then show ?thesis using inv_write_atomic [OF assms(2), of req fwd w] by simp
next
  case (rs_write_sc req fwd w)
  then have "\<not> mem_is_amo w" by (simp add: mem_is_amo_def mem_is_stex_def)
  then show ?thesis using rs_write_sc inv_write_atomic [OF assms(2), of req fwd w] by simp
next
  case (rs_read_data r)
  then show ?thesis using inv_read_data [OF assms(2), of r] by simp
next
  case (rs_written r)
  then show ?thesis using inv_written [OF assms(2), of r] by simp
next
  case (rs_clock i)
  then show ?thesis using inv_clock [OF assms(2)] by simp
qed

lemma inv_start:
  assumes "0 < N" "8 dvd N" "\<not> lr_valid lr"
  shows "ref_inv N A segs (ref_new g) (set_error_limit lim (set_mem_resp_model segs (scoreboard_new lr (ram_new N junk))))"
proof -
  have wf: "ram_wf N (ram_new N junk)" using assms(1,2) by (rule ram_new_wf)
  have "shadow N (ram_new N junk) a i = None" if "i < 8" for a i
  proof -
    have "(ram_slot N a + i) div 8 < N div 8"
      using dword_in_ram [OF wf, of a] that assms(2) by (auto simp: ram_slot_def dvd_def less_mult_imp_div_less)
    then show ?thesis by (simp add: shadow_def written_def ram_new_def ram_slot_def)
  qed
  then show ?thesis
    using wf assms(3)
    by (simp add: ref_inv_def ref_new_def consistent_def pend_inv_def atomic_inv_def ids_inv_def busy_def lr_abs_def reads_out_def
        writes_out_def set_error_limit_def set_mem_resp_model_def scoreboard_new_def)
qed

lemma ref_run_inv:
  assumes "alias_free N A" "0 < N" "8 dvd N" "ref_run N A segs c s"
  shows "ref_inv N A segs c s"
  using assms(4)
proof (induction rule: ref_run.induct)
  case (ref_start lr g lim junk)
  then show ?case by (rule inv_start [OF assms(2,3)])
next
  case (ref_next c s ev c' s')
  then show ?case using inv_step [OF assms(1)] by fastforce
qed

section \<open>No false alarm\<close>

text \<open>C10: the scoreboard raises no false alarm. The reference cache performs each request on its own memory,
  keeps its own reservation and works on one atomic request at a time, whose double word no other request
  accesses meanwhile; its answers, its memory traffic and the clock edges come in any order, also while an atomic
  request is under way, except that no write response comes between the verdict on a store-exclusive and the answer
  to its store-conditional. Along every run of it the scoreboard has printed no error and takes every further event
  without printing or stopping; once all answers are in, its final checks pass, provided the miss counters are within
  the request counters. The addresses must not share places of the scoreboard's memory, and the
  reservation buffer of the scoreboard starts invalid.\<close>

theorem no_false_alarm:
  assumes "alias_free N A" "0 < N" "8 dvd N" "ref_run N A segs c s"
  shows "sb_log s = [] \<and> nb_error s = 0 \<and>
    (\<forall>ev c'. ref_step A segs c ev c' \<longrightarrow> (\<exists>s'. sb_step N ev (arrive ev s) = Inr s' \<and> sb_log s' = [])) \<and>
    (rpend c = Map.empty \<and> ratomic c = None \<and> evt_cache_write_miss (evts s) \<le> evt_write_req (evts s) \<and>
     evt_cache_read_miss (evts s) \<le> evt_read_req (evts s) \<longrightarrow> final_checks s = Inr s)"
proof -
  have inv: "ref_inv N A segs c s" using ref_run_inv [OF assms] .
  have "\<exists>s'. sb_step N ev (arrive ev s) = Inr s' \<and> sb_log s' = []" if "ref_step A segs c ev c'" for ev c'
    using inv_step [OF assms(1) inv that] ref_invD(2) by blast
  moreover have "final_checks s = Inr s" if "rpend c = Map.empty" "ratomic c = None"
    "evt_cache_write_miss (evts s) \<le> evt_write_req (evts s)" "evt_cache_read_miss (evts s) \<le> evt_read_req (evts s)"
  proof -
    have "busy c = {}" using that(1,2) by (simp add: busy_def)
    then have "nb_core_resp s = nb_core_req_need_rsp s" "seq_ids s = []"
      using ref_invD(10) [OF inv] by (simp_all add: ids_inv_def)
    then show ?thesis using leD [OF that(3)] leD [OF that(4)] by (simp add: final_checks_def print_if_def)
  qed
  ultimately show ?thesis using ref_invD(2,3) [OF inv] by blast
qed

definition ex_start :: scoreboard where
  "ex_start = set_error_limit 1 (set_mem_resp_model [] (scoreboard_new
     \<lparr>lr_valid = False, lr_base = 0, lr_end = 0, lr_is_atomic = False\<rparr> (ram_new 8 (\<lambda>_. 0xee))))"

definition ex_load :: core_req where
  "ex_load = new_core_req\<lparr>req_need_rsp := True\<rparr>"

definition ex_lr :: core_req where
  "ex_lr = new_core_req\<lparr>req_need_rsp := True, req_op := REQ_AMO_LR, req_size := 3, req_tid := 1\<rparr>"

lemma ex_requests:
  "is_load ex_load" "\<not> is_store ex_load" "plain_op ex_load" "req_need_rsp ex_load" "in_dword ex_load" "addr64 ex_load \<in> {0}"
  "req_tid ex_load = 0" "atomic_op ex_lr" "atomic_size ex_lr" "\<not> is_amo_sc ex_lr" "req_need_rsp ex_lr" "in_dword ex_lr"
  "addr64 ex_lr \<in> {0}" "req_tid ex_lr = 1"
  by (simp_all add: ex_load_def ex_lr_def new_core_req_def plain_op_def is_load_def is_store_def op_defs in_dword_def atomic_op_def
      is_amo_lr_def is_amo_sc_def atomic_size_def)

text \<open>A load, then a load-reserved, a clock edge, and the answer to the load while the load-reserved is under way.\<close>

theorem no_false_alarm_witness:
  "\<exists>c s s'. ref_run 8 {0} [] c s \<and> ratomic c = Some (ex_lr, True, Waiting) \<and> sb_log s = [] \<and>
     core_resp_process 8 new_core_resp s = Inr s' \<and> sb_log s' = []"
proof -
  have al: "alias_free 8 {0}" by (simp add: alias_free_def)
  have "(0 :: nat) < 8" "(8 :: nat) dvd 8" by simp_all
  note clean = no_false_alarm [OF al this]
  have go: "\<exists>s'. ref_run 8 {0} [] c' s'" if "ref_run 8 {0} [] c s" "ref_step {0} [] c ev c'" for c s ev c'
    using clean [OF that(1)] that ref_next by blast
  let ?g = "\<lambda>_. 0 :: u8"
  let ?c1 = "(ref_new ?g)\<lparr>rpend := [0 \<mapsto> new_core_resp]\<rparr>"
  let ?c2 = "?c1\<lparr>ratomic := Some (ex_lr, True, Waiting), rresv := lr_spec (Some []) ex_lr None\<rparr>"
  have "ref_run 8 {0} [] (ref_new ?g) ex_start" unfolding ex_start_def by (rule ref_start) simp
  moreover have "ref_step {0} [] (ref_new ?g) (CoreReq junk_entry ex_load) ?c1"
  proof -
    have "plain_answer (Some []) ?g ex_load new_core_resp"
      using ex_requests(1,2,7) by (simp add: plain_answer_def faulty_def in_error_def right_data_def gbyte_def new_core_resp_def byte_at_def)
    then have "ref_step {0} [] (ref_new ?g) (CoreReq junk_entry ex_load) ((ref_new ?g)\<lparr>rmem := plain_effect (Some []) ex_load ?g,
        rpend := [0 \<mapsto> new_core_resp], rresv := lr_spec (Some []) ex_load None\<rparr>)"
      using rs_issue [of ex_load "{0}" "ref_new ?g" "[]" new_core_resp junk_entry] ex_requests(3-7)
      by (simp add: ref_new_def admitted_def apart_def busy_def)
    moreover have "lr_spec (Some []) ex_load None = None" using op_exclusive(1) [OF ex_requests(1)] by (simp add: lr_spec_def)
    ultimately show ?thesis using ex_requests(2) by (simp add: plain_effect_def ref_new_def)
  qed
  ultimately obtain s1 where s1: "ref_run 8 {0} [] ?c1 s1" using go by blast
  have "ref_step {0} [] ?c1 (CoreReq junk_entry ex_lr) ?c2"
    using rs_atomic [of ex_lr "{0}" ?c1 True "[]" junk_entry] ex_requests(8-14)
    by (simp add: ref_new_def admitted_def busy_def goes_out_def)
  then obtain s2 where "ref_run 8 {0} [] ?c2 s2" using go [OF s1] by blast
  then obtain s3 where s3: "ref_run 8 {0} [] ?c2 s3" using go [OF _ rs_clock] by blast
  have "ref_step {0} [] ?c2 (CoreResp new_core_resp) (?c2\<lparr>rpend := (rpend ?c2)(0 := None)\<rparr>)"
    by (rule rs_answer) simp
  then obtain s' where "core_resp_process 8 new_core_resp s3 = Inr s'" "sb_log s' = []" using clean [OF s3] by fastforce
  moreover have "sb_log s3 = []" using clean [OF s3] by blast
  moreover have "ratomic ?c2 = Some (ex_lr, True, Waiting)" by simp
  ultimately show ?thesis using s3 by blast
qed

section \<open>The addresses of the random sequence\<close>

definition random_addrs :: "bool \<Rightarrow> u64 set" where
  "random_addrs wt = {a. \<exists>g \<in> set (random_segments wt). unat (seg_base g) \<le> unat a \<and> unat a < unat (seg_base g) + unat (seg_length g)}"

text \<open>The place of a double word of a segment in the scoreboard's memory tells its address.\<close>

lemma segment_slot:
  assumes "k < 4" "k * 0x40004000 \<le> unat (a :: u64)" "unat a < k * 0x40004000 + 0x4000"
  shows "unat (align_to a 8) = ram_slot SCOREBOARD_RAM_SIZE a div 0x4000 * 0x40000000 + ram_slot SCOREBOARD_RAM_SIZE a"
proof -
  let ?y = "unat a div 8 * 8"
  have "k * 0x40004000 div 8 \<le> unat a div 8" using assms(2) by (rule div_le_mono)
  then have "k * 0x40004000 div 8 * 8 \<le> ?y" by (rule mult_le_mono1)
  moreover have "?y \<le> unat a" by simp
  ultimately have y: "k * 0x40004000 \<le> ?y" "?y < k * 0x40004000 + 0x4000" using assms(3) by simp_all
  define z where "z = ?y - k * 0x40000000"
  have z: "?y = k * 0x40000000 + z" "k * 0x4000 \<le> z" "z < (k + 1) * 0x4000" using y by (simp_all add: z_def algebra_simps)
  have "z < 2 ^ 24" using z(3) assms(1) by simp
  then have "?y mod 2 ^ 24 = z" unfolding z(1) by (simp add: mod_add_left_eq [symmetric])
  then have "ram_slot SCOREBOARD_RAM_SIZE a = z" by (simp add: ram_slot_def align_to_8 SCOREBOARD_RAM_SIZE_def)
  moreover have "z div 0x4000 = k" using z(2,3) by (simp add: div_nat_eqI mult.commute)
  ultimately show ?thesis using z(1) by (simp add: align_to_8)
qed

lemma random_addrs_segment: "a \<in> random_addrs wt \<Longrightarrow> \<exists>k < 4. k * 0x40004000 \<le> unat a \<and> unat a < k * 0x40004000 + 0x4000"
proof -
  assume "a \<in> random_addrs wt"
  then have "unat a < 0x4000 \<or> 0x40004000 \<le> unat a \<and> unat a < 0x40008000 \<or> 0x80008000 \<le> unat a \<and> unat a < 0x8000C000 \<or>
      0xC000C000 \<le> unat a \<and> unat a < 0xC0010000"
    by (auto simp: random_addrs_def random_segments_def mk_segment_def set_base_def set_length_def new_mem_segment_def)
  then show ?thesis
  proof (elim disjE)
    assume "unat a < 0x4000" then show ?thesis by (intro exI [of _ 0]) simp
  next
    assume "0x40004000 \<le> unat a \<and> unat a < 0x40008000" then show ?thesis by (intro exI [of _ 1]) simp
  next
    assume "0x80008000 \<le> unat a \<and> unat a < 0x8000C000" then show ?thesis by (intro exI [of _ 2]) simp
  next
    assume "0xC000C000 \<le> unat a \<and> unat a < 0xC0010000" then show ?thesis by (intro exI [of _ 3]) simp
  qed
qed

lemma random_alias_free: "alias_free SCOREBOARD_RAM_SIZE (random_addrs wt)"
proof (unfold alias_free_def, intro ballI impI)
  fix a b assume "a \<in> random_addrs wt" "b \<in> random_addrs wt" and eq: "ram_slot SCOREBOARD_RAM_SIZE a = ram_slot SCOREBOARD_RAM_SIZE b"
  then have "unat (align_to a 8) = unat (align_to b 8)"
    using segment_slot [of _ a] segment_slot [of _ b] random_addrs_segment by metis
  then show "align_to a 8 = align_to b 8" by (simp add: word_unat_eq_iff)
qed

lemma aligned_in_dword:
  assumes "k \<le> 3" "2 ^ k dvd (n :: nat)"
  shows "n mod 8 + 2 ^ k \<le> 8"
proof -
  have "k = 0 \<or> k = 1 \<or> k = 2 \<or> k = 3" using assms(1) by auto
  then show ?thesis using assms(2) by (elim disjE) (simp_all, presburger+)
qed

lemma known_classes:
  "known_op (req_op t) \<Longrightarrow> is_load t \<or> is_store t \<or> is_cmo t \<or> is_amo t \<or> is_amo_sc t \<or> is_amo_lr t"
  using classes_count [of "req_op t"] classes_op_req(7) [of t] by (auto simp: classes_def)

text \<open>C11: the random sequence stays where the scoreboard sees everything: a well-formed request of one of its
  segments is a load, a store, a cache management or an atomic operation on a word or double word,
  within one double word, and no two double words of the segments share a place in the scoreboard's
  memory of 16 MB, although their addresses are up to 3 GB apart.\<close>

theorem random_requests_monitored:
  assumes "g \<in> set (random_segments wt)" "request_ok g t"
  shows "(plain_op t \<or> atomic_op t \<and> atomic_size t) \<and> in_dword t \<and> addr64 t \<in> random_addrs wt \<and>
     alias_free SCOREBOARD_RAM_SIZE (random_addrs wt)"
proof -
  have rq: "unat (req_size t) \<le> 3" "2 ^ unat (req_size t) dvd unat (req_addr t)" "known_op (req_op t)"
    "is_atomic_op t \<longrightarrow> 2 \<le> unat (req_size t)"
    "unat (seg_base g) \<le> unat (req_addr t)" "unat (req_addr t) < unat (seg_base g) + unat (seg_length g)"
    using assms(2) by (simp_all add: request_ok_def)
  have "plain_op t \<or> is_atomic_op t" using known_classes [OF rq(3)] by (auto simp: plain_op_def is_atomic_op_def)
  moreover have "is_atomic_op t \<Longrightarrow> atomic_op t \<and> atomic_size t"
    using rq(1,4) by (auto simp: is_atomic_op_def atomic_op_def atomic_size_def word_unat_eq_iff)
  moreover have "in_dword t" using aligned_in_dword [OF rq(1,2)] by (simp add: in_dword_def)
  moreover have "addr64 t \<in> random_addrs wt" using assms(1) rq(5,6) by (auto simp: random_addrs_def unat_addr64)
  ultimately show ?thesis using random_alias_free by blast
qed

theorem random_requests_monitored_witness:
  "\<exists>obj t s'. random_create True ex_draws seq_new = Some (Inr (obj, t, s')) \<and> in_dword t \<and> addr64 t \<in> random_addrs True \<and>
     alias_free SCOREBOARD_RAM_SIZE (random_addrs True)"
proof -
  have "d_seg ex_draws = 1" by (simp add: ex_draws_def)
  then obtain obj t s' where t: "random_create True ex_draws seq_new = Some (Inr (obj, t, s'))" "request_ok (random_segments True ! 1) t"
    using random_create_ok [OF ex_draws_ok, of seq_new "[]" "random_segments True ! 1" True] pool_start [of 10]
    by (simp add: seq_new_def) blast
  have "random_segments True ! 1 \<in> set (random_segments True)" by (rule nth_mem) (simp add: random_segments_def)
  from random_requests_monitored [OF this t(2)] show ?thesis using t(1) by blast
qed

end
