(* ===== verification/Testbench.thy ===== *)
theory Testbench
  imports Scoreboard_Check
begin

text \<open>
  The test sequence, the FIFO of requests and the scoreboard together, as \<^verbatim>\<open>hpdcache_tb.cpp\<close> connects
  them. The sequence and the scoreboard share one table of identifiers (the scoreboard releases them
  through its pointer to the sequence); the requests reach the scoreboard in the order in which they
  were sent; the cache is unconstrained: any response and any memory traffic may arrive at any time.
\<close>

section \<open>Requests carry the identifier they were given\<close>

definition stamps :: "(nat \<Rightarrow> core_req \<Rightarrow> core_req res) \<Rightarrow> bool" where
  "stamps f \<longleftrightarrow> (\<forall>tid t t'. f tid t = Inr t' \<longrightarrow> req_tid t' = of_nat tid)"

lemma fill_stamps:
  "stamps (fill_request g b raw d)" "stamps (fill_sc a u d)" "stamps (fill_plain g w op d)"
  by (auto simp: stamps_def fill_request_def fill_sc_def fill_plain_def Let_def res_bind_Inr_iff)

lemma build_stamps:
  assumes "build f d s = Some (Inr (obj, t, s'))" "stamps f" "ids_ok (ids s)"
  shows "unat (req_tid t) \<notin> set (ids s)" "set (ids s') = insert (unat (req_tid t)) (set (ids s))" "ids_ok (ids s')"
proof -
  obtain tid js where a: "allocate_id (d_rand d) (ids s) = Inr (tid, js)" "req_tid t = of_nat tid" "ids s' = js"
    using assms(1,2) by (auto simp: build_def stamps_def res_bind_Inr_iff split: if_splits)
  note fresh = trans_ids.alloc_fresh [OF assms(3) a(1)]
  have "unat (req_tid t) = tid" using fresh(2) a(2) by (simp add: unat_of_nat)
  then show "unat (req_tid t) \<notin> set (ids s)" "set (ids s') = insert (unat (req_tid t)) (set (ids s))" "ids_ok (ids s')"
    using fresh a(3) by simp_all
qed

text \<open>The functions with which the sequences create their requests.\<close>

inductive creates :: "creator \<Rightarrow> bool" where
  "creates (random_create wt)"
| "creates (single_create addr)"
| "creates (create_sc_transaction addr uncacheable)"
| "creates read_create"
| "creates write_create"

lemma creates_fresh:
  assumes "creates c" "c d s = Some (Inr (obj, t, s'))" "ids_ok (ids s)"
  shows "unat (req_tid t) \<notin> set (ids s) \<and> set (ids s') = insert (unat (req_tid t)) (set (ids s)) \<and> ids_ok (ids s')"
  using assms
proof (cases rule: creates.cases)
  case (1 wt)
  then show ?thesis using assms(2,3) build_stamps [OF _ fill_stamps(1)] by (auto simp: random_create_def split: if_splits)
next
  case (2 addr)
  then show ?thesis using assms(2,3) build_stamps [OF _ fill_stamps(1)] by (simp add: single_create_def)
next
  case (3 addr u)
  then show ?thesis using assms(2,3) build_stamps [OF _ fill_stamps(2)] by (simp add: create_sc_transaction_def)
next
  case 4
  then show ?thesis using assms(2,3) build_stamps [OF _ fill_stamps(3)] by (simp add: read_create_def)
next
  case 5
  then show ?thesis using assms(2,3) build_stamps [OF _ fill_stamps(3)] by (simp add: write_create_def)
qed

section \<open>Reachable states\<close>

fun is_core_req :: "sb_event \<Rightarrow> bool" where
  "is_core_req (CoreReq junk req) = True"
| "is_core_req ev = False"

text \<open>\<open>Q\<close> holds the requests that were sent and have not reached the scoreboard.\<close>

inductive tb_reach :: "nat \<Rightarrow> seq_state \<Rightarrow> core_req list \<Rightarrow> scoreboard \<Rightarrow> bool" for N where
  tb_start: "ram_wf N ram \<Longrightarrow> tb_reach N seq_new [] (set_error_limit lim (set_mem_resp_model segs (set_sequence [] (scoreboard_new lr ram))))"
| tb_send: "tb_reach N q Q s \<Longrightarrow> creates c \<Longrightarrow> c d (q\<lparr>ids := seq_ids s\<rparr>) = Some (Inr (obj, t, q')) \<Longrightarrow>
    tb_reach N (send_transaction obj t q') (Q @ [t]) (set_sequence (ids q') s)"
| tb_request: "tb_reach N q (req # Q) s \<Longrightarrow> sb_step N (CoreReq junk req) s = Inr s' \<Longrightarrow> tb_reach N q Q s'"
| tb_other: "tb_reach N q Q s \<Longrightarrow> \<not> is_core_req ev \<Longrightarrow> sb_step N ev s = Inr s' \<Longrightarrow> tb_reach N q Q s'"

abbreviation tid_of :: "core_req \<Rightarrow> nat" where "tid_of req \<equiv> unat (req_tid req)"

definition tb_inv :: "nat \<Rightarrow> core_req list \<Rightarrow> scoreboard \<Rightarrow> bool" where
  "tb_inv N Q s \<longleftrightarrow> ram_wf N (ram_m s) \<and> clash_free s \<and> ids_ok (seq_ids s) \<and> distinct (map tid_of Q) \<and>
     set (map tid_of Q) \<subseteq> set (seq_ids s) \<and>
     (\<forall>k. map_find (inflight_m s) k \<noteq> None \<longrightarrow> unat k \<in> set (seq_ids s) - set (map tid_of Q))"

lemma tb_invI:
  assumes "ram_wf N (ram_m s)" "clash_free s" "ids_ok (seq_ids s)" "distinct (map tid_of Q)"
    "set (map tid_of Q) \<subseteq> set (seq_ids s)"
    "\<And>k. map_find (inflight_m s) k \<noteq> None \<Longrightarrow> unat k \<in> set (seq_ids s) - set (map tid_of Q)"
  shows "tb_inv N Q s"
  using assms by (simp add: tb_inv_def)

lemma tb_inv_request:
  assumes "tb_inv N (req # Q) s" "core_req_process N junk req s = Inr s'"
  shows "tb_inv N Q s'"
proof -
  have inv: "ram_wf N (ram_m s)" "clash_free s" "ids_ok (seq_ids s)" "distinct (map tid_of Q)" "\<forall>r \<in> set Q. tid_of r \<noteq> tid_of req"
    "tid_of req \<in> set (seq_ids s)" "tid_of ` set Q \<subseteq> set (seq_ids s)"
    "\<And>k. map_find (inflight_m s) k \<noteq> None \<Longrightarrow> unat k \<in> set (seq_ids s) \<and> unat k \<noteq> tid_of req \<and> unat k \<notin> tid_of ` set Q"
    using assms(1) by (auto simp: tb_inv_def) (metis imageI)
  have wf': "ram_wf N (ram_m s')" using core_req_keeps [OF inv(1) assms(2)] by blast
  show ?thesis
  proof (rule core_req_outcome [OF inv(1), of req junk])
    assume "\<not> free_id req s"
    then show ?thesis using inv(8) [of "ucast (req_tid req)"] by simp
  next
    assume "core_req_process N junk req s = Inr (release_id (tid_of req) (counted req s))"
    then have s': "s' = release_id (tid_of req) (counted req s)" using assms(2) by simp
    have "set (seq_ids s') = set (seq_ids s) - {tid_of req} \<and> ids_ok (seq_ids s')"
      using trans_ids.release_ok [OF inv(3), of "tid_of req"] by (simp add: s' release_id_def counted_def)
    then show ?thesis using inv wf' by (intro tb_invI) (auto simp: s' release_id_def counted_def image_iff)
  next
    fix b assume "core_req_process N junk req s = print_error AmoFifoFull ((counted req s)\<lparr>lrsc_buf_m := b\<rparr>)"
    then have "print_error AmoFifoFull ((counted req s)\<lparr>lrsc_buf_m := b\<rparr>) = Inr s'" using assms(2) by simp
    from print_error_keeps [OF this] show ?thesis
      using inv wf' by (intro tb_invI) (auto simp: core_fields_def counted_def)
  next
    fix d v r assume p: "core_req_process N junk req s = Inr (noted req (resolved junk req s d v) r s)"
    obtain e b where eb: "resolved junk req s d v = (e, b)" by (cases "resolved junk req s d v")
    have s': "s' = noted req (e, b) r s" using p eb assms(2) by simp
    show ?thesis using inv wf'
      by (intro tb_invI) (auto simp: s' noted_def counted_def map_find_insert split: if_splits)
  qed
qed

lemma tb_inv_other:
  assumes "tb_inv N Q s" "\<not> is_core_req ev" "sb_step N ev s = Inr s'"
  shows "tb_inv N Q s'"
proof -
  have inv: "ram_wf N (ram_m s)" "clash_free s" "ids_ok (seq_ids s)"
    "\<And>k. map_find (inflight_m s) k \<noteq> None \<Longrightarrow> unat k \<in> set (seq_ids s) \<and> unat k \<notin> tid_of ` set Q"
    using assms(1) by (auto simp: tb_inv_def)
  have quiet: "core_same s s' \<and> err_step s s' \<Longrightarrow> ?thesis" using assms(1) by (simp add: same_defs tb_inv_def)
  show ?thesis
  proof (cases ev)
    case (CoreReq junk req) then show ?thesis using assms(2) by simp
  next
    case (CoreResp resp)
    then have "core_resp_process N resp s = Inr s'" using assms(3) by simp
    then show ?thesis
    proof (cases rule: core_resp_outcome)
      case rejected
      then show ?thesis using assms(1) by (auto simp: tb_inv_def checked_def)
    next
      case (answered t e)
      let ?k = "unat (rsp_tid resp)"
      have t: "seq_ids t = seq_ids s" "inflight_m t = inflight_m s" "ram_wf N (ram_m t)" "clash_free t"
        using answered(2) inv by (simp_all add: checked_def)
      have ids: "set (seq_ids s') = set (seq_ids s) - {?k} \<and> ids_ok (seq_ids s')"
        using trans_ids.release_ok [OF inv(3), of ?k] by (simp add: answered(3) release_id_def t)
      have k: "\<forall>r \<in> set Q. tid_of r \<noteq> ?k" using inv(4) [of "ucast (rsp_tid resp)"] answered(1)
        by (simp add: image_iff) (metis)
      have ne: "unat k \<noteq> ?k" if "k \<noteq> ucast (rsp_tid resp)" for k :: u32
        using that by (metis unat_rsp_tid word_unat_eq_iff)
      show ?thesis
      proof (rule tb_invI)
        show "unat k \<in> set (seq_ids s') - set (map tid_of Q)" if "map_find (inflight_m s') k \<noteq> None" for k
          using that inv(4) [of k] ne [of k] ids by (auto simp: answered(3) release_id_def t split: if_splits)
      qed (use assms(1) ids k t in \<open>auto simp: answered(3) release_id_def tb_inv_def\<close>)
    qed
  next
    case (MemReadReq x) then show ?thesis using assms(3) mem_read_req_keeps quiet by simp
  next
    case (MemReadResp x) then show ?thesis using assms(3) mem_read_resp_keeps quiet by simp
  next
    case (MemWriteReq x) then show ?thesis using assms(3) mem_write_req_keeps quiet by simp
  next
    case (MemWriteResp x) then show ?thesis using assms(3) mem_write_resp_keeps quiet by simp
  next
    case (PerfEvents i) then show ?thesis using assms(3) perf_events_keeps [of s i] quiet by simp
  qed
qed

lemma tb_reach_inv: "tb_reach N q Q s \<Longrightarrow> tb_inv N Q s"
proof (induction rule: tb_reach.induct)
  case (tb_start ram lim segs lr)
  then show ?case
    by (simp add: tb_inv_def set_error_limit_def set_mem_resp_model_def set_sequence_def scoreboard_new_def ids_ok_def)
next
  case (tb_send q Q s c d obj t q')
  then have inv: "tb_inv N Q s" by blast
  have "unat (req_tid t) \<notin> set (seq_ids s)" "set (ids q') = insert (unat (req_tid t)) (set (seq_ids s))" "ids_ok (ids q')"
    using creates_fresh [OF tb_send(2,3)] inv by (simp_all add: tb_inv_def)
  then show ?case using inv by (auto simp: tb_inv_def set_sequence_def)
next
  case (tb_request q req Q s junk s')
  then show ?case using tb_inv_request by simp
next
  case (tb_other q Q s ev s')
  then show ?case using tb_inv_other by blast
qed

lemma tb_inv_outstanding:
  assumes "tb_inv N Q s"
  shows "length Q + card (dom (map_find (inflight_m s))) \<le> 64"
proof -
  let ?D = "dom (map_find (inflight_m s))"
  have d: "unat ` ?D \<subseteq> set (seq_ids s) - tid_of ` set Q" "set (seq_ids s) \<subseteq> {..<64}" "tid_of ` set Q \<subseteq> set (seq_ids s)"
    using assms by (auto simp: tb_inv_def ids_ok_def)
  have "card (tid_of ` set Q \<union> unat ` ?D) \<le> card {..<64 :: nat}" using d by (intro card_mono) auto
  moreover have "tid_of ` set Q \<inter> unat ` ?D = {}" using d(1) by blast
  moreover have "card (unat ` ?D) = card ?D" by (rule card_image) (meson inj_onI word_unat_eq_iff)
  moreover have "card (tid_of ` set Q) = length Q"
    using assms distinct_card [of "map tid_of Q"] by (simp add: tb_inv_def)
  ultimately show ?thesis by (simp add: card_Un_disjoint finite_dom_map_of)
qed

text \<open>C12: however the sequences send requests and whatever the cache and the memory answer, an
  identifier is never used by two outstanding requests: the scoreboard never prints that a request
  matches one in flight, the requests under way to the scoreboard have pairwise different
  identifiers that are not in flight, and at most 64 requests are outstanding.\<close>

theorem ids_never_clash:
  assumes "tb_reach N q Q s"
  shows "clash_free s \<and> distinct (map tid_of Q) \<and>
    (\<forall>k e. map_find (inflight_m s) k = Some e \<longrightarrow> unat k \<notin> tid_of ` set Q) \<and>
    length Q + card (dom (map_find (inflight_m s))) \<le> 64"
  using tb_reach_inv [OF assms] tb_inv_outstanding [OF tb_reach_inv [OF assms]] by (fastforce simp: tb_inv_def)

theorem ids_never_clash_witness:
  "\<exists>q t s. tb_reach 8 q [t] s \<and> clash_free s \<and> seq_ids s = [tid_of t]"
proof -
  have st: "tb_reach 8 seq_new [] (set_error_limit 0 (set_mem_resp_model [] (set_sequence [] (scoreboard_new (make_lr 0) (ram_new 8 (\<lambda>_. 0))))))"
    (is "tb_reach 8 seq_new [] ?s") by (rule tb_start) (simp add: ram_new_wf)
  have ids: "seq_new\<lparr>ids := seq_ids ?s\<rparr> = seq_new"
    by (simp add: seq_new_def set_error_limit_def set_mem_resp_model_def set_sequence_def)
  obtain obj t q' where t: "random_create True ex_draws seq_new = Some (Inr (obj, t, q'))" "ids q' = [tid_of t]"
    using random_create_ok [OF ex_draws_ok, of seq_new "[]" _ True] pool_start [of 10] by (auto simp: seq_new_def)
  have "tb_reach 8 (send_transaction obj t q') ([] @ [t]) (set_sequence (ids q') ?s)"
    by (rule tb_send [OF st creates.intros(1), of True ex_draws]) (simp only: ids t(1))
  then show ?thesis using ids_never_clash t(2) by (fastforce simp: set_sequence_def)
qed

end
