(* ===== verification/Tb_Main.thy ===== *)
theory Tb_Main
  imports Testbench
begin

text \<open>
  The main program of the cache testbench, \<^verbatim>\<open>hpdcache_tb.cpp\<close>: the options, the choice of the sequence,
  and the clock loop. The SystemC kernel with the compiled design is a parameter: what it does when time
  advances with given values of reset and clock, and whether the design has asked to finish. The
  conversions of the C library (\<^verbatim>\<open>atoll\<close>, \<^verbatim>\<open>strtol\<close>, \<^verbatim>\<open>atoi\<close>) are parameters, and \<^verbatim>\<open>getopt_long\<close> gives the list
  of options with their arguments. The bindings of the ports in \<^verbatim>\<open>build\<close> are not modelled.
\<close>

datatype tb_sequence = RandomSeq | ReadSeq | WriteSeq | SingleAddrSeq

record hpdcache_test =
  max_cycles :: u64
  max_trans :: u64
  error_limit :: u64
  trace_on :: bool
  trace_name :: string
  covname :: string
  tb_seq :: "tb_sequence option"
  tb_seed :: "int option"
  log_level :: int

text \<open>The constructor leaves \<open>trace_on\<close> as it is in memory.\<close>

definition new_test :: "bool \<Rightarrow> hpdcache_test" where
  "new_test junk = \<lparr>max_cycles = 2 ^ 30, max_trans = 100, error_limit = 0, trace_on = junk, trace_name = [],
     covname = [], tb_seq = None, tb_seed = None, log_level = 2\<rparr>"

text \<open>The ways in which the program ends other than by returning from \<^verbatim>\<open>simulate\<close>.\<close>

datatype tb_end = Exit nat | NullSequence

definition tb_set_sequence :: "string \<Rightarrow> hpdcache_test \<Rightarrow> tb_end + hpdcache_test" where
  "tb_set_sequence nm t =
     (if tb_seq t \<noteq> None then Inl (Exit 1)
      else if nm = ''random'' then Inr (t\<lparr>tb_seq := Some RandomSeq\<rparr>)
      else if nm = ''read'' then Inr (t\<lparr>tb_seq := Some ReadSeq\<rparr>)
      else if nm = ''write'' then Inr (t\<lparr>tb_seq := Some WriteSeq\<rparr>)
      else if nm = ''single_addr'' then Inr (t\<lparr>tb_seq := Some SingleAddrSeq\<rparr>)
      else Inl (Exit 1))"

record clib =
  atoll :: "string \<Rightarrow> u64"
  strtol :: "string \<Rightarrow> int"
  atoi :: "string \<Rightarrow> int"

definition tb_option :: "clib \<Rightarrow> char \<Rightarrow> string \<Rightarrow> hpdcache_test \<Rightarrow> tb_end + hpdcache_test" where
  "tb_option L c optarg t =
     (if c = CHR ''?'' \<or> c = CHR ''h'' then Inl (Exit 0)
      else if c = CHR ''m'' then Inr (t\<lparr>max_cycles := atoll L optarg\<rparr>)
      else if c = CHR ''n'' then Inr (t\<lparr>max_trans := atoll L optarg\<rparr>)
      else if c = CHR ''r'' then Inr (t\<lparr>tb_seed := Some (strtol L optarg)\<rparr>)
      else if c = CHR ''t'' then Inr (t\<lparr>trace_on := True, trace_name := optarg\<rparr>)
      else if c = CHR ''c'' then Inr (t\<lparr>covname := optarg\<rparr>)
      else if c = CHR ''l'' then
        let level = atoi L optarg in if 0 \<le> level \<and> level \<le> 5 then Inr (t\<lparr>log_level := level\<rparr>) else Inl (Exit 1)
      else if c = CHR ''s'' then tb_set_sequence optarg t
      else if c = CHR ''e'' then Inr (t\<lparr>error_limit := atoll L optarg\<rparr>)
      else Inr t)"

primrec tb_options :: "clib \<Rightarrow> (char \<times> string) list \<Rightarrow> hpdcache_test \<Rightarrow> tb_end + hpdcache_test" where
  "tb_options L [] t = Inr t"
| "tb_options L (o1 # os) t = (case tb_option L (fst o1) (snd o1) t of Inl x \<Rightarrow> Inl x | Inr t \<Rightarrow> tb_options L os t)"

section \<open>The clock\<close>

record 'd kernel =
  sc_start_zero :: "'d \<Rightarrow> 'd"
  sc_trace :: "string \<Rightarrow> 'd \<Rightarrow> 'd"
  sc_config :: "(string \<times> nat) list \<Rightarrow> 'd \<Rightarrow> 'd"
  sc_start :: "bool \<Rightarrow> bool \<Rightarrow> 'd \<Rightarrow> 'd"
  gotFinish :: "'d \<Rightarrow> bool"

definition cfg_values :: "(string \<times> nat) list" where
  "cfg_values = [(''wbuf_flush'', 0), (''cfg_enable'', 1), (''cfg_wbuf_threshold'', 1),
     (''cfg_wbuf_reset_timecnt_on_write'', 1), (''cfg_wbuf_sequential_waw'', 0),
     (''cfg_wbuf_inhibit_write_coalescing'', 0), (''cfg_prefetch_updt_plru'', 0),
     (''cfg_error_on_cacheable_amo'', 0), (''cfg_rtab_single_entry'', 0), (''cfg_default_wb'', 0)]"

lemma unat_inc_less:
  assumes "a < (b :: u64)"
  shows "unat (a + 1) = unat a + 1"
proof -
  have "unat a + 1 < 2 ^ LENGTH(64)" using assms unat_less_exp [of b] unfolding word_less_nat_alt by linarith
  then show ?thesis by (simp add: unat_word_ariths)
qed

text \<open>One clock cycle: low for half a period, then high.\<close>

definition reset_cycles :: "'d kernel \<Rightarrow> bool \<Rightarrow> 'd \<Rightarrow> 'd" where
  "reset_cycles K rst_n d = for_upto 5 (\<lambda>cycles d. sc_start K rst_n True (sc_start K rst_n False d)) d"

function clock_loop :: "'d kernel \<Rightarrow> u64 \<Rightarrow> u64 \<Rightarrow> 'd \<Rightarrow> u64 \<times> 'd" where
  "clock_loop K mx cycles d =
     (if cycles < mx
      then let d = sc_start K True False d in
           if gotFinish K d then (cycles, d)
           else let d = sc_start K True True d in
                if gotFinish K d then (cycles, d) else clock_loop K mx (cycles + 1) d
      else (cycles, d))"
  by auto
termination
proof (relation "measure (\<lambda>(K, mx, cycles, d). unat mx - unat cycles)")
  fix K :: "'d kernel" and mx cycles :: u64 and d x y :: 'd
  assume "cycles < mx"
  then have "unat (cycles + 1) = unat cycles + 1" "unat cycles < unat mx"
    by (simp_all add: unat_inc_less word_less_nat_alt)
  then show "((K, mx, cycles + 1, y), K, mx, cycles, d) \<in> measure (\<lambda>(K, mx, cycles, d). unat mx - unat cycles)" by simp
qed simp

declare clock_loop.simps [simp del]

definition simulate :: "'d kernel \<Rightarrow> hpdcache_test \<Rightarrow> 'd \<Rightarrow> u64 \<times> 'd" where
  "simulate K t d =
     (let d = sc_start_zero K d;
          d = (if trace_on t then sc_trace K (trace_name t) d else d);
          d = sc_config K cfg_values d;
          d = reset_cycles K True d;
          d = reset_cycles K False d
      in clock_loop K (max_cycles t) 5 d)"

text \<open>\<^verbatim>\<open>build\<close> dereferences the sequence; \<open>built\<close> is what it sets up on the scoreboard and the sequence.\<close>

definition sc_main ::
  "clib \<Rightarrow> 'd kernel \<Rightarrow> (hpdcache_test \<Rightarrow> 'd) \<Rightarrow> bool \<Rightarrow> (char \<times> string) list \<Rightarrow> tb_end + (u64 \<times> 'd)" where
  "sc_main L K built junk opts =
     (case tb_options L opts (new_test junk) of
        Inl x \<Rightarrow> Inl x
      | Inr t \<Rightarrow> if tb_seq t = None then Inl NullSequence else Inr (simulate K t (built t)))"

section \<open>The waveform\<close>

text \<open>The state after \<open>n\<close> half cycles, when the clock toggles in every half cycle and reset is low in the
  second block of ten.\<close>

definition after_half :: "'d kernel \<Rightarrow> 'd \<Rightarrow> nat \<Rightarrow> 'd" where
  "after_half K d n = for_upto n (\<lambda>i d. sc_start K (i < 10 \<or> 20 \<le> i) (odd i) d) d"

lemma after_half_Suc: "after_half K d (Suc n) = sc_start K (n < 10 \<or> 20 \<le> n) (odd n) (after_half K d n)"
  by (simp add: after_half_def)

lemma reset_after_half: "reset_cycles K False (reset_cycles K True d) = after_half K d 20"
  by (simp add: reset_cycles_def after_half_def for_upto_def upt_conv_Cons)

lemma clock_loop_after_half:
  assumes "unat cycles = c" "5 \<le> c" "c \<le> unat mx"
  shows "\<exists>h. snd (clock_loop K mx cycles (after_half K d (10 + 2 * c))) = after_half K d h \<and>
     10 + 2 * c \<le> h \<and> h \<le> 10 + 2 * unat mx \<and> (\<forall>j. 10 + 2 * c < j \<and> j < h \<longrightarrow> \<not> gotFinish K (after_half K d j)) \<and>
     (h = 10 + 2 * unat mx \<or> 10 + 2 * c < h \<and> gotFinish K (after_half K d h))"
  using assms
proof (induction "unat mx - c" arbitrary: c cycles)
  case 0
  then have "\<not> cycles < mx" "c = unat mx" by (simp_all add: word_less_nat_alt)
  then show ?case by (subst clock_loop.simps) auto
next
  case (Suc n)
  let ?h = "10 + 2 * c" and ?st = "after_half K d"
  have lt: "cycles < mx" using Suc by (simp add: word_less_nat_alt)
  have half: "?st (Suc ?h) = sc_start K True False (?st ?h)" "?st (Suc (Suc ?h)) = sc_start K True True (?st (Suc ?h))"
    using Suc.prems(2) after_half_Suc [of K d ?h] after_half_Suc [of K d "Suc ?h"] by simp_all
  consider "gotFinish K (?st (Suc ?h))" | "\<not> gotFinish K (?st (Suc ?h))" "gotFinish K (?st (Suc (Suc ?h)))"
    | "\<not> gotFinish K (?st (Suc ?h))" "\<not> gotFinish K (?st (Suc (Suc ?h)))" by blast
  then show ?case
  proof cases
    case 1
    then have "snd (clock_loop K mx cycles (?st ?h)) = ?st (Suc ?h)"
      using lt half(1) by (subst clock_loop.simps) (simp add: Let_def)
    then show ?thesis using 1 Suc(2) by (intro exI [of _ "Suc ?h"]) auto
  next
    case 2
    then have "snd (clock_loop K mx cycles (?st ?h)) = ?st (Suc (Suc ?h))"
      using lt half by (subst clock_loop.simps) (simp add: Let_def)
    moreover have "j = Suc ?h" if "?h < j" "j < Suc (Suc ?h)" for j using that by linarith
    ultimately show ?thesis using 2 Suc(2) by (intro exI [of _ "Suc (Suc ?h)"]) fastforce
  next
    case 3
    have next_h: "Suc (Suc ?h) = 10 + 2 * (c + 1)" by simp
    have step: "clock_loop K mx cycles (?st ?h) = clock_loop K mx (cycles + 1) (?st (10 + 2 * (c + 1)))"
      using lt half 3 unfolding next_h [symmetric] by (subst clock_loop.simps) (simp add: Let_def)
    have "n = unat mx - (c + 1)" "unat (cycles + 1) = c + 1" "5 \<le> c + 1" "c + 1 \<le> unat mx"
      using Suc unat_inc_less [OF lt] by simp_all
    from Suc.hyps(1) [OF this] obtain h where h: "snd (clock_loop K mx (cycles + 1) (?st (10 + 2 * (c + 1)))) = ?st h"
      "10 + 2 * (c + 1) \<le> h" "h \<le> 10 + 2 * unat mx" "\<forall>j. 10 + 2 * (c + 1) < j \<and> j < h \<longrightarrow> \<not> gotFinish K (?st j)"
      "h = 10 + 2 * unat mx \<or> 10 + 2 * (c + 1) < h \<and> gotFinish K (?st h)" by blast
    have "\<not> gotFinish K (?st j)" if jh: "?h < j" "j < h" for j
    proof -
      have "j = Suc ?h \<or> j = Suc (Suc ?h) \<or> 10 + 2 * (c + 1) < j" using jh(1) by auto
      then show ?thesis using 3 h(4) jh(2) by auto
    qed
    then show ?thesis using step h by (intro exI [of _ h]) auto
  qed
qed

definition configured :: "'d kernel \<Rightarrow> hpdcache_test \<Rightarrow> 'd \<Rightarrow> 'd" where
  "configured K t d = sc_config K cfg_values
     (if trace_on t then sc_trace K (trace_name t) (sc_start_zero K d) else sc_start_zero K d)"

text \<open>C40: with a sequence selected, the main program always comes to an end: it toggles the clock in every half
  cycle, holds reset for the second five cycles only, and stops after the first half cycle after that
  in which the design asks to finish, or after \<^verbatim>\<open>max_cycles\<close> cycles counted from the end of the first five.\<close>

theorem sc_main_waveform:
  assumes "tb_options L opts (new_test junk) = Inr t" "tb_seq t \<noteq> None" "5 \<le> max_cycles t"
  shows "\<exists>n h. sc_main L K built junk opts = Inr (n, after_half K (configured K t (built t)) h) \<and>
     20 \<le> h \<and> h \<le> 10 + 2 * unat (max_cycles t) \<and>
     (\<forall>j. 20 < j \<and> j < h \<longrightarrow> \<not> gotFinish K (after_half K (configured K t (built t)) j)) \<and>
     (h = 10 + 2 * unat (max_cycles t) \<or> gotFinish K (after_half K (configured K t (built t)) h))"
proof -
  let ?d = "configured K t (built t)"
  have "simulate K t (built t) = clock_loop K (max_cycles t) 5 (after_half K ?d 20)"
    by (simp add: simulate_def configured_def Let_def reset_after_half)
  moreover obtain h where "snd (clock_loop K (max_cycles t) 5 (after_half K ?d (10 + 2 * 5))) = after_half K ?d h"
    "10 + 2 * 5 \<le> h" "h \<le> 10 + 2 * unat (max_cycles t)" "\<forall>j. 10 + 2 * 5 < j \<and> j < h \<longrightarrow> \<not> gotFinish K (after_half K ?d j)"
    "h = 10 + 2 * unat (max_cycles t) \<or> 10 + 2 * 5 < h \<and> gotFinish K (after_half K ?d h)"
    using clock_loop_after_half [of 5 5 "max_cycles t" K ?d] assms(3) by (auto simp: word_le_nat_alt)
  ultimately show ?thesis using assms(1,2)
    by (intro exI [of _ "fst (simulate K t (built t))"] exI [of _ h]) (auto simp: sc_main_def prod_eq_iff)
qed

text \<open>A kernel that counts the half cycles and finishes at the 23rd.\<close>

definition counting_kernel :: "nat kernel" where
  "counting_kernel = \<lparr>sc_start_zero = (\<lambda>d. d), sc_trace = (\<lambda>_ d. d), sc_config = (\<lambda>_ d. d),
     sc_start = (\<lambda>_ _ d. d + 1), gotFinish = (\<lambda>d. 23 \<le> d)\<rparr>"

definition zero_clib :: clib where
  "zero_clib = \<lparr>atoll = (\<lambda>_. 0), strtol = (\<lambda>_. 0), atoi = (\<lambda>_. 0)\<rparr>"

theorem sc_main_waveform_witness:
  "\<exists>n. sc_main zero_clib counting_kernel (\<lambda>_. 0) False [(CHR ''s'', ''random'')] = Inr (n, 23)"
proof -
  have st: "after_half counting_kernel 0 h = h" for h
    by (induction h) (simp_all add: after_half_def counting_kernel_def)
  have k: "configured counting_kernel t 0 = 0" "gotFinish counting_kernel d = (23 \<le> d)" for t d
    by (simp_all add: configured_def counting_kernel_def)
  have o: "tb_options zero_clib [(CHR ''s'', ''random'')] (new_test False) = Inr ((new_test False)\<lparr>tb_seq := Some RandomSeq\<rparr>)"
    by (simp add: tb_option_def tb_set_sequence_def new_test_def)
  have mx: "max_cycles (new_test False) = 2 ^ 30" by (simp add: new_test_def)
  obtain n h where r: "sc_main zero_clib counting_kernel (\<lambda>_. 0) False [(CHR ''s'', ''random'')] = Inr (n, h)"
    "20 \<le> h" "\<forall>j. 20 < j \<and> j < h \<longrightarrow> \<not> 23 \<le> j" "h = 10 + 2 * 2 ^ 30 \<or> 23 \<le> h"
    using sc_main_waveform [OF o, of counting_kernel "\<lambda>_. 0"] mx unfolding k st
    by (auto simp: new_test_def word_le_nat_alt)
  have "\<not> 23 < h" using r(3) [rule_format, of 23] by auto
  then have "h = 23" using r(4) by auto
  then show ?thesis using r(1) by blast
qed

end
