(* ===== verification/Wiring.thy ===== *)
theory Wiring
  imports Tb_Main "HOL-Library.Multiset"
begin

text \<open>
  The wiring of the cache testbench: the ports of its modules, the channels (signals and FIFOs) that
  \<^verbatim>\<open>hpdcache_tb.cpp\<close> declares, and the port bindings that \<^verbatim>\<open>build\<close>, the constructor of the
  agent and \<^verbatim>\<open>add_sequence\<close> make. Binding is modelled as SystemC does it: a binding names a port and
  a channel of a matching kind and type, a port is bound once, and at the end of elaboration every port must be bound.
  The types of the cache's ports come from generated code and are left open; their names and directions
  are those of \<^verbatim>\<open>hpdcache_wrapper.sv\<close>. The argument \<open>openpiton\<close> is the configuration switch
  \<^verbatim>\<open>HPDCACHE_OPENPITON\<close>.
\<close>

section \<open>Names\<close>

text \<open>The names of channels and ports are values of a datatype, so that comparing two of them is one step;
  \<open>name_of\<close> gives the spelling of a channel. A port has the name of a wire with the suffix
  \<^verbatim>\<open>_i\<close> or \<^verbatim>\<open>_o\<close>.\<close>

datatype field = F_bits | F_valid | F_ready | F_abort | F_tag | F_pma | F_addr | F_len | F_size | F_id | F_command
    | F_atomic | F_cacheable | F_error | F_data | F_last | F_inval | F_inval_nline | F_data_ready | F_data_valid | F_be
    | F_is_atomic

datatype evt_name = E_cache_write_miss | E_cache_read_miss | E_uncached_req | E_cmo_req | E_write_req | E_read_req
    | E_prefetch_req | E_req_on_hold | E_rtab_rollback | E_stall_refill | E_stall

datatype cfg_name = C_enable | C_wbuf_threshold | C_wbuf_reset_timecnt_on_write | C_wbuf_sequential_waw
    | C_wbuf_inhibit_write_coalescing | C_prefetch_updt_plru | C_error_on_cacheable_amo | C_rtab_single_entry
    | C_default_wb

datatype sb_name = Sb_core_req | Sb_core_resp | Sb_mem_read_req | Sb_mem_read_resp | Sb_mem_write_req
    | Sb_mem_write_resp

datatype wire = Clk | Rst | Wbuf_flush | Wbuf_empty | Core_req_w field | Core_rsp_w field | Mem_req_read field
  | Mem_resp_read field | Mem_req_write field | Mem_resp_write field | Evt evt_name | Cfg cfg_name | Sb sb_name
  | Unprefixed sb_name | Transaction_fifo | Transaction_ret

datatype suffix = SI | SO

fun field_name :: "field \<Rightarrow> string" where
  "field_name F_bits = ''''"
| "field_name F_valid = ''_valid''"
| "field_name F_ready = ''_ready''"
| "field_name F_abort = ''_abort''"
| "field_name F_tag = ''_tag''"
| "field_name F_pma = ''_pma''"
| "field_name F_addr = ''_addr''"
| "field_name F_len = ''_len''"
| "field_name F_size = ''_size''"
| "field_name F_id = ''_id''"
| "field_name F_command = ''_command''"
| "field_name F_atomic = ''_atomic''"
| "field_name F_cacheable = ''_cacheable''"
| "field_name F_error = ''_error''"
| "field_name F_data = ''_data''"
| "field_name F_last = ''_last''"
| "field_name F_inval = ''_inval''"
| "field_name F_inval_nline = ''_inval_nline''"
| "field_name F_data_ready = ''_data_ready''"
| "field_name F_data_valid = ''_data_valid''"
| "field_name F_be = ''_be''"
| "field_name F_is_atomic = ''_is_atomic''"

fun evt_str :: "evt_name \<Rightarrow> string" where
  "evt_str E_cache_write_miss = ''cache_write_miss''"
| "evt_str E_cache_read_miss = ''cache_read_miss''"
| "evt_str E_uncached_req = ''uncached_req''"
| "evt_str E_cmo_req = ''cmo_req''"
| "evt_str E_write_req = ''write_req''"
| "evt_str E_read_req = ''read_req''"
| "evt_str E_prefetch_req = ''prefetch_req''"
| "evt_str E_req_on_hold = ''req_on_hold''"
| "evt_str E_rtab_rollback = ''rtab_rollback''"
| "evt_str E_stall_refill = ''stall_refill''"
| "evt_str E_stall = ''stall''"

fun cfg_str :: "cfg_name \<Rightarrow> string" where
  "cfg_str C_enable = ''enable''"
| "cfg_str C_wbuf_threshold = ''wbuf_threshold''"
| "cfg_str C_wbuf_reset_timecnt_on_write = ''wbuf_reset_timecnt_on_write''"
| "cfg_str C_wbuf_sequential_waw = ''wbuf_sequential_waw''"
| "cfg_str C_wbuf_inhibit_write_coalescing = ''wbuf_inhibit_write_coalescing''"
| "cfg_str C_prefetch_updt_plru = ''prefetch_updt_plru''"
| "cfg_str C_error_on_cacheable_amo = ''error_on_cacheable_amo''"
| "cfg_str C_rtab_single_entry = ''rtab_single_entry''"
| "cfg_str C_default_wb = ''default_wb''"

fun sb_str :: "sb_name \<Rightarrow> string" where
  "sb_str Sb_core_req = ''core_req''"
| "sb_str Sb_core_resp = ''core_resp''"
| "sb_str Sb_mem_read_req = ''mem_read_req''"
| "sb_str Sb_mem_read_resp = ''mem_read_resp''"
| "sb_str Sb_mem_write_req = ''mem_write_req''"
| "sb_str Sb_mem_write_resp = ''mem_write_resp''"

fun name_of :: "wire \<Rightarrow> string" where
  "name_of Clk = ''clk_i''"
| "name_of Rst = ''rst_ni''"
| "name_of Wbuf_flush = ''wbuf_flush''"
| "name_of Wbuf_empty = ''wbuf_empty''"
| "name_of (Core_req_w f) = ''core_req'' @ field_name f"
| "name_of (Core_rsp_w f) = ''core_rsp'' @ field_name f"
| "name_of (Mem_req_read f) = ''mem_req_read'' @ field_name f"
| "name_of (Mem_resp_read f) = ''mem_resp_read'' @ field_name f"
| "name_of (Mem_req_write f) = ''mem_req_write'' @ field_name f"
| "name_of (Mem_resp_write f) = ''mem_resp_write'' @ field_name f"
| "name_of (Evt e) = ''evt_'' @ evt_str e"
| "name_of (Cfg c) = ''cfg_'' @ cfg_str c"
| "name_of (Sb b) = ''sb_'' @ sb_str b"
| "name_of (Unprefixed b) = sb_str b"
| "name_of Transaction_fifo = ''transaction_fifo''"
| "name_of Transaction_ret = ''transaction_ret''"

section \<open>Ports and channels\<close>

datatype sig_type = Bool | Uint32 | Uint64 | Tag | Bv nat | Core_req | Core_resp | Mem_read_req | Mem_read_resp
  | Mem_write_req | Mem_write_resp | Transaction_ptr

datatype port_dir = In | Out | Fifo_in | Fifo_out

datatype chan = Signal sig_type | Fifo sig_type

type_synonym wire_name = "wire \<times> suffix"
type_synonym port = "wire_name \<times> port_dir \<times> sig_type option"
type_synonym binding = "wire_name \<times> wire"

definition top_ports :: "bool \<Rightarrow> port list" where
  "top_ports openpiton =
   [((Clk, SI), In, None), ((Rst, SI), In, None), ((Wbuf_flush, SI), In, None), ((Core_req_w F_valid, SI), In, None),
     ((Core_req_w F_ready, SO), Out, None), ((Core_req_w F_bits, SI), In, None), ((Core_req_w F_abort, SI), In, None),
     ((Core_req_w F_tag, SI), In, None), ((Core_req_w F_pma, SI), In, None), ((Core_rsp_w F_valid, SO), Out, None),
     ((Core_rsp_w F_bits, SO), Out, None), ((Mem_req_read F_ready, SI), In, None), ((Mem_req_read F_valid, SO), Out, None),
     ((Mem_req_read F_addr, SO), Out, None), ((Mem_req_read F_len, SO), Out, None), ((Mem_req_read F_size, SO), Out, None),
     ((Mem_req_read F_id, SO), Out, None), ((Mem_req_read F_command, SO), Out, None),
     ((Mem_req_read F_atomic, SO), Out, None), ((Mem_req_read F_cacheable, SO), Out, None),
     ((Mem_resp_read F_ready, SO), Out, None), ((Mem_resp_read F_valid, SI), In, None),
     ((Mem_resp_read F_error, SI), In, None), ((Mem_resp_read F_id, SI), In, None), ((Mem_resp_read F_data, SI), In, None),
     ((Mem_resp_read F_last, SI), In, None)] @
   (if openpiton then [((Mem_resp_read F_inval, SI), In, None), ((Mem_resp_read F_inval_nline, SI), In, None)] else []) @
   [((Mem_req_write F_ready, SI), In, None), ((Mem_req_write F_valid, SO), Out, None),
     ((Mem_req_write F_addr, SO), Out, None), ((Mem_req_write F_len, SO), Out, None),
     ((Mem_req_write F_size, SO), Out, None), ((Mem_req_write F_id, SO), Out, None),
     ((Mem_req_write F_command, SO), Out, None), ((Mem_req_write F_atomic, SO), Out, None),
     ((Mem_req_write F_cacheable, SO), Out, None), ((Mem_req_write F_data_ready, SI), In, None),
     ((Mem_req_write F_data_valid, SO), Out, None), ((Mem_req_write F_data, SO), Out, None),
     ((Mem_req_write F_be, SO), Out, None), ((Mem_req_write F_last, SO), Out, None),
     ((Mem_resp_write F_ready, SO), Out, None), ((Mem_resp_write F_valid, SI), In, None),
     ((Mem_resp_write F_is_atomic, SI), In, None), ((Mem_resp_write F_error, SI), In, None),
     ((Mem_resp_write F_id, SI), In, None), ((Evt E_cache_write_miss, SO), Out, None),
     ((Evt E_cache_read_miss, SO), Out, None), ((Evt E_uncached_req, SO), Out, None), ((Evt E_cmo_req, SO), Out, None),
     ((Evt E_write_req, SO), Out, None), ((Evt E_read_req, SO), Out, None), ((Evt E_prefetch_req, SO), Out, None),
     ((Evt E_req_on_hold, SO), Out, None), ((Evt E_rtab_rollback, SO), Out, None), ((Evt E_stall_refill, SO), Out, None),
     ((Evt E_stall, SO), Out, None), ((Wbuf_empty, SO), Out, None), ((Cfg C_enable, SI), In, None),
     ((Cfg C_wbuf_threshold, SI), In, None), ((Cfg C_wbuf_reset_timecnt_on_write, SI), In, None),
     ((Cfg C_wbuf_sequential_waw, SI), In, None), ((Cfg C_wbuf_inhibit_write_coalescing, SI), In, None),
     ((Cfg C_prefetch_updt_plru, SI), In, None), ((Cfg C_error_on_cacheable_amo, SI), In, None),
     ((Cfg C_rtab_single_entry, SI), In, None), ((Cfg C_default_wb, SI), In, None)]"

definition agent_ports :: "port list" where
  "agent_ports =
   [((Clk, SI), In, Some Bool), ((Rst, SI), In, Some Bool), ((Core_req_w F_valid, SO), Out, Some Bool),
     ((Core_req_w F_ready, SI), In, Some Bool), ((Core_req_w F_bits, SO), Out, Some (Bv HPDCACHE_CORE_REQ_WIDTH)),
     ((Core_req_w F_tag, SO), Out, Some Tag), ((Core_req_w F_pma, SO), Out, Some Uint32),
     ((Core_req_w F_abort, SO), Out, Some Bool), ((Core_rsp_w F_valid, SI), In, Some Bool),
     ((Core_rsp_w F_bits, SI), In, Some (Bv HPDCACHE_CORE_RSP_WIDTH)), ((Sb Sb_core_req, SO), Fifo_out, Some Core_req),
     ((Sb Sb_core_resp, SO), Fifo_out, Some Core_resp)]"

definition driver_ports :: "port list" where
  "driver_ports =
   [((Clk, SI), In, Some Bool), ((Rst, SI), In, Some Bool), ((Transaction_fifo, SI), Fifo_in, Some Transaction_ptr),
     ((Transaction_ret, SO), Fifo_out, Some Uint64), ((Core_req_w F_valid, SO), Out, Some Bool),
     ((Core_req_w F_ready, SI), In, Some Bool), ((Core_req_w F_bits, SO), Out, Some (Bv HPDCACHE_CORE_REQ_WIDTH)),
     ((Core_req_w F_abort, SO), Out, Some Bool), ((Core_req_w F_tag, SO), Out, Some Tag),
     ((Core_req_w F_pma, SO), Out, Some Uint32), ((Core_rsp_w F_valid, SI), In, Some Bool),
     ((Core_rsp_w F_bits, SI), In, Some (Bv HPDCACHE_CORE_RSP_WIDTH)), ((Sb Sb_core_req, SO), Fifo_out, Some Core_req),
     ((Sb Sb_core_resp, SO), Fifo_out, Some Core_resp)]"

definition sequence_ports :: "port list" where
  "sequence_ports =
   [((Clk, SI), In, Some Bool), ((Rst, SI), In, Some Bool), ((Transaction_fifo, SO), Fifo_out, Some Transaction_ptr),
     ((Transaction_ret, SI), Fifo_in, Some Uint64)]"

definition mem_ports :: "bool \<Rightarrow> port list" where
  "mem_ports openpiton =
   [((Clk, SI), In, Some Bool), ((Rst, SI), In, Some Bool), ((Mem_req_read F_ready, SO), Out, Some Bool),
     ((Mem_req_read F_valid, SI), In, Some Bool), ((Mem_req_read F_addr, SI), In, Some Uint64),
     ((Mem_req_read F_len, SI), In, Some Uint32), ((Mem_req_read F_size, SI), In, Some Uint32),
     ((Mem_req_read F_id, SI), In, Some Uint32), ((Mem_req_read F_command, SI), In, Some Uint32),
     ((Mem_req_read F_atomic, SI), In, Some Uint32), ((Mem_req_read F_cacheable, SI), In, Some Bool),
     ((Mem_resp_read F_ready, SI), In, Some Bool), ((Mem_resp_read F_valid, SO), Out, Some Bool),
     ((Mem_resp_read F_error, SO), Out, Some Uint32), ((Mem_resp_read F_id, SO), Out, Some Uint32),
     ((Mem_resp_read F_data, SO), Out, Some (Bv HPDCACHE_MEM_DATA_WIDTH)), ((Mem_resp_read F_last, SO), Out, Some Bool)] @
   (if openpiton then [((Mem_resp_read F_inval, SO), Out, Some Bool), ((Mem_resp_read F_inval_nline, SO), Out, Some Uint64)] else []) @
   [((Mem_req_write F_ready, SO), Out, Some Bool), ((Mem_req_write F_valid, SI), In, Some Bool),
     ((Mem_req_write F_addr, SI), In, Some Uint64), ((Mem_req_write F_len, SI), In, Some Uint32),
     ((Mem_req_write F_size, SI), In, Some Uint32), ((Mem_req_write F_id, SI), In, Some Uint32),
     ((Mem_req_write F_command, SI), In, Some Uint32), ((Mem_req_write F_atomic, SI), In, Some Uint32),
     ((Mem_req_write F_cacheable, SI), In, Some Bool), ((Mem_req_write F_data_ready, SO), Out, Some Bool),
     ((Mem_req_write F_data_valid, SI), In, Some Bool), ((Mem_req_write F_data, SI), In, Some (Bv HPDCACHE_MEM_DATA_WIDTH)),
     ((Mem_req_write F_be, SI), In, Some Uint64), ((Mem_req_write F_last, SI), In, Some Bool),
     ((Mem_resp_write F_ready, SI), In, Some Bool), ((Mem_resp_write F_valid, SO), Out, Some Bool),
     ((Mem_resp_write F_is_atomic, SO), Out, Some Bool), ((Mem_resp_write F_error, SO), Out, Some Uint32),
     ((Mem_resp_write F_id, SO), Out, Some Uint32), ((Sb Sb_mem_read_req, SO), Fifo_out, Some Mem_read_req),
     ((Sb Sb_mem_read_resp, SO), Fifo_out, Some Mem_read_resp), ((Sb Sb_mem_write_req, SO), Fifo_out, Some Mem_write_req),
     ((Sb Sb_mem_write_resp, SO), Fifo_out, Some Mem_write_resp)]"

definition scoreboard_ports :: "port list" where
  "scoreboard_ports =
   [((Clk, SI), In, Some Bool), ((Unprefixed Sb_core_req, SI), Fifo_in, Some Core_req),
     ((Unprefixed Sb_core_resp, SI), Fifo_in, Some Core_resp),
     ((Unprefixed Sb_mem_read_req, SI), Fifo_in, Some Mem_read_req),
     ((Unprefixed Sb_mem_read_resp, SI), Fifo_in, Some Mem_read_resp),
     ((Unprefixed Sb_mem_write_req, SI), Fifo_in, Some Mem_write_req),
     ((Unprefixed Sb_mem_write_resp, SI), Fifo_in, Some Mem_write_resp), ((Evt E_cache_write_miss, SI), In, Some Bool),
     ((Evt E_cache_read_miss, SI), In, Some Bool), ((Evt E_uncached_req, SI), In, Some Bool),
     ((Evt E_cmo_req, SI), In, Some Bool), ((Evt E_write_req, SI), In, Some Bool), ((Evt E_read_req, SI), In, Some Bool),
     ((Evt E_prefetch_req, SI), In, Some Bool), ((Evt E_req_on_hold, SI), In, Some Bool),
     ((Evt E_rtab_rollback, SI), In, Some Bool), ((Evt E_stall_refill, SI), In, Some Bool),
     ((Evt E_stall, SI), In, Some Bool)]"

section \<open>The channels of the testbench\<close>

definition tb_channels :: "bool \<Rightarrow> (wire \<times> chan) list" where
  "tb_channels openpiton =
   [(Clk, Signal Bool), (Rst, Signal Bool), (Wbuf_flush, Signal Bool), (Core_req_w F_valid, Signal Bool),
     (Core_req_w F_ready, Signal Bool), (Core_req_w F_bits, Signal (Bv HPDCACHE_CORE_REQ_WIDTH)),
     (Core_req_w F_abort, Signal Bool), (Core_req_w F_tag, Signal Tag), (Core_req_w F_pma, Signal Uint32),
     (Core_rsp_w F_valid, Signal Bool), (Core_rsp_w F_bits, Signal (Bv HPDCACHE_CORE_RSP_WIDTH)),
     (Mem_req_read F_ready, Signal Bool), (Mem_req_read F_valid, Signal Bool), (Mem_req_read F_addr, Signal Uint64),
     (Mem_req_read F_len, Signal Uint32), (Mem_req_read F_size, Signal Uint32), (Mem_req_read F_id, Signal Uint32),
     (Mem_req_read F_command, Signal Uint32), (Mem_req_read F_atomic, Signal Uint32),
     (Mem_req_read F_cacheable, Signal Bool), (Mem_resp_read F_ready, Signal Bool), (Mem_resp_read F_valid, Signal Bool),
     (Mem_resp_read F_error, Signal Uint32), (Mem_resp_read F_id, Signal Uint32),
     (Mem_resp_read F_data, Signal (Bv HPDCACHE_MEM_DATA_WIDTH)), (Mem_resp_read F_last, Signal Bool)] @
   (if openpiton then [(Mem_resp_read F_inval, Signal Bool), (Mem_resp_read F_inval_nline, Signal Uint64)] else []) @
   [(Mem_req_write F_ready, Signal Bool), (Mem_req_write F_valid, Signal Bool), (Mem_req_write F_addr, Signal Uint64),
     (Mem_req_write F_len, Signal Uint32), (Mem_req_write F_size, Signal Uint32), (Mem_req_write F_id, Signal Uint32),
     (Mem_req_write F_command, Signal Uint32), (Mem_req_write F_atomic, Signal Uint32),
     (Mem_req_write F_cacheable, Signal Bool), (Mem_req_write F_data_ready, Signal Bool),
     (Mem_req_write F_data_valid, Signal Bool), (Mem_req_write F_data, Signal (Bv HPDCACHE_MEM_DATA_WIDTH)),
     (Mem_req_write F_be, Signal Uint64), (Mem_req_write F_last, Signal Bool), (Mem_resp_write F_ready, Signal Bool),
     (Mem_resp_write F_valid, Signal Bool), (Mem_resp_write F_is_atomic, Signal Bool),
     (Mem_resp_write F_error, Signal Uint32), (Mem_resp_write F_id, Signal Uint32), (Sb Sb_core_req, Fifo Core_req),
     (Sb Sb_core_resp, Fifo Core_resp), (Sb Sb_mem_read_req, Fifo Mem_read_req), (Sb Sb_mem_read_resp, Fifo Mem_read_resp),
     (Sb Sb_mem_write_req, Fifo Mem_write_req), (Sb Sb_mem_write_resp, Fifo Mem_write_resp),
     (Evt E_cache_write_miss, Signal Bool), (Evt E_cache_read_miss, Signal Bool), (Evt E_uncached_req, Signal Bool),
     (Evt E_cmo_req, Signal Bool), (Evt E_write_req, Signal Bool), (Evt E_read_req, Signal Bool),
     (Evt E_prefetch_req, Signal Bool), (Evt E_req_on_hold, Signal Bool), (Evt E_rtab_rollback, Signal Bool),
     (Evt E_stall_refill, Signal Bool), (Evt E_stall, Signal Bool), (Wbuf_empty, Signal Bool), (Cfg C_enable, Signal Bool),
     (Cfg C_wbuf_threshold, Signal Uint32), (Cfg C_wbuf_reset_timecnt_on_write, Signal Bool),
     (Cfg C_wbuf_sequential_waw, Signal Bool), (Cfg C_wbuf_inhibit_write_coalescing, Signal Bool),
     (Cfg C_prefetch_updt_plru, Signal Bool), (Cfg C_error_on_cacheable_amo, Signal Bool),
     (Cfg C_rtab_single_entry, Signal Bool), (Cfg C_default_wb, Signal Bool)]"

definition agent_channels :: "(wire \<times> chan) list" where
  "agent_channels = [(Transaction_fifo, Fifo Transaction_ptr), (Transaction_ret, Fifo Uint64)]"

section \<open>The bindings\<close>

definition build_top :: "bool \<Rightarrow> binding list" where
  "build_top openpiton =
   [((Clk, SI), Clk), ((Rst, SI), Rst), ((Wbuf_flush, SI), Wbuf_flush), ((Core_req_w F_valid, SI), Core_req_w F_valid),
     ((Core_req_w F_ready, SO), Core_req_w F_ready), ((Core_req_w F_bits, SI), Core_req_w F_bits),
     ((Core_req_w F_abort, SI), Core_req_w F_abort), ((Core_req_w F_tag, SI), Core_req_w F_tag),
     ((Core_req_w F_pma, SI), Core_req_w F_pma), ((Core_rsp_w F_valid, SO), Core_rsp_w F_valid),
     ((Core_rsp_w F_bits, SO), Core_rsp_w F_bits), ((Mem_req_read F_ready, SI), Mem_req_read F_ready),
     ((Mem_req_read F_valid, SO), Mem_req_read F_valid), ((Mem_req_read F_addr, SO), Mem_req_read F_addr),
     ((Mem_req_read F_len, SO), Mem_req_read F_len), ((Mem_req_read F_size, SO), Mem_req_read F_size),
     ((Mem_req_read F_id, SO), Mem_req_read F_id), ((Mem_req_read F_command, SO), Mem_req_read F_command),
     ((Mem_req_read F_atomic, SO), Mem_req_read F_atomic), ((Mem_req_read F_cacheable, SO), Mem_req_read F_cacheable),
     ((Mem_resp_read F_ready, SO), Mem_resp_read F_ready), ((Mem_resp_read F_valid, SI), Mem_resp_read F_valid),
     ((Mem_resp_read F_error, SI), Mem_resp_read F_error), ((Mem_resp_read F_id, SI), Mem_resp_read F_id),
     ((Mem_resp_read F_data, SI), Mem_resp_read F_data), ((Mem_resp_read F_last, SI), Mem_resp_read F_last)] @
   (if openpiton then [((Mem_resp_read F_inval, SI), Mem_resp_read F_inval), ((Mem_resp_read F_inval_nline, SI), Mem_resp_read F_inval_nline)] else []) @
   [((Mem_req_write F_ready, SI), Mem_req_write F_ready), ((Mem_req_write F_valid, SO), Mem_req_write F_valid),
     ((Mem_req_write F_addr, SO), Mem_req_write F_addr), ((Mem_req_write F_len, SO), Mem_req_write F_len),
     ((Mem_req_write F_size, SO), Mem_req_write F_size), ((Mem_req_write F_id, SO), Mem_req_write F_id),
     ((Mem_req_write F_command, SO), Mem_req_write F_command), ((Mem_req_write F_atomic, SO), Mem_req_write F_atomic),
     ((Mem_req_write F_cacheable, SO), Mem_req_write F_cacheable),
     ((Mem_req_write F_data_ready, SI), Mem_req_write F_data_ready),
     ((Mem_req_write F_data_valid, SO), Mem_req_write F_data_valid), ((Mem_req_write F_data, SO), Mem_req_write F_data),
     ((Mem_req_write F_be, SO), Mem_req_write F_be), ((Mem_req_write F_last, SO), Mem_req_write F_last),
     ((Mem_resp_write F_ready, SO), Mem_resp_write F_ready), ((Mem_resp_write F_valid, SI), Mem_resp_write F_valid),
     ((Mem_resp_write F_is_atomic, SI), Mem_resp_write F_is_atomic), ((Mem_resp_write F_error, SI), Mem_resp_write F_error),
     ((Mem_resp_write F_id, SI), Mem_resp_write F_id), ((Evt E_cache_write_miss, SO), Evt E_cache_write_miss),
     ((Evt E_cache_read_miss, SO), Evt E_cache_read_miss), ((Evt E_uncached_req, SO), Evt E_uncached_req),
     ((Evt E_cmo_req, SO), Evt E_cmo_req), ((Evt E_write_req, SO), Evt E_write_req), ((Evt E_read_req, SO), Evt E_read_req),
     ((Evt E_prefetch_req, SO), Evt E_prefetch_req), ((Evt E_req_on_hold, SO), Evt E_req_on_hold),
     ((Evt E_rtab_rollback, SO), Evt E_rtab_rollback), ((Evt E_stall_refill, SO), Evt E_stall_refill),
     ((Evt E_stall, SO), Evt E_stall), ((Wbuf_empty, SO), Wbuf_empty), ((Cfg C_enable, SI), Cfg C_enable),
     ((Cfg C_wbuf_threshold, SI), Cfg C_wbuf_threshold),
     ((Cfg C_wbuf_reset_timecnt_on_write, SI), Cfg C_wbuf_reset_timecnt_on_write),
     ((Cfg C_wbuf_sequential_waw, SI), Cfg C_wbuf_sequential_waw),
     ((Cfg C_wbuf_inhibit_write_coalescing, SI), Cfg C_wbuf_inhibit_write_coalescing),
     ((Cfg C_prefetch_updt_plru, SI), Cfg C_prefetch_updt_plru),
     ((Cfg C_error_on_cacheable_amo, SI), Cfg C_error_on_cacheable_amo),
     ((Cfg C_rtab_single_entry, SI), Cfg C_rtab_single_entry), ((Cfg C_default_wb, SI), Cfg C_default_wb)]"

definition build_agent :: "binding list" where
  "build_agent =
   [((Clk, SI), Clk), ((Rst, SI), Rst), ((Core_req_w F_valid, SO), Core_req_w F_valid),
     ((Core_req_w F_ready, SI), Core_req_w F_ready), ((Core_req_w F_bits, SO), Core_req_w F_bits),
     ((Core_req_w F_tag, SO), Core_req_w F_tag), ((Core_req_w F_pma, SO), Core_req_w F_pma),
     ((Core_req_w F_abort, SO), Core_req_w F_abort), ((Core_rsp_w F_valid, SI), Core_rsp_w F_valid),
     ((Core_rsp_w F_bits, SI), Core_rsp_w F_bits), ((Sb Sb_core_req, SO), Sb Sb_core_req),
     ((Sb Sb_core_resp, SO), Sb Sb_core_resp)]"

definition build_mem :: "bool \<Rightarrow> binding list" where
  "build_mem openpiton =
   [((Clk, SI), Clk), ((Rst, SI), Rst), ((Mem_req_read F_ready, SO), Mem_req_read F_ready),
     ((Mem_req_read F_valid, SI), Mem_req_read F_valid), ((Mem_req_read F_addr, SI), Mem_req_read F_addr),
     ((Mem_req_read F_len, SI), Mem_req_read F_len), ((Mem_req_read F_size, SI), Mem_req_read F_size),
     ((Mem_req_read F_id, SI), Mem_req_read F_id), ((Mem_req_read F_command, SI), Mem_req_read F_command),
     ((Mem_req_read F_atomic, SI), Mem_req_read F_atomic), ((Mem_req_read F_cacheable, SI), Mem_req_read F_cacheable),
     ((Mem_resp_read F_ready, SI), Mem_resp_read F_ready), ((Mem_resp_read F_valid, SO), Mem_resp_read F_valid),
     ((Mem_resp_read F_error, SO), Mem_resp_read F_error), ((Mem_resp_read F_id, SO), Mem_resp_read F_id),
     ((Mem_resp_read F_data, SO), Mem_resp_read F_data), ((Mem_resp_read F_last, SO), Mem_resp_read F_last)] @
   (if openpiton then [((Mem_resp_read F_inval, SO), Mem_resp_read F_inval), ((Mem_resp_read F_inval_nline, SO), Mem_resp_read F_inval_nline)] else []) @
   [((Mem_req_write F_ready, SO), Mem_req_write F_ready), ((Mem_req_write F_valid, SI), Mem_req_write F_valid),
     ((Mem_req_write F_addr, SI), Mem_req_write F_addr), ((Mem_req_write F_len, SI), Mem_req_write F_len),
     ((Mem_req_write F_size, SI), Mem_req_write F_size), ((Mem_req_write F_id, SI), Mem_req_write F_id),
     ((Mem_req_write F_command, SI), Mem_req_write F_command), ((Mem_req_write F_atomic, SI), Mem_req_write F_atomic),
     ((Mem_req_write F_cacheable, SI), Mem_req_write F_cacheable),
     ((Mem_req_write F_data_ready, SO), Mem_req_write F_data_ready),
     ((Mem_req_write F_data_valid, SI), Mem_req_write F_data_valid), ((Mem_req_write F_data, SI), Mem_req_write F_data),
     ((Mem_req_write F_be, SI), Mem_req_write F_be), ((Mem_req_write F_last, SI), Mem_req_write F_last),
     ((Mem_resp_write F_ready, SI), Mem_resp_write F_ready), ((Mem_resp_write F_valid, SO), Mem_resp_write F_valid),
     ((Mem_resp_write F_is_atomic, SO), Mem_resp_write F_is_atomic), ((Mem_resp_write F_error, SO), Mem_resp_write F_error),
     ((Mem_resp_write F_id, SO), Mem_resp_write F_id), ((Sb Sb_mem_read_req, SO), Sb Sb_mem_read_req),
     ((Sb Sb_mem_read_resp, SO), Sb Sb_mem_read_resp), ((Sb Sb_mem_write_req, SO), Sb Sb_mem_write_req),
     ((Sb Sb_mem_write_resp, SO), Sb Sb_mem_write_resp)]"

definition build_scoreboard :: "binding list" where
  "build_scoreboard =
   [((Clk, SI), Clk), ((Unprefixed Sb_core_req, SI), Sb Sb_core_req), ((Unprefixed Sb_core_resp, SI), Sb Sb_core_resp),
     ((Unprefixed Sb_mem_read_req, SI), Sb Sb_mem_read_req), ((Unprefixed Sb_mem_read_resp, SI), Sb Sb_mem_read_resp),
     ((Unprefixed Sb_mem_write_req, SI), Sb Sb_mem_write_req), ((Unprefixed Sb_mem_write_resp, SI), Sb Sb_mem_write_resp),
     ((Evt E_cache_write_miss, SI), Evt E_cache_write_miss), ((Evt E_cache_read_miss, SI), Evt E_cache_read_miss),
     ((Evt E_uncached_req, SI), Evt E_uncached_req), ((Evt E_cmo_req, SI), Evt E_cmo_req),
     ((Evt E_write_req, SI), Evt E_write_req), ((Evt E_read_req, SI), Evt E_read_req),
     ((Evt E_prefetch_req, SI), Evt E_prefetch_req), ((Evt E_req_on_hold, SI), Evt E_req_on_hold),
     ((Evt E_rtab_rollback, SI), Evt E_rtab_rollback), ((Evt E_stall_refill, SI), Evt E_stall_refill),
     ((Evt E_stall, SI), Evt E_stall)]"

text \<open>Inside the agent a port of the driver or of the sequence is bound to a port of the agent or to one of
  the agent's FIFOs.\<close>

datatype target = Agent_port wire_name | Agent_chan wire

definition agent_new :: "(wire_name \<times> target) list" where
  "agent_new =
   [((Clk, SI), Agent_port (Clk, SI)), ((Rst, SI), Agent_port (Rst, SI)),
     ((Core_req_w F_valid, SO), Agent_port (Core_req_w F_valid, SO)),
     ((Core_req_w F_ready, SI), Agent_port (Core_req_w F_ready, SI)),
     ((Core_req_w F_bits, SO), Agent_port (Core_req_w F_bits, SO)),
     ((Core_req_w F_tag, SO), Agent_port (Core_req_w F_tag, SO)),
     ((Core_req_w F_pma, SO), Agent_port (Core_req_w F_pma, SO)),
     ((Core_req_w F_abort, SO), Agent_port (Core_req_w F_abort, SO)),
     ((Core_rsp_w F_valid, SI), Agent_port (Core_rsp_w F_valid, SI)),
     ((Core_rsp_w F_bits, SI), Agent_port (Core_rsp_w F_bits, SI)), ((Sb Sb_core_req, SO), Agent_port (Sb Sb_core_req, SO)),
     ((Sb Sb_core_resp, SO), Agent_port (Sb Sb_core_resp, SO)), ((Transaction_fifo, SI), Agent_chan Transaction_fifo),
     ((Transaction_ret, SO), Agent_chan Transaction_ret)]"

definition add_sequence :: "(wire_name \<times> target) list" where
  "add_sequence =
   [((Clk, SI), Agent_port (Clk, SI)), ((Rst, SI), Agent_port (Rst, SI)),
     ((Transaction_fifo, SO), Agent_chan Transaction_fifo), ((Transaction_ret, SI), Agent_chan Transaction_ret)]"

section \<open>Elaboration\<close>

datatype wire_error = UnknownPort wire_name | UnknownChannel wire | BoundTwice wire_name | TypeMismatch wire_name
  | Unbound wire_name

fun fits :: "port_dir \<Rightarrow> sig_type option \<Rightarrow> chan \<Rightarrow> bool" where
  "fits In t (Signal t') \<longleftrightarrow> t = None \<or> t = Some t'"
| "fits Out t (Signal t') \<longleftrightarrow> t = None \<or> t = Some t'"
| "fits Fifo_in t (Fifo t') \<longleftrightarrow> t = None \<or> t = Some t'"
| "fits Fifo_out t (Fifo t') \<longleftrightarrow> t = None \<or> t = Some t'"
| "fits _ _ _ \<longleftrightarrow> False"

fun bind_ports :: "port list \<Rightarrow> (wire \<times> chan) list \<Rightarrow> binding list \<Rightarrow> binding list \<Rightarrow> wire_error + binding list" where
  "bind_ports ps cs nets [] =
     (case filter (\<lambda>(p, _). map_of nets p = None) ps of [] \<Rightarrow> Inr nets | (p, _) # _ \<Rightarrow> Inl (Unbound p))"
| "bind_ports ps cs nets ((p, c) # bs) =
     (case map_of ps p of
        None \<Rightarrow> Inl (UnknownPort p)
      | Some (d, t) \<Rightarrow>
          (case map_of cs c of
             None \<Rightarrow> Inl (UnknownChannel c)
           | Some k \<Rightarrow>
               if \<not> fits d t k then Inl (TypeMismatch p)
               else if map_of nets p \<noteq> None then Inl (BoundTwice p)
               else bind_ports ps cs (nets @ [(p, c)]) bs))"

text \<open>The modules; the agent only passes its ports on to the driver and the sequence inside it.\<close>

datatype inst = Top | Agent_i | Driver_i | Sequence_i | Mem_i | Scoreboard_i

definition channels :: "bool \<Rightarrow> (wire \<times> chan) list" where
  "channels openpiton = tb_channels openpiton @ agent_channels"

fun ports_of :: "bool \<Rightarrow> inst \<Rightarrow> port list" where
  "ports_of openpiton Top = top_ports openpiton"
| "ports_of openpiton Agent_i = agent_ports"
| "ports_of openpiton Driver_i = driver_ports"
| "ports_of openpiton Sequence_i = sequence_ports"
| "ports_of openpiton Mem_i = mem_ports openpiton"
| "ports_of openpiton Scoreboard_i = scoreboard_ports"

fun resolve :: "binding list \<Rightarrow> (wire_name \<times> target) list \<Rightarrow> wire_error + binding list" where
  "resolve bs [] = Inr []"
| "resolve bs ((p, Agent_chan c) # ts) = (case resolve bs ts of Inl e \<Rightarrow> Inl e | Inr rs \<Rightarrow> Inr ((p, c) # rs))"
| "resolve bs ((p, Agent_port q) # ts) =
     (case map_of bs q of
        None \<Rightarrow> Inl (UnknownPort q)
      | Some c \<Rightarrow> (case resolve bs ts of Inl e \<Rightarrow> Inl e | Inr rs \<Rightarrow> Inr ((p, c) # rs)))"

fun bindings_of :: "bool \<Rightarrow> inst \<Rightarrow> wire_error + binding list" where
  "bindings_of openpiton Top = Inr (build_top openpiton)"
| "bindings_of openpiton Agent_i = Inr build_agent"
| "bindings_of openpiton Driver_i = resolve build_agent agent_new"
| "bindings_of openpiton Sequence_i = resolve build_agent add_sequence"
| "bindings_of openpiton Mem_i = Inr (build_mem openpiton)"
| "bindings_of openpiton Scoreboard_i = Inr build_scoreboard"

definition bind_inst :: "bool \<Rightarrow> inst \<Rightarrow> wire_error + binding list" where
  "bind_inst openpiton i = (case bindings_of openpiton i of
     Inl e \<Rightarrow> Inl e | Inr bs \<Rightarrow> bind_ports (ports_of openpiton i) (channels openpiton) [] bs)"

type_synonym net = "inst \<times> wire_name \<times> wire"

fun elaborate :: "bool \<Rightarrow> inst list \<Rightarrow> wire_error + net list" where
  "elaborate openpiton [] = Inr []"
| "elaborate openpiton (i # is) =
     (case bind_inst openpiton i of
        Inl e \<Rightarrow> Inl e
      | Inr bs \<Rightarrow> (case elaborate openpiton is of Inl e \<Rightarrow> Inl e | Inr nets \<Rightarrow> Inr (map (Pair i) bs @ nets)))"

definition instances :: "inst list" where
  "instances = [Top, Agent_i, Driver_i, Sequence_i, Mem_i, Scoreboard_i]"

definition tb_build :: "bool \<Rightarrow> wire_error + net list" where
  "tb_build openpiton = elaborate openpiton instances"

section \<open>Who drives and who reads a channel\<close>

definition dir_of :: "bool \<Rightarrow> inst \<Rightarrow> wire_name \<Rightarrow> port_dir option" where
  "dir_of openpiton i p = map_option fst (map_of (ports_of openpiton i) p)"

text \<open>The agent's own ports do not count: a process that uses them is one of the driver or the sequence.\<close>

definition driven :: "bool \<Rightarrow> net list \<Rightarrow> wire list" where
  "driven openpiton nets =
     [c. (i, p, c) \<leftarrow> nets, i \<noteq> Agent_i \<and> dir_of openpiton i p \<in> {Some Out, Some Fifo_out}]"

definition listened :: "bool \<Rightarrow> net list \<Rightarrow> wire list" where
  "listened openpiton nets =
     [c. (i, p, c) \<leftarrow> nets, i \<noteq> Agent_i \<and> dir_of openpiton i p \<in> {Some In, Some Fifo_in}]"

text \<open>The main program itself drives the clock, the reset and the configuration.\<close>

definition main_writes :: "wire list" where
  "main_writes = [Clk, Rst, Wbuf_flush, Cfg C_enable, Cfg C_wbuf_threshold, Cfg C_wbuf_reset_timecnt_on_write,
     Cfg C_wbuf_sequential_waw, Cfg C_wbuf_inhibit_write_coalescing, Cfg C_prefetch_updt_plru,
     Cfg C_error_on_cacheable_amo, Cfg C_rtab_single_entry, Cfg C_default_wb]"

lemma main_writes_names: "map name_of main_writes = ''clk_i'' # ''rst_ni'' # map fst cfg_values"
  by (simp add: main_writes_def cfg_values_def)

text \<open>A straight connection: the channel has the name of the port, but for the prefix of the scoreboard's
  FIFOs, and the suffix of the port tells its direction.\<close>

fun straight :: "bool \<Rightarrow> net \<Rightarrow> bool" where
  "straight openpiton (i, (w, x), c) \<longleftrightarrow> c = (case w of Unprefixed b \<Rightarrow> Sb b | _ \<Rightarrow> w) \<and>
     dir_of openpiton i (w, x) \<in> (if x = SO then {Some Out, Some Fifo_out} else {Some In, Some Fifo_in})"

section \<open>The testbench is wired up completely\<close>

lemma bound_top: "bind_inst True Top = Inr (build_top True)" "bind_inst False Top = Inr (build_top False)"
  by code_simp+

lemma bound_mem: "bind_inst True Mem_i = Inr (build_mem True)" "bind_inst False Mem_i = Inr (build_mem False)"
  by code_simp+

lemma bound_scoreboard:
  "bind_inst True Scoreboard_i = Inr build_scoreboard" "bind_inst False Scoreboard_i = Inr build_scoreboard"
  by code_simp+

definition driver_nets :: "binding list" where
  "driver_nets = (case resolve build_agent agent_new of Inr bs \<Rightarrow> bs | Inl _ \<Rightarrow> [])"

definition sequence_nets :: "binding list" where
  "sequence_nets = (case resolve build_agent add_sequence of Inr bs \<Rightarrow> bs | Inl _ \<Rightarrow> [])"

lemma bound_agent:
  "bind_inst True Agent_i = Inr build_agent" "bind_inst True Driver_i = Inr driver_nets"
  "bind_inst True Sequence_i = Inr sequence_nets" "bind_inst False Agent_i = Inr build_agent"
  "bind_inst False Driver_i = Inr driver_nets" "bind_inst False Sequence_i = Inr sequence_nets"
  by code_simp+

definition netlist :: "bool \<Rightarrow> net list" where
  "netlist openpiton = map (Pair Top) (build_top openpiton) @ map (Pair Agent_i) build_agent @
     map (Pair Driver_i) driver_nets @ map (Pair Sequence_i) sequence_nets @ map (Pair Mem_i) (build_mem openpiton) @
     map (Pair Scoreboard_i) build_scoreboard"

lemma build_netlist: "tb_build openpiton = Inr (netlist openpiton)"
  using bound_top bound_mem bound_scoreboard bound_agent
  by (cases openpiton) (simp_all add: tb_build_def instances_def netlist_def)

lemma straight_netlist: "list_all (straight True) (netlist True)" "list_all (straight False) (netlist False)"
  by code_simp+

text \<open>So the suffix of a port tells whether it drives its channel.\<close>

definition with_suffix :: "suffix \<Rightarrow> net list \<Rightarrow> wire list" where
  "with_suffix y nets = [c. (i, (w, x), c) \<leftarrow> nets, i \<noteq> Agent_i \<and> x = y]"

lemma straight_suffix:
  assumes "list_all (straight openpiton) nets"
  shows "driven openpiton nets = with_suffix SO nets" "listened openpiton nets = with_suffix SI nets"
proof -
  have "dir_of openpiton i (w, x) \<in> {Some Out, Some Fifo_out} \<longleftrightarrow> x = SO"
    "dir_of openpiton i (w, x) \<in> {Some In, Some Fifo_in} \<longleftrightarrow> x = SI" if "(i, (w, x), c) \<in> set nets" for i w x c
    using assms that by (cases x; force simp: list_all_iff)+
  then show "driven openpiton nets = with_suffix SO nets" "listened openpiton nets = with_suffix SI nets"
    unfolding driven_def listened_def with_suffix_def by (auto intro!: arg_cong [of _ _ concat] map_cong)
qed

lemma mset_eq_check:
  assumes "distinct xs" "distinct ys" "list_all (\<lambda>x. x \<in> set ys) xs" "length xs = length ys"
  shows "mset xs = mset ys"
proof -
  have "set xs \<subseteq> set ys" using assms(3) by (auto simp: list_all_iff)
  moreover have "card (set xs) = card (set ys)" using assms(1,2,4) by (simp add: distinct_card)
  ultimately have "set xs = set ys" by (simp add: card_subset_eq)
  then show ?thesis using assms(1,2) by (simp add: set_eq_iff_mset_eq_distinct)
qed

lemma one_driver:
  "mset (with_suffix SO (netlist True) @ main_writes) = mset (map fst (channels True))"
  "mset (with_suffix SO (netlist False) @ main_writes) = mset (map fst (channels False))"
  by (rule mset_eq_check; code_simp)+

lemma one_unheard:
  "filter (\<lambda>c. c \<notin> set (with_suffix SI (netlist True))) (map fst (channels True)) = [Wbuf_empty]"
  "filter (\<lambda>c. c \<notin> set (with_suffix SI (netlist False))) (map fst (channels False)) = [Wbuf_empty]"
  by code_simp+

text \<open>C18: the testbench is wired up completely and straight. In both configurations the bindings of \<open>build\<close>,
  of the agent's constructor and of \<open>add_sequence\<close> are accepted: every port is bound once, to a channel
  of its type. Every declared signal and FIFO has exactly one driver, a port of the cache, the driver, the sequence or the
  memory model or the main program; only \<^verbatim>\<open>wbuf_empty\<close> has no reader; and every port is on the channel
  of its own name.\<close>

theorem testbench_wired:
  "\<exists>nets. tb_build openpiton = Inr nets \<and>
     mset (driven openpiton nets @ main_writes) = mset (map fst (channels openpiton)) \<and>
     filter (\<lambda>c. c \<notin> set (listened openpiton nets)) (map fst (channels openpiton)) = [Wbuf_empty] \<and>
     list_all (straight openpiton) nets"
proof -
  have st: "list_all (straight openpiton) (netlist openpiton)" by (cases openpiton) (simp_all only: straight_netlist)
  have "mset (with_suffix SO (netlist openpiton) @ main_writes) = mset (map fst (channels openpiton))"
    "filter (\<lambda>c. c \<notin> set (with_suffix SI (netlist openpiton))) (map fst (channels openpiton)) = [Wbuf_empty]"
    by (cases openpiton; simp only: one_driver one_unheard)+
  then show ?thesis using st unfolding straight_suffix [OF st, symmetric] using build_netlist by blast
qed

end
