(* ===== verification/Cache_Data.thy ===== *)
theory Cache_Data
  imports Prelude
begin

text \<open>
  The reference data array of the testbench,
  \<^verbatim>\<open>sc_verif_lib/modules/generic_cache/include/generic_cache_data.h\<close>: the words of a set-associative
  cache in one vector, word \<open>(way, set, word)\<close> at index \<open>way * (sets * words) + set * words + word\<close>. An access
  outside the vector is undefined in C++ and an error here.
\<close>

section \<open>The data array\<close>

record cache_data =
  data_m :: "u64 list"
  dways_m :: nat
  dsets_m :: nat
  dwords_m :: nat

definition GenericCacheData :: "nat \<Rightarrow> nat \<Rightarrow> nat \<Rightarrow> cache_data res" where
  "GenericCacheData nways nsets nwords =
     res_bind (require (nsets > 0) AssertFailed) (\<lambda>_.
     res_bind (require (nways > 0) AssertFailed) (\<lambda>_.
     res_bind (require (nwords > 0) AssertFailed) (\<lambda>_.
     Inr \<lparr>data_m = replicate (nways * nsets * nwords) 0, dways_m = nways, dsets_m = nsets, dwords_m = nwords\<rparr>)))"

definition getAddrSet :: "u64 \<Rightarrow> cache_data \<Rightarrow> u64" where
  "getAddrSet addr c = (addr div of_nat (dwords_m c * 8)) mod of_nat (dsets_m c)"

definition getAddrWord :: "u64 \<Rightarrow> cache_data \<Rightarrow> u64" where
  "getAddrWord addr c = (addr div 8) mod of_nat (dwords_m c)"

definition data_index :: "cache_data \<Rightarrow> nat \<Rightarrow> nat \<Rightarrow> nat \<Rightarrow> nat" where
  "data_index c way st word = way * (dsets_m c * dwords_m c) + st * dwords_m c + word"

definition getCacheData :: "cache_data \<Rightarrow> nat \<Rightarrow> nat \<Rightarrow> nat \<Rightarrow> u64 res" where
  "getCacheData c way st word =
     (let i = data_index c way st word in if i < length (data_m c) then Inr (data_m c ! i) else Inl OutOfBounds)"

text \<open>The mask is built with \<^verbatim>\<open>0xff << (i*8)\<close>, a shift of an \<^verbatim>\<open>int\<close>: for \<open>i = 3\<close> the
  result is negative and is extended with ones to 64 bits, from \<open>i = 4\<close> on the shift is undefined.\<close>

definition lane_mask :: "nat \<Rightarrow> u64 res" where
  "lane_mask i = (if i < 4 then Inr (signed (push_bit (i * 8) 0xff :: u32)) else Inl UndefinedShift)"

definition data_mask :: "u8 \<Rightarrow> u64 res" where
  "data_mask be = for_res (\<lambda>i mask.
     if bit be i then res_bind (lane_mask i) (\<lambda>m. Inr (mask OR m)) else Inr mask) [0..<8] 0"

definition data_write :: "u64 \<Rightarrow> u8 \<Rightarrow> nat \<Rightarrow> nat \<Rightarrow> nat \<Rightarrow> cache_data \<Rightarrow> cache_data res" where
  "data_write wdata be way st word c =
     res_bind (data_mask be) (\<lambda>mask.
     res_bind (getCacheData c way st word) (\<lambda>prev.
     Inr (c\<lparr>data_m := (data_m c)[data_index c way st word := (prev AND NOT mask) OR (wdata AND mask)]\<rparr>)))"

definition data_read :: "nat \<Rightarrow> nat \<Rightarrow> nat \<Rightarrow> cache_data \<Rightarrow> u64 res" where
  "data_read way st word c = getCacheData c way st word"

section \<open>Indices\<close>

definition cache_data_wf :: "cache_data \<Rightarrow> bool" where
  "cache_data_wf c \<longleftrightarrow> 0 < dways_m c \<and> 0 < dsets_m c \<and> 0 < dwords_m c \<and>
     length (data_m c) = dways_m c * dsets_m c * dwords_m c"

definition in_cache :: "cache_data \<Rightarrow> nat \<Rightarrow> nat \<Rightarrow> nat \<Rightarrow> bool" where
  "in_cache c way st word \<longleftrightarrow> way < dways_m c \<and> st < dsets_m c \<and> word < dwords_m c"

lemma mixed_radix:
  assumes "x < (m :: nat)" "y < n"
  shows "x * n + y < m * n" "(x * n + y) div n = x" "(x * n + y) mod n = y"
proof -
  have "Suc x * n \<le> m * n" using assms(1) by (intro mult_le_mono1) simp
  then show "x * n + y < m * n" using assms(2) by simp
qed (use assms(2) in simp_all)

lemma data_index_alt: "data_index c way st word = (way * dsets_m c + st) * dwords_m c + word"
  by (simp add: data_index_def algebra_simps)

lemma data_index_bound:
  assumes "cache_data_wf c" "in_cache c way st word"
  shows "data_index c way st word < length (data_m c)"
  using assms mixed_radix(1) [OF mixed_radix(1) [of way "dways_m c" st "dsets_m c"], of word "dwords_m c"]
  by (simp add: data_index_alt cache_data_wf_def in_cache_def)

lemma mixed_radix_eq:
  assumes "x * n + y = x' * n + y'" "y < n" "y' < (n :: nat)"
  shows "x = x'" "y = y'"
proof -
  show "x = x'" using arg_cong [OF assms(1), of "\<lambda>k. k div n"] assms(2,3) by simp
  then show "y = y'" using assms(1) by simp
qed

lemma data_index_inj:
  assumes "in_cache c way st word" "in_cache c way' st' word'"
  shows "data_index c way st word = data_index c way' st' word' \<longleftrightarrow> way = way' \<and> st = st' \<and> word = word'"
proof
  assume eq: "data_index c way st word = data_index c way' st' word'"
  note outer = mixed_radix_eq [OF eq [unfolded data_index_alt]] and inner = mixed_radix_eq [of way _ st way' st']
  show "way = way' \<and> st = st' \<and> word = word'" using outer inner [of "dsets_m c"] assms by (auto simp: in_cache_def)
qed simp

section \<open>Writes\<close>

text \<open>The bytes that a write replaces: the enabled ones among the first three, and from byte 3 on all of them
  if byte 3 is enabled.\<close>

definition replaced :: "u8 \<Rightarrow> nat \<Rightarrow> bool" where
  "replaced be i \<longleftrightarrow> (if i < 3 then bit be i else bit be 3)"

lemma upt_8: "[0..<8] = [0, 1, 2, 3, 4, 5, 6, 7]"
  by code_simp

lemma lane_masks:
  "lane_mask 0 = Inr 0xff" "lane_mask 1 = Inr 0xff00" "lane_mask 2 = Inr 0xff0000" "lane_mask 3 = Inr 0xffffffffff000000"
  by code_simp+

definition mask_of :: "u8 \<Rightarrow> u64" where
  "mask_of be = (if bit be 0 then 0xff else 0) OR (if bit be 1 then 0xff00 else 0) OR (if bit be 2 then 0xff0000 else 0) OR
     (if bit be 3 then 0xffffffffff000000 else 0)"

lemma data_mask_eq:
  "data_mask be = (if bit be 4 \<or> bit be 5 \<or> bit be 6 \<or> bit be 7 then Inl UndefinedShift else Inr (mask_of be))"
proof -
  have "lane_mask i = Inl UndefinedShift" if "4 \<le> i" for i using that by (simp add: lane_mask_def)
  then show ?thesis unfolding data_mask_def upt_8 by (simp add: lane_masks lane_masks [simplified] mask_of_def or.assoc)
qed

lemma less_16_iff: "be < 16 \<longleftrightarrow> \<not> (bit be 4 \<or> bit be 5 \<or> bit be 6 \<or> bit (be :: u8) 7)"
proof
  assume "be < 16"
  then have "unat be < 2 ^ 4" by (simp add: word_less_nat_alt)
  then have "take_bit 4 be = be" by (simp add: word_unat_eq_iff unsigned_take_bit_eq take_bit_nat_eq_self)
  then have "\<not> bit be n" if "4 \<le> n" for n using that by (metis bit_take_bit_iff not_le)
  then show "\<not> (bit be 4 \<or> bit be 5 \<or> bit be 6 \<or> bit be 7)" by simp
next
  assume hi: "\<not> (bit be 4 \<or> bit be 5 \<or> bit be 6 \<or> bit be 7)"
  have "n \<in> {4, 5, 6, 7}" if "n < 8" "\<not> n < 4" for n :: nat using that by auto
  then have "take_bit 4 be = be" using hi by (intro bit_word_eqI) (auto simp: bit_simps)
  then have "unat be = unat be mod 2 ^ 4" by (metis unsigned_take_bit_eq take_bit_eq_mod)
  then have "unat be < 2 ^ 4" by (metis mod_less_divisor zero_less_numeral zero_less_power)
  then show "be < 16" by (simp add: word_less_nat_alt)
qed

lemma byte_at_or: "byte_at (x OR y) i = byte_at x i OR byte_at y i"
  by (rule bit_word_eqI) (auto simp: bitwise bit_simps)

lemma byte_at_0 [simp]: "byte_at 0 i = 0"
  by (simp add: byte_at_def)

lemma mask_bytes:
  assumes "i < 8"
  shows "byte_at (0xff :: u64) i = (if i = 0 then - 1 else 0)" "byte_at (0xff00 :: u64) i = (if i = 1 then - 1 else 0)"
    "byte_at (0xff0000 :: u64) i = (if i = 2 then - 1 else 0)" "byte_at (0xffffffffff000000 :: u64) i = (if 3 \<le> i then - 1 else 0)"
proof -
  have "list_all (\<lambda>i. byte_at (0xff :: u64) i = (if i = 0 then - 1 else 0) \<and> byte_at (0xff00 :: u64) i = (if i = 1 then - 1 else 0) \<and>
    byte_at (0xff0000 :: u64) i = (if i = 2 then - 1 else 0) \<and> byte_at (0xffffffffff000000 :: u64) i = (if 3 \<le> i then - 1 else 0))
    [0, 1, 2, 3, 4, 5, 6, 7]" by code_simp
  moreover have "i \<in> set [0, 1, 2, 3, 4, 5, 6, 7]" using assms by auto
  ultimately show "byte_at (0xff :: u64) i = (if i = 0 then - 1 else 0)" "byte_at (0xff00 :: u64) i = (if i = 1 then - 1 else 0)"
    "byte_at (0xff0000 :: u64) i = (if i = 2 then - 1 else 0)" "byte_at (0xffffffffff000000 :: u64) i = (if 3 \<le> i then - 1 else 0)"
    unfolding list_all_iff by blast+
qed

lemma mask_of_bytes:
  assumes "i < 8"
  shows "byte_at (mask_of be) i = (if replaced be i then - 1 else 0)"
proof -
  have part: "byte_at (if b then x else 0) i = (if b then byte_at x i else 0)" for b and x :: u64 by simp
  have "i = 0 \<or> i = 1 \<or> i = 2 \<or> 3 \<le> i" by linarith
  then show ?thesis unfolding mask_of_def byte_at_or part mask_bytes [OF assms] by (auto simp: replaced_def)
qed

lemma byte_at_merge: "byte_at ((p AND NOT m) OR (w AND m)) i = (byte_at p i AND NOT (byte_at m i)) OR (byte_at w i AND byte_at m i)"
  by (rule bit_word_eqI) (auto simp: bitwise bit_simps dest: bit_imp_le_length)

text \<open>C26: the data array. A write that enables bytes 0 to 3 only is kept in exactly the place it was made to: a
  later read of that way, set and word sees the new value of the enabled bytes, except that enabling byte 3
  replaces bytes 4 to 7 as well; every other place reads as before. A write that enables one of the upper
  four bytes is an undefined shift.\<close>

theorem cache_data_write:
  assumes "cache_data_wf c" "in_cache c way st word"
  shows "if be < 16 then
     \<exists>c' old new. data_write wdata be way st word c = Inr c' \<and> cache_data_wf c' \<and>
       data_read way st word c = Inr old \<and> data_read way st word c' = Inr new \<and>
       (\<forall>i < 8. byte_at new i = byte_at (if replaced be i then wdata else old) i) \<and>
       (\<forall>way' st' word'. in_cache c way' st' word' \<longrightarrow> (way', st', word') \<noteq> (way, st, word) \<longrightarrow>
          data_read way' st' word' c' = data_read way' st' word' c)
     else data_write wdata be way st word c = Inl UndefinedShift"
proof (cases "be < 16")
  case False
  then show ?thesis by (simp add: data_write_def data_mask_eq less_16_iff)
next
  case True
  define m where "m = mask_of be"
  have m: "data_mask be = Inr m" using True by (simp add: data_mask_eq less_16_iff m_def)
  let ?i = "data_index c way st word" and ?old = "data_m c ! data_index c way st word"
  let ?new = "(?old AND NOT m) OR (wdata AND m)"
  let ?c = "c\<lparr>data_m := (data_m c)[?i := ?new]\<rparr>"
  have i: "?i < length (data_m c)" using data_index_bound [OF assms] .
  have idx: "data_index ?c = data_index c" by (intro ext) (simp add: data_index_def)
  have "data_write wdata be way st word c = Inr ?c" using m i by (simp add: data_write_def getCacheData_def Let_def)
  moreover have "cache_data_wf ?c" using assms(1) by (simp add: cache_data_wf_def)
  moreover have "data_read way st word c = Inr ?old" "data_read way st word ?c = Inr ?new"
    using i by (simp_all add: data_read_def getCacheData_def idx)
  moreover have "byte_at ?new i = byte_at (if replaced be i then wdata else ?old) i" if "i < 8" for i
    using mask_of_bytes [OF that, of be] by (simp add: byte_at_merge m_def)
  moreover have "data_read way' st' word' ?c = data_read way' st' word' c"
    if "in_cache c way' st' word'" "(way', st', word') \<noteq> (way, st, word)" for way' st' word'
    using data_index_inj [OF that(1) assms(2)] that(2) by (auto simp: data_read_def getCacheData_def idx Let_def)
  ultimately show ?thesis using True by (simp only: if_True) blast
qed

theorem cache_data_write_witness:
  "\<exists>c'. data_write 0x1122334455667788 8 1 0 1 \<lparr>data_m = replicate 8 0, dways_m = 2, dsets_m = 2, dwords_m = 2\<rparr> = Inr c' \<and>
     (\<exists>new. data_read 1 0 1 c' = Inr new \<and> byte_at new 7 = 0x11)"
proof -
  let ?c = "\<lparr>data_m = replicate 8 0, dways_m = 2, dsets_m = 2, dwords_m = 2\<rparr> :: cache_data"
  have "cache_data_wf ?c" "in_cache ?c 1 0 1" by (simp_all add: cache_data_wf_def in_cache_def)
  note written = cache_data_write [OF this, of 8 "0x1122334455667788"]
  have "(8 :: u8) < 16" by simp
  from written [unfolded if_P [OF this]] obtain c' old new where "data_write 0x1122334455667788 8 1 0 1 ?c = Inr c'" "data_read 1 0 1 c' = Inr new"
    "\<forall>i < 8. byte_at new i = byte_at (if replaced 8 i then (0x1122334455667788 :: u64) else old) i" by blast
  moreover have "replaced 8 7" "byte_at (0x1122334455667788 :: u64) 7 = 0x11" by code_simp+
  ultimately show ?thesis by (intro exI [of _ c'] conjI exI [of _ new]) (simp_all del: One_nat_def)
qed

end
