(* ===== verification/Logger.thy ===== *)
theory Logger
  imports Main
begin

text \<open>
  The logger of the verification library, \<^verbatim>\<open>sc_verif_lib/include/logger.h\<close>: a level, and messages that are
  printed if the level is high enough. The static member and the standard output are the state.
\<close>

definition LOG_NONE :: int where "LOG_NONE = 0"
definition LOG_LOW :: int where "LOG_LOW = 1"
definition LOG_MEDIUM :: int where "LOG_MEDIUM = 2"
definition LOG_HIGH :: int where "LOG_HIGH = 3"
definition LOG_WARNING :: int where "LOG_WARNING = LOG_LOW"
definition LOG_INFO :: int where "LOG_INFO = LOG_MEDIUM"
definition LOG_DEBUG :: int where "LOG_DEBUG = LOG_HIGH"

lemmas log_levels = LOG_NONE_def LOG_LOW_def LOG_MEDIUM_def LOG_HIGH_def LOG_WARNING_def LOG_INFO_def LOG_DEBUG_def

record logger =
  log_level :: int
  log_out :: string

definition logger_new :: logger where "logger_new = \<lparr>log_level = LOG_INFO, log_out = []\<rparr>"

definition set_log_level :: "int \<Rightarrow> logger \<Rightarrow> logger" where "set_log_level level l = l\<lparr>log_level := level\<rparr>"
definition get_log_level :: "logger \<Rightarrow> int" where "get_log_level l = log_level l"
definition is_warning_enabled :: "logger \<Rightarrow> bool" where "is_warning_enabled l \<longleftrightarrow> log_level l \<ge> LOG_WARNING"
definition is_info_enabled :: "logger \<Rightarrow> bool" where "is_info_enabled l \<longleftrightarrow> log_level l \<ge> LOG_INFO"
definition is_debug_enabled :: "logger \<Rightarrow> bool" where "is_debug_enabled l \<longleftrightarrow> log_level l \<ge> LOG_DEBUG"

definition log_info :: "string \<Rightarrow> logger \<Rightarrow> logger" where
  "log_info msg l = (if log_level l \<ge> LOG_INFO then l\<lparr>log_out := log_out l @ msg\<rparr> else l)"
definition log_warning :: "string \<Rightarrow> logger \<Rightarrow> logger" where
  "log_warning msg l = (if log_level l \<ge> LOG_WARNING then l\<lparr>log_out := log_out l @ msg\<rparr> else l)"
definition log_debug :: "string \<Rightarrow> logger \<Rightarrow> logger" where
  "log_debug msg l = (if log_level l \<ge> LOG_DEBUG then l\<lparr>log_out := log_out l @ msg\<rparr> else l)"

text \<open>The levels are nested: who sees debugging messages sees information, and who sees information sees warnings.
  A message is printed exactly if its kind is enabled.\<close>

lemma logger_nested: "is_debug_enabled l \<Longrightarrow> is_info_enabled l" "is_info_enabled l \<Longrightarrow> is_warning_enabled l"
  by (simp_all add: is_debug_enabled_def is_info_enabled_def is_warning_enabled_def log_levels)

lemma logger_prints:
  "log_out (log_warning msg l) = log_out l @ (if is_warning_enabled l then msg else [])"
  "log_out (log_info msg l) = log_out l @ (if is_info_enabled l then msg else [])"
  "log_out (log_debug msg l) = log_out l @ (if is_debug_enabled l then msg else [])"
  by (simp_all add: log_warning_def log_info_def log_debug_def is_warning_enabled_def is_info_enabled_def is_debug_enabled_def)

lemma logger_default: "is_info_enabled logger_new" "\<not> is_debug_enabled logger_new"
  by (simp_all add: logger_new_def is_info_enabled_def is_debug_enabled_def log_levels)

end
