(* ===== verification/Ecc.thy ===== *)
theory Ecc
  imports Prelude Ostream
begin

text \<open>
  The single-error-correcting, double-error-detecting Hamming code of the design's common cells:
  the golden model of the C++ tests (\<^verbatim>\<open>test/ecc/ecc.cpp\<close>) on arrays of bytes that hold one bit each,
  and the two modules the tests drive (\<^verbatim>\<open>src/ecc_encode.sv\<close>, \<^verbatim>\<open>src/ecc_decode.sv\<close>, widths from
  \<^verbatim>\<open>src/ecc_pkg.sv\<close>) on vectors of bits.  Bit \<open>k\<close> of a packed vector is element \<open>k\<close> of the
  list; an upward loop is a recursion on the number of iterations it has done.
\<close>

section \<open>The golden model\<close>

definition ispowerof2 :: "u32 \<Rightarrow> bool" where
  "ispowerof2 x \<longleftrightarrow> x \<noteq> 0 \<and> \<not> (x AND (x - 1)) \<noteq> 0"

primrec toBin_loop :: "u64 \<Rightarrow> nat \<Rightarrow> u8 list \<Rightarrow> u8 list res" where
  "toBin_loop word 0 data = Inr data"
| "toBin_loop word (Suc i) data = res_bind (toBin_loop word i data) (\<lambda>data.
     if 64 \<le> i then Inl UndefinedShift
     else if length data \<le> i then Inl OutOfBounds
     else Inr (data[i := ucast (drop_bit i word AND 1)]))"

definition toBin :: "u8 list \<Rightarrow> u64 \<Rightarrow> nat \<Rightarrow> u8 list res" where
  "toBin data word len = toBin_loop word len data"

text \<open>Eight array elements from \<open>j\<close> on as one byte, the lowest first.\<close>

definition byte_from :: "u8 list \<Rightarrow> nat \<Rightarrow> u8 res" where
  "byte_from bits j = (if j + 8 \<le> length bits
     then Inr (foldl (\<lambda>byte i. byte + push_bit i (bits ! (j + i))) 0 [0..<8])
     else Inl OutOfBounds)"

function toByte_loop :: "u8 list \<Rightarrow> nat \<Rightarrow> int \<Rightarrow> u8 list \<Rightarrow> u8 list res" where
  "toByte_loop in_data len j data =
     (if j < 0 then Inr data
      else if int len \<le> j then toByte_loop in_data len (j - 8) data
      else res_bind (byte_from in_data (nat j)) (\<lambda>byte.
        if length data \<le> nat j div 8 then Inl OutOfBounds
        else toByte_loop in_data len (j - 8) (data[nat j div 8 := byte])))"
  by pat_completeness auto
termination by (relation "measure (\<lambda>(_, _, j, _). nat (j + 8))") auto

declare toByte_loop.simps [simp del]

definition toByte :: "u8 list \<Rightarrow> u8 list \<Rightarrow> nat \<Rightarrow> u8 list res" where
  "toByte data in_data len = toByte_loop in_data len (int len) data"

lemma double_le_exp: "0 < n \<Longrightarrow> 2 * n \<le> (2::nat) ^ n"
  by (induction n rule: nat_induct_non_zero) simp_all

function cw_loop :: "nat \<Rightarrow> nat \<Rightarrow> nat" where
  "cw_loop data_bits cw_width =
     (if 2 ^ cw_width < cw_width + data_bits + 1 then cw_loop data_bits (Suc cw_width) else cw_width)"
  by pat_completeness auto
termination
proof (relation "measure (\<lambda>(d, w). d + 1 - w)", goal_cases)
  case (2 d w)
  have "w < d + 1"
  proof (cases "w = 0")
    case False
    with 2 double_le_exp [of w] show ?thesis by simp
  qed simp
  then show ?case by simp
qed simp

declare cw_loop.simps [simp del]

definition calcParityLen :: "nat \<Rightarrow> nat" where
  "calcParityLen data_bits = cw_loop data_bits 2"

text \<open>The data bits go to the positions (from 1) that are no power of two.\<close>

primrec expand_loop :: "u8 list \<Rightarrow> nat \<Rightarrow> u8 list \<times> nat \<Rightarrow> (u8 list \<times> nat) res" where
  "expand_loop info 0 s = Inr s"
| "expand_loop info (Suc k) s = res_bind (expand_loop info k s) (\<lambda>(codeword, idx).
     if length codeword \<le> k then Inl OutOfBounds
     else if ispowerof2 (word_of_nat (Suc k)) then Inr (codeword[k := 0], idx)
     else if length info \<le> idx then Inl OutOfBounds
     else Inr (codeword[k := info ! idx], Suc idx))"

text \<open>The parity of group \<open>i\<close> over the positions 1 to \<open>n\<close>, which the expansion has written.\<close>

primrec group_parity :: "nat \<Rightarrow> u8 list \<Rightarrow> nat \<Rightarrow> u8" where
  "group_parity i codeword 0 = 0"
| "group_parity i codeword (Suc k) =
     (if Suc k AND push_bit i 1 \<noteq> 0 then group_parity i codeword k XOR codeword ! k
      else group_parity i codeword k)"

primrec parity_loop :: "nat \<Rightarrow> nat \<Rightarrow> u8 list \<Rightarrow> u8 list res" where
  "parity_loop n 0 codeword = Inr codeword"
| "parity_loop n (Suc i) codeword = res_bind (parity_loop n i codeword) (\<lambda>codeword.
     if length codeword \<le> 2 ^ i - 1 then Inl OutOfBounds
     else Inr (codeword[2 ^ i - 1 := group_parity i codeword n]))"

primrec overall_loop :: "nat \<Rightarrow> nat \<Rightarrow> u8 list \<Rightarrow> u8 list" where
  "overall_loop n 0 codeword = codeword"
| "overall_loop n (Suc i) codeword =
     (let codeword = overall_loop n i codeword in codeword[n := codeword ! n XOR codeword ! i])"

text \<open>The codeword in hexadecimal, the byte with the highest bits first.\<close>

function gm_loop :: "u8 list \<Rightarrow> nat \<Rightarrow> int \<Rightarrow> string res" where
  "gm_loop codeword len j =
     (if j < 0 then Inr []
      else if int len \<le> j then gm_loop codeword len (j - 8)
      else res_bind (byte_from codeword (nat j)) (\<lambda>byte.
        res_bind (gm_loop codeword len (j - 8)) (\<lambda>rest. Inr (hex_field 2 (ucast byte) @ rest))))"
  by pat_completeness auto
termination by (relation "measure (\<lambda>(_, _, j). nat (j + 8))") auto

declare gm_loop.simps [simp del]

text \<open>
  The array \<open>info\<close> is uninitialised in the source; every element is written by \<open>toBin\<close> before it
  is read.  The result is what is printed and the codeword array.
\<close>

definition ecc_encode :: "u64 \<Rightarrow> nat \<Rightarrow> u8 list \<Rightarrow> (string \<times> u8 list) res" where
  "ecc_encode word d codeword = (let p = calcParityLen d in
     res_bind (toBin (replicate d 0) word d) (\<lambda>info.
     res_bind (expand_loop info (d + p) (codeword, 0)) (\<lambda>(codeword, idx).
     res_bind (parity_loop (d + p) p codeword) (\<lambda>codeword.
     res_bind (require (d + p < length codeword) OutOfBounds) (\<lambda>_.
     let codeword = overall_loop (d + p) (d + p) (codeword[d + p := 0]) in
     res_bind (gm_loop codeword (d + p + 1) (int (d + p + 1))) (\<lambda>gm.
     Inr (''gm = '' @ gm @ [CHR 0x0A], codeword)))))))"

section \<open>The encoder and decoder modules\<close>

definition get_parity_width :: "nat \<Rightarrow> nat" where
  "get_parity_width data_width = cw_loop data_width 2"

definition get_cw_width :: "nat \<Rightarrow> nat" where
  "get_cw_width data_width = data_width + get_parity_width data_width"

text \<open>\<^verbatim>\<open>$clog2\<close> of the language: the least exponent of a power of two that is no smaller.\<close>

fun clog2 :: "nat \<Rightarrow> nat" where
  "clog2 n = (if n \<le> 1 then 0 else Suc (clog2 ((n + 1) div 2)))"

declare clog2.simps [simp del]

text \<open>The reduction operator \<^verbatim>\<open>^v\<close>.\<close>

definition reduce_xor :: "bool list \<Rightarrow> bool" where
  "reduce_xor = foldl (\<noteq>) False"

text \<open>A bit read outside a vector is unknown; the index stays below the width of the data
  (\<open>sv_expand_eq\<close> and \<open>ndata_bound\<close> below).\<close>

primrec sv_expand :: "bool list \<Rightarrow> nat \<Rightarrow> bool list \<times> nat \<Rightarrow> bool list \<times> nat" where
  "sv_expand data_i 0 s = s"
| "sv_expand data_i (Suc k) s = (let (data, idx) = sv_expand data_i k s in
     if 2 ^ clog2 (Suc k) \<noteq> Suc k then (data[k := data_i ! idx], Suc idx) else (data, idx))"

primrec sv_group :: "nat \<Rightarrow> bool list \<Rightarrow> nat \<Rightarrow> bool" where
  "sv_group i data 0 = False"
| "sv_group i data (Suc j) =
     (if 2 ^ i AND Suc j \<noteq> 0 then sv_group i data j \<noteq> data ! j else sv_group i data j)"

primrec sv_fuse :: "(nat \<Rightarrow> bool) \<Rightarrow> nat \<Rightarrow> bool list \<Rightarrow> bool list" where
  "sv_fuse parity_code_word 0 codeword = codeword"
| "sv_fuse parity_code_word (Suc i) codeword =
     (sv_fuse parity_code_word i codeword)[2 ^ i - 1 := parity_code_word i]"

text \<open>The packed result: the overall parity is the bit above the code word.\<close>

definition ecc_encode_sv :: "nat \<Rightarrow> bool list \<Rightarrow> bool list" where
  "ecc_encode_sv DataWidth data_i = (let
     n = get_cw_width DataWidth;
     data = fst (sv_expand data_i n (replicate n False, 0));
     codeword = sv_fuse (\<lambda>i. sv_group i data n) (get_parity_width DataWidth) data
     in codeword @ [reduce_xor codeword])"

record decoded =
  data_o :: "bool list"
  syndrome_o :: nat
  single_error_o :: bool
  parity_error_o :: bool
  double_error_o :: bool

primrec sv_extract :: "bool list \<Rightarrow> nat \<Rightarrow> bool list \<times> nat \<Rightarrow> bool list \<times> nat" where
  "sv_extract correct_data 0 s = s"
| "sv_extract correct_data (Suc k) s = (let (data_wo_parity, idx) = sv_extract correct_data k s in
     if 2 ^ clog2 (Suc k) \<noteq> Suc k then (data_wo_parity[idx := correct_data ! k], Suc idx)
     else (data_wo_parity, idx))"

text \<open>A write to a bit outside a vector has no effect, as an update of a list has none.\<close>

definition ecc_decode_sv :: "nat \<Rightarrow> bool list \<Rightarrow> decoded" where
  "ecc_decode_sv DataWidth data_i = (let
     n = get_cw_width DataWidth;
     code_word = take n data_i;
     parity = (data_i ! n \<noteq> reduce_xor code_word);
     syndrome = horner_sum of_bool 2 (map (\<lambda>i. sv_group i code_word n) [0..<get_parity_width DataWidth]);
     syndrome_not_zero = (syndrome \<noteq> (0::nat));
     correct_data = (if syndrome_not_zero
       then code_word[syndrome - 1 := \<not> code_word ! (syndrome - 1)] else code_word)
     in \<lparr>data_o = fst (sv_extract correct_data n (replicate DataWidth False, 0)),
         syndrome_o = syndrome,
         single_error_o = (parity \<and> syndrome_not_zero),
         parity_error_o = (parity \<and> \<not> syndrome_not_zero),
         double_error_o = (\<not> parity \<and> syndrome_not_zero)\<rparr>)"

section \<open>Powers of two and the number of parity bits\<close>

lemma exp_ge_cw_loop: "cw_loop d w + d + 1 \<le> 2 ^ cw_loop d w"
  by (induction d w rule: cw_loop.induct) (subst (1 2) cw_loop.simps, simp)

lemma exp_le_cw_loop: "2 ^ (w - 1) \<le> w + d \<Longrightarrow> 2 ^ (cw_loop d w - 1) \<le> cw_loop d w + d"
proof (induction d w rule: cw_loop.induct)
  case (1 d w)
  then show ?case by (subst (1 2) cw_loop.simps) simp
qed

lemma cw_loop_ge: "w \<le> cw_loop d w"
proof (induction d w rule: cw_loop.induct)
  case (1 d w)
  then show ?case by (subst cw_loop.simps) (auto dest: Suc_leD)
qed

lemma cw_loop_le: "w \<le> k \<Longrightarrow> k + d + 1 \<le> 2 ^ k \<Longrightarrow> cw_loop d w \<le> k"
proof (induction d w rule: cw_loop.induct)
  case (1 d w)
  show ?case
  proof (cases "2 ^ w < w + d + 1")
    case True
    with "1.prems" have "w \<noteq> k" by auto
    with True 1 show ?thesis by (simp add: cw_loop.simps [of d w])
  next
    case False
    with 1 show ?thesis by (simp add: cw_loop.simps [of d w])
  qed
qed

lemma parity_width_bounds:
  "get_cw_width d < 2 ^ get_parity_width d"
  "2 ^ (get_parity_width d - 1) \<le> get_cw_width d"
  "2 \<le> get_parity_width d"
  using exp_ge_cw_loop [of d 2] exp_le_cw_loop [of 2 d] cw_loop_ge [of 2 d]
  by (simp_all add: get_cw_width_def get_parity_width_def)

lemma parity_position: "i < get_parity_width d \<Longrightarrow> 2 ^ i \<le> get_cw_width d"
  using parity_width_bounds(2) [of d] power_increasing [of i "get_parity_width d - 1" "2::nat"]
  by linarith

lemma parity_position_iff: "2 ^ i \<le> get_cw_width d \<longleftrightarrow> i < get_parity_width d"
proof
  assume "2 ^ i \<le> get_cw_width d"
  then have "(2::nat) ^ i < 2 ^ get_parity_width d"
    using parity_width_bounds(1) [of d] by (rule le_less_trans)
  then show "i < get_parity_width d" by simp
qed (rule parity_position)

definition is_pow2 :: "nat \<Rightarrow> bool" where
  "is_pow2 n \<longleftrightarrow> (\<exists>i. n = 2 ^ i)"

lemma is_pow2_double: "0 < n \<Longrightarrow> is_pow2 (2 * n) \<longleftrightarrow> is_pow2 n"
proof
  assume "0 < n" "is_pow2 (2 * n)"
  then obtain i where "2 * n = 2 ^ i" by (auto simp: is_pow2_def)
  with \<open>0 < n\<close> show "is_pow2 n" by (cases i) (auto simp: is_pow2_def)
next
  assume "is_pow2 n"
  then show "is_pow2 (2 * n)"
    unfolding is_pow2_def by (metis power_Suc)
qed

lemma is_pow2_odd: "odd n \<Longrightarrow> is_pow2 n \<longleftrightarrow> n = 1"
  unfolding is_pow2_def by (metis even_power even_numeral odd_one power_0 not_gr_zero)

text \<open>Clearing the lowest set bit leaves nothing exactly at the powers of two.\<close>

lemma and_pred_zero_iff: "0 < n \<Longrightarrow> n AND (n - 1) = 0 \<longleftrightarrow> is_pow2 (n::nat)"
proof (induction n rule: less_induct)
  case (less n)
  show ?case
  proof (cases "even n")
    case True
    then obtain m where m: "n = 2 * m" by (elim evenE)
    with less.prems have "0 < m" "m < n" by simp_all
    have "n - 1 = Suc (2 * (m - 1))" using m \<open>0 < m\<close> by simp
    then have "n AND (n - 1) = 2 * (m AND (m - 1))"
      by (subst and_rec) (simp add: m)
    then show ?thesis
      using less.IH [OF \<open>m < n\<close> \<open>0 < m\<close>] \<open>0 < m\<close> m by (simp add: is_pow2_double)
  next
    case False
    then obtain m where m: "n = 2 * m + 1" by (elim oddE)
    have "n AND (n - 1) = 2 * (m AND m)"
      by (subst and_rec) (simp add: m)
    then show ?thesis
      using False m by (simp add: is_pow2_odd)
  qed
qed

lemma ispowerof2_iff:
  assumes "0 < n" "n < 2 ^ 32"
  shows "ispowerof2 (word_of_nat n) \<longleftrightarrow> is_pow2 n"
proof -
  have n: "unat (word_of_nat n :: u32) = n"
    using assms(2) by (simp add: unat_of_nat)
  then have nz: "(word_of_nat n :: u32) \<noteq> 0"
    using assms(1) by force
  have "unat ((word_of_nat n :: u32) - 1) = n - 1"
    using assms(1) n by (simp add: unat_minus_one [OF nz])
  then have "unat ((word_of_nat n :: u32) AND (word_of_nat n - 1)) = n AND (n - 1)"
    by (simp add: unsigned_and_eq n)
  then show ?thesis
    using and_pred_zero_iff [OF assms(1)] nz unfolding ispowerof2_def by (metis unat_eq_zero)
qed

lemma clog2_least: "n \<le> 2 ^ clog2 n" "n \<le> 2 ^ k \<Longrightarrow> clog2 n \<le> k"
proof (induction n arbitrary: k rule: clog2.induct)
  case (1 n)
  { case 1
    show ?case
    proof (cases "n \<le> 1")
      case False
      then have "n \<le> 2 * 2 ^ clog2 ((n + 1) div 2)" using "1.IH"(1) by linarith
      with False show ?thesis by (simp add: clog2.simps [of n])
    qed (simp add: clog2.simps [of n])
  next
    case (2 k)
    show ?case
    proof (cases "n \<le> 1")
      case False
      with 2 obtain m where m: "k = Suc m" by (cases k) auto
      with 2 have "(n + 1) div 2 \<le> 2 ^ m" by simp
      then have "clog2 ((n + 1) div 2) \<le> m" using False "1.IH"(2) by blast
      with False show ?thesis by (simp add: clog2.simps [of n] m)
    qed (simp add: clog2.simps [of n])
  }
qed

lemma clog2_exact_iff: "2 ^ clog2 n = n \<longleftrightarrow> is_pow2 n"
proof
  assume "is_pow2 n"
  then obtain i where "n = 2 ^ i" by (auto simp: is_pow2_def)
  then show "2 ^ clog2 n = n"
    using clog2_least(1) [of n] clog2_least(2) [of n i] by (simp add: le_antisym)
qed (metis is_pow2_def)

section \<open>The data positions\<close>

text \<open>\<open>ndata k\<close> data positions lie among the positions 1 to \<open>k\<close>.\<close>

primrec ndata :: "nat \<Rightarrow> nat" where
  "ndata 0 = 0"
| "ndata (Suc k) = (if is_pow2 (Suc k) then ndata k else Suc (ndata k))"

lemma ndata_plus_powers: "ndata k + card {i. 2 ^ i \<le> k} = k"
proof (induction k)
  case (Suc k)
  have fin: "finite {i. 2 ^ i \<le> k}"
    by (rule finite_subset [of _ "{..k}"]) (auto intro: order.trans [OF less_imp_le [OF less_exp]])
  have split: "{i. 2 ^ i \<le> Suc k} = {i. 2 ^ i \<le> k} \<union> {i. 2 ^ i = Suc k}"
    by auto
  show ?case
  proof (cases "is_pow2 (Suc k)")
    case True
    then obtain i where i: "Suc k = 2 ^ i" by (auto simp: is_pow2_def)
    then have "{i. 2 ^ i = Suc k} = {i}" "i \<notin> {i. 2 ^ i \<le> k}" by auto
    with fin Suc.IH True show ?thesis by (simp add: split)
  next
    case False
    then have "{i. 2 ^ i = Suc k} = {}" unfolding is_pow2_def by (metis (mono_tags) Collect_empty_eq)
    with Suc.IH False show ?thesis by (simp add: split)
  qed
qed simp

lemma ndata_cw_width [simp]: "ndata (get_cw_width d) = d"
proof -
  have "{i. 2 ^ i \<le> get_cw_width d} = {..<get_parity_width d}"
    by (auto simp: parity_position_iff)
  then show ?thesis
    using ndata_plus_powers [of "get_cw_width d"] by (simp add: get_cw_width_def)
qed

lemma ndata_mono: "k \<le> n \<Longrightarrow> ndata k \<le> ndata n"
  by (induction n) (auto simp: le_Suc_eq)

lemma ndata_bound: "k < get_cw_width d \<Longrightarrow> \<not> is_pow2 (Suc k) \<Longrightarrow> ndata k < d"
  using ndata_mono [of "Suc k" "get_cw_width d"] by simp

text \<open>The expanded data: zero at the parity positions.\<close>

definition spread :: "bool list \<Rightarrow> nat \<Rightarrow> bool list" where
  "spread info n = map (\<lambda>k. \<not> is_pow2 (Suc k) \<and> info ! ndata k) [0..<n]"

lemma length_spread [simp]: "length (spread info n) = n"
  by (simp add: spread_def)

lemma nth_spread [simp]: "k < n \<Longrightarrow> spread info n ! k \<longleftrightarrow> \<not> is_pow2 (Suc k) \<and> info ! ndata k"
  by (simp add: spread_def)

lemma spread_0 [simp]: "spread info 0 = []"
  by (simp add: spread_def)

lemma spread_Suc [simp]:
  "spread info (Suc n) = spread info n @ [\<not> is_pow2 (Suc n) \<and> info ! ndata n]"
  by (simp add: spread_def)

abbreviation as_bytes :: "bool list \<Rightarrow> u8 list" where
  "as_bytes \<equiv> map of_bool"

lemma toBin_loop_eq:
  "k \<le> 64 \<Longrightarrow> k \<le> length data \<Longrightarrow>
     toBin_loop word k data = Inr (as_bytes (map (bit word) [0..<k]) @ drop k data)"
proof (induction k)
  case (Suc k)
  have "ucast (drop_bit k word AND 1) = (of_bool (bit word k) :: u8)"
    by (rule bit_word_eqI) (auto simp: bit_simps)
  with Suc show ?case
    by (simp add: list_update_append Cons_nth_drop_Suc [symmetric])
qed simp

lemma expand_loop_eq:
  "k \<le> length cw \<Longrightarrow> k < 2 ^ 32 \<Longrightarrow> ndata k \<le> length info \<Longrightarrow>
     expand_loop (as_bytes info) k (cw, 0) = Inr (as_bytes (spread info k) @ drop k cw, ndata k)"
proof (induction k)
  case (Suc k)
  then have "ispowerof2 (word_of_nat (Suc k)) \<longleftrightarrow> is_pow2 (Suc k)"
    by (intro ispowerof2_iff) simp_all
  with Suc show ?case
    by (auto simp: list_update_append Cons_nth_drop_Suc [symmetric] split: if_splits)
qed simp

lemma sv_expand_eq:
  "k \<le> n \<Longrightarrow>
     sv_expand data k (replicate n False, 0) = (spread data k @ replicate (n - k) False, ndata k)"
proof (induction k)
  case (Suc k)
  then have "replicate (n - k) False = False # replicate (n - Suc k) False"
    by (metis Suc_diff_le diff_Suc_Suc replicate_Suc)
  with Suc show ?case
    by (auto simp: list_update_append clog2_exact_iff [of "Suc k"])
qed simp

section \<open>Parity of a group\<close>

lemma exp_and_iff: "2 ^ i AND k \<noteq> 0 \<longleftrightarrow> bit (k::nat) i" "k AND push_bit i 1 \<noteq> 0 \<longleftrightarrow> bit (k::nat) i"
  by (simp_all add: bit_iff_and_push_bit_not_eq_0 [of k] push_bit_of_1 and.commute)

lemma sv_group_Suc:
  "sv_group i xs (Suc j) \<longleftrightarrow> sv_group i xs j \<noteq> (bit (Suc j) i \<and> xs ! j)"
  unfolding sv_group.simps exp_and_iff by auto

lemma sv_group_update:
  "n \<le> length xs \<Longrightarrow>
     sv_group i (xs[j := v]) n \<longleftrightarrow> sv_group i xs n \<noteq> (j < n \<and> bit (Suc j) i \<and> v \<noteq> xs ! j)"
proof (induction n)
  case (Suc n)
  then show ?case
    by (cases "j = n") (auto simp: sv_group_Suc less_Suc_eq simp del: sv_group.simps(2))
qed simp

lemma of_bool_xor: "of_bool a XOR of_bool b = (of_bool (a \<noteq> b) :: u8)"
  by (cases a; cases b) simp_all

lemma group_parity_eq:
  "n \<le> length xs \<Longrightarrow> group_parity i (as_bytes xs @ tail) n = of_bool (sv_group i xs n)"
proof (induction n)
  case (Suc n)
  then show ?case
    unfolding sv_group_Suc group_parity.simps exp_and_iff by (auto simp: nth_append of_bool_xor)
qed simp

section \<open>The encoders agree\<close>

lemma length_sv_fuse [simp]: "length (sv_fuse P m xs) = length xs"
  by (induction m) simp_all

lemma nth_sv_fuse_other:
  "(\<And>i. i < m \<Longrightarrow> Suc k \<noteq> 2 ^ i) \<Longrightarrow> sv_fuse P m xs ! k = xs ! k"
proof (induction m)
  case (Suc m)
  have "2 ^ m - 1 \<noteq> k" using Suc.prems [of m] by auto
  with Suc show ?case by simp
qed simp

lemma nth_sv_fuse_next: "sv_fuse P m xs ! (2 ^ m - 1) = xs ! (2 ^ m - 1)"
  by (rule nth_sv_fuse_other) simp

text \<open>A parity bit counts in its own group and in no other.\<close>

lemma sv_group_fuse:
  assumes "n = length xs" "\<And>i. i < m \<Longrightarrow> 2 ^ i \<le> n \<and> \<not> xs ! (2 ^ i - 1)"
  shows "sv_group i (sv_fuse P m xs) n \<longleftrightarrow> sv_group i xs n \<noteq> (i < m \<and> P i)"
  using assms(2)
proof (induction m)
  case (Suc m)
  from Suc.prems [of m] have "2 ^ m - 1 < n" "\<not> xs ! (2 ^ m - 1)"
    by (auto simp: less_eq_Suc_le)
  moreover have "bit (Suc (2 ^ m - 1) :: nat) i \<longleftrightarrow> i = m"
    by (simp add: bit_exp_iff) 
  ultimately show ?case
    using Suc assms(1) nth_sv_fuse_next [of P m xs] by (auto simp: sv_group_update less_Suc_eq)
qed simp

abbreviation fused :: "bool list \<Rightarrow> nat \<Rightarrow> nat \<Rightarrow> bool list" where
  "fused xs n m \<equiv> sv_fuse (\<lambda>i. sv_group i xs n) m xs"

lemma parity_loop_eq:
  assumes "n = length xs" "\<And>i. i < m \<Longrightarrow> 2 ^ i \<le> n \<and> \<not> xs ! (2 ^ i - 1)"
  shows "parity_loop n m (as_bytes xs @ tail) = Inr (as_bytes (fused xs n m) @ tail)"
  using assms(2)
proof (induction m)
  case (Suc m)
  from Suc.prems [of m] have "2 ^ m - 1 < n" by (simp add: less_eq_Suc_le)
  moreover have "sv_group m (fused xs n m) n = sv_group m xs n"
    using Suc.prems assms(1) by (simp add: sv_group_fuse)
  ultimately show ?case
    using Suc assms(1) by (simp add: group_parity_eq list_update_append map_update)
qed simp

lemma foldl_xor_as_bytes: "foldl (XOR) (of_bool b) (as_bytes xs) = of_bool (foldl (\<noteq>) b xs)"
  by (induction xs arbitrary: b) (simp_all add: of_bool_xor del: of_bool_eq_iff)

lemma overall_loop_eq:
  "k \<le> n \<Longrightarrow> n < length cw \<Longrightarrow>
     overall_loop n k cw = cw[n := foldl (XOR) (cw ! n) (take k cw)]"
  by (induction k) (simp_all add: Let_def take_Suc_conv_app_nth)

lemma byte_from_ok: "j + 8 \<le> length bits \<Longrightarrow> \<exists>b. byte_from bits j = Inr b"
  by (simp add: byte_from_def)

lemma gm_loop_ok:
  "len \<le> length cw \<Longrightarrow> j \<le> int len - 8 \<or> j = int len \<Longrightarrow> \<exists>s. gm_loop cw len j = Inr s"
proof (induction cw len j rule: gm_loop.induct)
  case (1 cw len j)
  consider "j < 0" | "0 \<le> j" "j = int len" | "0 \<le> j" "j \<le> int len - 8"
    using "1.prems" by linarith
  then show ?case
  proof cases
    case 3
    then have "nat j + 8 \<le> length cw" using "1.prems" by linarith
    then obtain b where "byte_from cw (nat j) = Inr b" using byte_from_ok by blast
    moreover obtain s where "gm_loop cw len (j - 8) = Inr s"
      using "1.IH"(2) 3 "1.prems" by fastforce
    ultimately show ?thesis using 3 by (simp add: gm_loop.simps [of cw len j])
  next
    case 2
    then show ?thesis
      using "1.IH"(1) "1.prems" gm_loop.simps [of cw len j] by simp
  qed (simp add: gm_loop.simps [of cw len j])
qed

definition word_bits :: "nat \<Rightarrow> u64 \<Rightarrow> bool list" where
  "word_bits d word = map (bit word) [0..<d]"

lemma length_word_bits [simp]: "length (word_bits d word) = d"
  by (simp add: word_bits_def)

lemma spread_parity_free:
  "i < get_parity_width d \<Longrightarrow> 2 ^ i \<le> get_cw_width d \<and> \<not> spread xs (get_cw_width d) ! (2 ^ i - 1)"
  using parity_position [of i d] by (auto simp: is_pow2_def less_eq_Suc_le)

lemma ecc_encode_sv_eq:
  "ecc_encode_sv d data = (let n = get_cw_width d; cw = fused (spread data n) n (get_parity_width d)
     in cw @ [reduce_xor cw])"
  by (simp add: ecc_encode_sv_def sv_expand_eq Let_def)

text \<open>
  The golden model succeeds on every word and data width up to 64 and leaves in its array, bit for
  bit, what the encoder module puts on its output; elements behind the codeword keep their value.
\<close>

lemma golden_model_is_encoder:
  assumes "d \<le> 64" "d + calcParityLen d < length codeword"
  shows "\<exists>gm. ecc_encode word d codeword =
           Inr (gm, as_bytes (ecc_encode_sv d (word_bits d word)) @ drop (d + calcParityLen d + 1) codeword)"
proof -
  define n where "n = get_cw_width d"
  define xs where "xs = spread (word_bits d word) n"
  define cw where "cw = fused xs n (get_parity_width d)"
  have p: "calcParityLen d = get_parity_width d" and n: "d + get_parity_width d = n"
    by (simp_all add: n_def get_cw_width_def get_parity_width_def calcParityLen_def)
  have len: "n < length codeword" using assms(2) by (simp add: n p)
  have "get_parity_width d \<le> 7"
    unfolding get_parity_width_def using assms(1) by (intro cw_loop_le) simp_all
  then have "n < 2 ^ 32" using assms(1) n by simp
  then have expand: "expand_loop (as_bytes (word_bits d word)) n (codeword, 0) = Inr (as_bytes xs @ drop n codeword, d)"
    using expand_loop_eq [of n codeword "word_bits d word"] len by (simp add: n_def xs_def)
  have parity: "parity_loop n (get_parity_width d) (as_bytes xs @ drop n codeword) = Inr (as_bytes cw @ drop n codeword)"
    unfolding cw_def using spread_parity_free [of _ d "word_bits d word"]
    by (intro parity_loop_eq) (simp_all add: xs_def n_def)
  have lcw: "length cw = n" by (simp add: cw_def xs_def)
  have drop: "drop n codeword = codeword ! n # drop (Suc n) codeword"
    using len by (simp add: Cons_nth_drop_Suc)
  have overall: "overall_loop n n ((as_bytes cw @ drop n codeword)[n := 0]) =
      as_bytes (cw @ [reduce_xor cw]) @ drop (Suc n) codeword"
    using foldl_xor_as_bytes [of False cw] len
    by (simp add: overall_loop_eq lcw drop reduce_xor_def list_update_append nth_append)
  obtain gm where "gm_loop (as_bytes (cw @ [reduce_xor cw]) @ drop (Suc n) codeword) (n + 1) (int (n + 1)) = Inr gm"
    using gm_loop_ok lcw by fastforce
  moreover have "int d + int (get_parity_width d) = int n" using n by simp
  ultimately show ?thesis
    using expand parity overall lcw len assms(1)
    by (simp add: ecc_encode_def toBin_def toBin_loop_eq p n Let_def ecc_encode_sv_eq
        flip: n_def xs_def cw_def word_bits_def split del: split_of_bool)
qed

section \<open>The decoder corrects one error and detects two\<close>

lemma foldl_xor_flip: "foldl (\<noteq>) (\<not> b) xs \<longleftrightarrow> \<not> foldl (\<noteq>) b xs"
proof (induction xs arbitrary: b)
  case (Cons x xs)
  then show ?case by (cases x) (simp_all only: foldl.simps simp_thms)
qed simp

lemma foldl_xor_update:
  "j < length xs \<Longrightarrow> foldl (\<noteq>) b (xs[j := v]) \<longleftrightarrow> foldl (\<noteq>) b xs \<noteq> (v \<noteq> xs ! j)"
proof (induction xs arbitrary: b j)
  case (Cons x xs)
  show ?case
  proof (cases j)
    case 0
    then show ?thesis
      using foldl_xor_flip [of b xs] by (cases v; cases x) (simp_all only: list_update.simps foldl.simps nth.simps nat.case simp_thms)
  next
    case (Suc i)
    with Cons.IH [of i "b \<noteq> x"] Cons.prems show ?thesis
      by (simp only: list_update.simps foldl.simps nth_Cons_Suc nat.case length_Cons Suc_less_eq)
  qed
qed simp

lemma reduce_xor_flip: "j < length xs \<Longrightarrow> reduce_xor (xs[j := \<not> xs ! j]) \<longleftrightarrow> \<not> reduce_xor xs"
  unfolding reduce_xor_def by (subst foldl_xor_update) auto

text \<open>The data positions of a code word, in order.\<close>

primrec data_bits_of :: "bool list \<Rightarrow> nat \<Rightarrow> bool list" where
  "data_bits_of cw 0 = []"
| "data_bits_of cw (Suc k) = data_bits_of cw k @ (if is_pow2 (Suc k) then [] else [cw ! k])"

lemma length_data_bits_of [simp]: "length (data_bits_of cw k) = ndata k"
  by (induction k) simp_all

lemma sv_extract_eq:
  "ndata k \<le> d \<Longrightarrow> sv_extract cw k (replicate d False, 0) =
     (data_bits_of cw k @ replicate (d - ndata k) False, ndata k)"
proof (induction k)
  case (Suc k)
  show ?case
  proof (cases "is_pow2 (Suc k)")
    case True
    with Suc show ?thesis by (simp add: clog2_exact_iff [of "Suc k"])
  next
    case False
    with Suc.prems have "replicate (d - ndata k) False = False # replicate (d - Suc (ndata k)) False"
      by (metis Suc_diff_le diff_Suc_Suc ndata.simps(2) replicate_Suc)
    with Suc False show ?thesis by (simp add: clog2_exact_iff [of "Suc k"] list_update_append)
  qed
qed simp

lemma data_bits_of_spread:
  assumes "\<And>j. j < k \<Longrightarrow> \<not> is_pow2 (Suc j) \<Longrightarrow> cw ! j = data ! ndata j" "ndata k \<le> length data"
  shows "data_bits_of cw k = take (ndata k) data"
  using assms by (induction k) (auto simp: take_Suc_conv_app_nth)

lemma extract_encoded:
  assumes "length data = d" "\<And>j. j < get_cw_width d \<Longrightarrow> \<not> is_pow2 (Suc j) \<Longrightarrow> cw ! j = data ! ndata j"
  shows "fst (sv_extract cw (get_cw_width d) (replicate d False, 0)) = data"
  using data_bits_of_spread [of "get_cw_width d" cw data] assms by (simp add: sv_extract_eq)

definition hamming_word :: "nat \<Rightarrow> bool list \<Rightarrow> bool list" where
  "hamming_word d data = fused (spread data (get_cw_width d)) (get_cw_width d) (get_parity_width d)"

lemma hamming_word_facts:
  "length (hamming_word d data) = get_cw_width d"
  "i < get_parity_width d \<Longrightarrow> \<not> sv_group i (hamming_word d data) (get_cw_width d)"
  "j < get_cw_width d \<Longrightarrow> \<not> is_pow2 (Suc j) \<Longrightarrow> hamming_word d data ! j = data ! ndata j"
  "ecc_encode_sv d data = hamming_word d data @ [reduce_xor (hamming_word d data)]"
proof -
  show "i < get_parity_width d \<Longrightarrow> \<not> sv_group i (hamming_word d data) (get_cw_width d)"
    using spread_parity_free [of _ d data] by (simp add: hamming_word_def sv_group_fuse)
  show "j < get_cw_width d \<Longrightarrow> \<not> is_pow2 (Suc j) \<Longrightarrow> hamming_word d data ! j = data ! ndata j"
    using nth_sv_fuse_other [of "get_parity_width d" j] by (simp add: hamming_word_def is_pow2_def)
qed (simp_all add: hamming_word_def ecc_encode_sv_eq Let_def)

text \<open>What the decoder returns on a word whose groups have the parities of the bits of \<open>S\<close>.\<close>

lemma decode_syndrome:
  assumes "length c = get_cw_width d" "S < 2 ^ get_parity_width d"
    and "\<And>i. i < get_parity_width d \<Longrightarrow> sv_group i c (get_cw_width d) \<longleftrightarrow> bit S i"
  shows "ecc_decode_sv d (c @ [q]) = \<lparr>
    data_o = fst (sv_extract (if S = 0 then c else c[S - 1 := \<not> c ! (S - 1)]) (get_cw_width d) (replicate d False, 0)),
    syndrome_o = S,
    single_error_o = (q \<noteq> reduce_xor c \<and> S \<noteq> 0),
    parity_error_o = (q \<noteq> reduce_xor c \<and> S = 0),
    double_error_o = (q = reduce_xor c \<and> S \<noteq> 0)\<rparr>"
proof -
  have "map (\<lambda>i. sv_group i c (get_cw_width d)) [0..<get_parity_width d] = map (bit S) [0..<get_parity_width d]"
    using assms(3) by simp
  then have "horner_sum of_bool 2 (map (\<lambda>i. sv_group i c (get_cw_width d)) [0..<get_parity_width d]) = S"
    using assms(2) by (simp only: horner_sum_bit_eq_take_bit) (simp add: take_bit_nat_eq_self)
  then show ?thesis
    using assms(1) by (simp add: ecc_decode_sv_def Let_def nth_append)
qed

definition flip_at :: "nat \<Rightarrow> bool list \<Rightarrow> bool list" where
  "flip_at j v = v[j := \<not> v ! j]"

lemma flip_at_simps [simp]:
  "length (flip_at j v) = length v"
  "j < length v \<Longrightarrow> flip_at j (v @ [q]) = flip_at j v @ [q]"
  "flip_at (length v) (v @ [q]) = v @ [\<not> q]"
  "j < length v \<Longrightarrow> (flip_at j v)[j := \<not> flip_at j v ! j] = v"
  "j < length v \<Longrightarrow> reduce_xor (flip_at j v) \<longleftrightarrow> \<not> reduce_xor v"
  by (simp_all add: flip_at_def list_update_append nth_append reduce_xor_flip)

lemma sv_group_flip:
  "j < n \<Longrightarrow> n \<le> length v \<Longrightarrow> sv_group i (flip_at j v) n \<longleftrightarrow> sv_group i v n \<noteq> bit (Suc j) i"
  by (auto simp: flip_at_def sv_group_update)

lemma position_less: "j < get_cw_width d \<Longrightarrow> Suc j < 2 ^ get_parity_width d"
  using parity_width_bounds(1) [of d] by linarith

lemma decode_flip:
  assumes "length data = d" "j < get_cw_width d"
  shows "ecc_decode_sv d (flip_at j (hamming_word d data) @ [q]) =
    \<lparr>data_o = data, syndrome_o = Suc j, single_error_o = (q = reduce_xor (hamming_word d data)),
     parity_error_o = False, double_error_o = (q \<noteq> reduce_xor (hamming_word d data))\<rparr>"
  using assms by (subst decode_syndrome [where S = "Suc j"])
    (auto simp: hamming_word_facts position_less sv_group_flip intro: extract_encoded)

lemma decode_clean:
  assumes "length data = d"
  shows "ecc_decode_sv d (hamming_word d data @ [q]) =
    \<lparr>data_o = data, syndrome_o = 0, single_error_o = False,
     parity_error_o = (q \<noteq> reduce_xor (hamming_word d data)), double_error_o = False\<rparr>"
  using assms by (subst decode_syndrome [where S = 0])
    (auto simp: hamming_word_facts intro: extract_encoded)

text \<open>Two flipped bits of the code word leave a syndrome that is not zero.\<close>

lemma decode_flip_two:
  fixes d data
  defines "c \<equiv> hamming_word d data"
  assumes "j < get_cw_width d" "k < get_cw_width d" "j \<noteq> k"
  shows "let r = ecc_decode_sv d (flip_at k (flip_at j c) @ [reduce_xor c]) in
    \<not> single_error_o r \<and> \<not> parity_error_o r \<and> double_error_o r"
proof -
  let ?p = "get_parity_width d"
  define S where "S = take_bit ?p (Suc j XOR Suc k)"
  have "S = Suc j XOR Suc k"
    using assms(2,3) by (simp add: S_def take_bit_xor take_bit_nat_eq_self position_less)
  moreover have "Suc j XOR Suc k \<noteq> 0"
    using assms(4) by (metis bit_eqI bit_xor_iff bit_0_eq bot_apply bot_bool_def nat.inject)
  ultimately have nz: "S \<noteq> 0" by simp
  have groups: "sv_group i (flip_at k (flip_at j c)) (get_cw_width d) \<longleftrightarrow> bit S i" if "i < ?p" for i
    using that assms(2,3) hamming_word_facts(1,2) [where d = d and data = data]
    by (simp add: sv_group_flip c_def S_def bit_take_bit_iff bit_xor_iff)
  have len: "length c = get_cw_width d" by (simp add: c_def hamming_word_facts)
  have "S < 2 ^ ?p" unfolding S_def by (rule take_bit_nat_less_exp)
  then show ?thesis
    using assms(2,3) nz len
    by (subst decode_syndrome [where S = S]) (simp_all add: groups Let_def)
qed

lemma length_ecc_encode_sv [simp]: "length (ecc_encode_sv d data) = Suc (get_cw_width d)"
  by (simp add: hamming_word_facts)

lemma decode_no_error:
  assumes "length data = d"
  shows "ecc_decode_sv d (ecc_encode_sv d data) =
    \<lparr>data_o = data, syndrome_o = 0, single_error_o = False, parity_error_o = False, double_error_o = False\<rparr>"
  using assms by (simp add: hamming_word_facts decode_clean)

lemma decode_one_error:
  assumes "length data = d" "j < get_cw_width d"
  shows "ecc_decode_sv d (flip_at j (ecc_encode_sv d data)) =
    \<lparr>data_o = data, syndrome_o = Suc j, single_error_o = True, parity_error_o = False, double_error_o = False\<rparr>"
  using assms by (simp add: hamming_word_facts decode_flip)

lemma decode_parity_error:
  assumes "length data = d"
  shows "ecc_decode_sv d (flip_at (get_cw_width d) (ecc_encode_sv d data)) =
    \<lparr>data_o = data, syndrome_o = 0, single_error_o = False, parity_error_o = True, double_error_o = False\<rparr>"
  using assms flip_at_simps(3) [of "hamming_word d data"]
  by (simp add: hamming_word_facts decode_clean)

lemma decode_two_errors:
  assumes "length data = d" "j < k" "k \<le> get_cw_width d"
  shows "let r = ecc_decode_sv d (flip_at j (flip_at k (ecc_encode_sv d data))) in
    \<not> single_error_o r \<and> \<not> parity_error_o r \<and> double_error_o r"
proof (cases "k < get_cw_width d")
  case True
  then show ?thesis
    using assms decode_flip_two [of k d j data] by (simp add: hamming_word_facts)
next
  case False
  with assms(3) have "k = length (hamming_word d data)" by (simp add: hamming_word_facts)
  with assms show ?thesis by (simp add: hamming_word_facts(4) decode_flip)
qed

section \<open>The contract of the code\<close>

text \<open>
  What a user of the code relies on: data of \<open>d\<close> bits, \<open>n\<close> bits of code word below the overall
  parity bit, and the decoder's answer after no, one and two flipped bits.
\<close>

locale secded =
  fixes enc :: "bool list \<Rightarrow> bool list" and dec :: "bool list \<Rightarrow> decoded" and d n :: nat
  assumes length_enc: "length data = d \<Longrightarrow> length (enc data) = Suc n"
    and no_error: "length data = d \<Longrightarrow> dec (enc data) =
      \<lparr>data_o = data, syndrome_o = 0, single_error_o = False, parity_error_o = False, double_error_o = False\<rparr>"
    and one_error: "length data = d \<Longrightarrow> j < n \<Longrightarrow> dec (flip_at j (enc data)) =
      \<lparr>data_o = data, syndrome_o = Suc j, single_error_o = True, parity_error_o = False, double_error_o = False\<rparr>"
    and parity_error: "length data = d \<Longrightarrow> dec (flip_at n (enc data)) =
      \<lparr>data_o = data, syndrome_o = 0, single_error_o = False, parity_error_o = True, double_error_o = False\<rparr>"
    and two_errors: "length data = d \<Longrightarrow> j < k \<Longrightarrow> k \<le> n \<Longrightarrow>
      \<exists>x s. dec (flip_at j (flip_at k (enc data))) =
      \<lparr>data_o = x, syndrome_o = s, single_error_o = False, parity_error_o = False, double_error_o = True\<rparr>"
begin

lemma enc_inj: "length x = d \<Longrightarrow> length y = d \<Longrightarrow> enc x = enc y \<Longrightarrow> x = y"
  by (metis no_error decoded.select_convs(1))

lemma corrected:
  assumes "length data = d" "j \<le> n"
  shows "data_o (dec (flip_at j (enc data))) = data \<and> \<not> double_error_o (dec (flip_at j (enc data)))"
proof (cases "j = n")
  case True
  with parity_error [OF assms(1)] show ?thesis by simp
next
  case False
  with one_error [OF assms(1), of j] assms(2) show ?thesis by simp
qed

text \<open>No two code words are closer than four flipped bits.\<close>

lemma distance_three:
  assumes "length x = d" "length y = d" "j \<le> n" "k < l" "l \<le> n"
  shows "flip_at j (enc x) \<noteq> flip_at k (flip_at l (enc y))"
proof
  assume "flip_at j (enc x) = flip_at k (flip_at l (enc y))"
  moreover obtain z s where "dec (flip_at k (flip_at l (enc y))) =
      \<lparr>data_o = z, syndrome_o = s, single_error_o = False, parity_error_o = False, double_error_o = True\<rparr>"
    using two_errors assms(2,4,5) by blast
  ultimately show False using corrected [OF assms(1,3)] by simp
qed

end

interpretation ham: secded "ecc_encode_sv d" "ecc_decode_sv d" d "get_cw_width d" for d
proof
  show "\<exists>x s. ecc_decode_sv d (flip_at j (flip_at k (ecc_encode_sv d data))) =
      \<lparr>data_o = x, syndrome_o = s, single_error_o = False, parity_error_o = False, double_error_o = True\<rparr>"
    if "length data = d" "j < k" "k \<le> get_cw_width d" for data j k
    using decode_two_errors [OF that] by (metis decoded.surjective old.unit.exhaust)
qed (simp_all add: decode_no_error decode_one_error decode_parity_error)

text \<open>C27:
  The code corrects one error and detects two, for every data width: an encoded word decodes to its
  data with no flag; with one bit of the code word flipped, wherever it is, it still decodes to its
  data, the syndrome names the position and exactly the single-error flag is raised; with the
  overall parity bit flipped, exactly the parity-error flag; and with any two different bits
  flipped, exactly the double-error flag.
\<close>

theorem ecc_secded:
  assumes "length data = d"
  defines "v \<equiv> ecc_encode_sv d data"
  shows "ecc_decode_sv d v = \<lparr>data_o = data, syndrome_o = 0,
           single_error_o = False, parity_error_o = False, double_error_o = False\<rparr> \<and>
         (\<forall>j < get_cw_width d. ecc_decode_sv d (flip_at j v) = \<lparr>data_o = data, syndrome_o = Suc j,
           single_error_o = True, parity_error_o = False, double_error_o = False\<rparr>) \<and>
         ecc_decode_sv d (flip_at (get_cw_width d) v) = \<lparr>data_o = data, syndrome_o = 0,
           single_error_o = False, parity_error_o = True, double_error_o = False\<rparr> \<and>
         (\<forall>j k. j < k \<and> k \<le> get_cw_width d \<longrightarrow>
           (let r = ecc_decode_sv d (flip_at j (flip_at k v)) in
            \<not> single_error_o r \<and> \<not> parity_error_o r \<and> double_error_o r))"
  unfolding v_def Let_def
  using ham.no_error [OF assms(1)] ham.one_error [OF assms(1)] ham.parity_error [OF assms(1)]
    ham.two_errors [OF assms(1)] by (metis decoded.select_convs(3-5))

theorem ecc_secded_witness:
  "length [True, False, True, True] = 4 \<and>
   ecc_decode_sv 4 (flip_at 2 (ecc_encode_sv 4 [True, False, True, True])) =
     \<lparr>data_o = [True, False, True, True], syndrome_o = 3,
      single_error_o = True, parity_error_o = False, double_error_o = False\<rparr>"
proof -
  have "get_cw_width 4 = 7"
    by (simp add: get_cw_width_def get_parity_width_def cw_loop.simps [of 4 2] cw_loop.simps [of 4 3])
  then show ?thesis
    using ecc_secded [of "[True, False, True, True]" 4] by auto
qed

end
