(* ===== verification/Ecc_Test.thy ===== *)
theory Ecc_Test
  imports Ecc
begin

text \<open>
  The two test programs of the code (\<^verbatim>\<open>test/ecc/ecc_encode.cpp\<close>, \<^verbatim>\<open>test/ecc/ecc_decode.cpp\<close>): each
  iteration encodes a word with the golden model, applies a vector to the module under test and
  asserts on its outputs; the decoder's test injects errors into the vector first.  The modules are
  those of \<open>Ecc\<close>; a wide port is an array of 32-bit words, the lowest first.  The values of
  \<^verbatim>\<open>random()\<close> and the contents of uninitialised arrays are arguments.
\<close>

section \<open>Ports\<close>

definition port_word :: "bool list \<Rightarrow> nat \<Rightarrow> u32" where
  "port_word v i = horner_sum of_bool 2 (take 32 (drop (32 * i) v))"

definition port_vector :: "u32 list \<Rightarrow> nat \<Rightarrow> bool list" where
  "port_vector ws n = map (\<lambda>k. bit (ws ! (k div 32)) (k mod 32)) [0..<n]"

text \<open>The next input: two values of \<^verbatim>\<open>random()\<close>, each below \<open>2 ^ 31\<close>.\<close>

definition next_word :: "u64 \<Rightarrow> u64 \<Rightarrow> u64" where
  "next_word r1 r2 = push_bit 32 r1 OR r2"

section \<open>The encoder's test\<close>

primrec assert_bits :: "u8 list \<Rightarrow> u8 list \<Rightarrow> nat \<Rightarrow> nat \<Rightarrow> nat \<Rightarrow> unit res" where
  "assert_bits info codeword len i 0 = Inr ()"
| "assert_bits info codeword len i (Suc j) = res_bind (assert_bits info codeword len i j) (\<lambda>_.
     if j + i * 32 < len then require (info ! j = codeword ! (j + i * 32)) AssertFailed else Inr ())"

primrec check_words :: "bool list \<Rightarrow> u8 list \<Rightarrow> nat \<Rightarrow> nat \<Rightarrow> u8 list \<Rightarrow> u8 list res" where
  "check_words outp codeword len 0 info = Inr info"
| "check_words outp codeword len (Suc i) info = res_bind (check_words outp codeword len i info) (\<lambda>info.
     res_bind (toBin info (ucast (port_word outp i)) 32) (\<lambda>info.
     res_bind (assert_bits info codeword len i 32) (\<lambda>_. Inr info)))"

record encode_test =
  enc_word :: u64
  enc_info :: "u8 list"
  enc_codeword :: "u8 list"
  main_time :: nat

definition encode_step :: "u64 \<Rightarrow> u64 \<Rightarrow> encode_test \<Rightarrow> encode_test res" where
  "encode_step r1 r2 t = (let d = 64; p = calcParityLen d in
     res_bind (ecc_encode (enc_word t) d (enc_codeword t)) (\<lambda>(_, cw).
     res_bind (check_words (ecc_encode_sv d (word_bits d (enc_word t))) cw (d + p + 1) 3 (enc_info t)) (\<lambda>inf.
     Inr (t\<lparr>enc_word := next_word r1 r2, enc_info := inf, enc_codeword := cw, main_time := main_time t + 1\<rparr>))))"

function encode_loop :: "(nat \<Rightarrow> u64 \<times> u64) \<Rightarrow> encode_test \<Rightarrow> encode_test res" where
  "encode_loop random t = (case encode_step (fst (random (main_time t))) (snd (random (main_time t))) t of
     Inl e \<Rightarrow> Inl e
   | Inr t' \<Rightarrow> if 100000 < main_time t' then Inr t' else encode_loop random t')"
  by pat_completeness auto
termination
  by (relation "measure (\<lambda>(_, t). 100001 - main_time t)")
    (auto simp: encode_step_def Let_def res_bind_Inr_iff split: prod.splits)

declare encode_loop.simps [simp del]

text \<open>The module is never finished by itself, so the loop runs until the time is past its limit.\<close>

definition encode_main :: "(nat \<Rightarrow> u8) \<Rightarrow> (nat \<Rightarrow> u8) \<Rightarrow> (nat \<Rightarrow> u64 \<times> u64) \<Rightarrow> encode_test res" where
  "encode_main junk junk' random = (let d = 64; p = calcParityLen d in
     encode_loop random \<lparr>enc_word = 0x55555555, enc_info = map junk [0..<d],
       enc_codeword = map junk' [0..<d + p + 1], main_time = 0\<rparr>)"

section \<open>The decoder's test\<close>

primrec clear_loop :: "nat \<Rightarrow> u8 list \<Rightarrow> u8 list res" where
  "clear_loop 0 buf = Inr buf"
| "clear_loop (Suc i) buf = res_bind (clear_loop i buf) (\<lambda>buf.
     if length buf \<le> i then Inl OutOfBounds else Inr (buf[i := 0]))"

text \<open>\<^verbatim>\<open>*((unsigned int *) encoded_word + i)\<close>: four bytes, the lowest first.\<close>

definition load_word :: "u8 list \<Rightarrow> nat \<Rightarrow> u32 res" where
  "load_word buf i = (if 4 * i + 4 \<le> length buf then Inr (le_word (take 4 (drop (4 * i) buf)))
     else Inl OutOfBounds)"

primrec apply_loop :: "u8 list \<Rightarrow> nat \<Rightarrow> u32 list \<Rightarrow> u32 list res" where
  "apply_loop buf 0 data_i = Inr data_i"
| "apply_loop buf (Suc i) data_i = res_bind (apply_loop buf i data_i) (\<lambda>data_i.
     res_bind (load_word buf i) (\<lambda>w. Inr (data_i[i := w])))"

record injected =
  single_error :: bool
  parity_error :: bool
  double_error :: bool

text \<open>
  The three values of \<^verbatim>\<open>random()\<close> select the kind of error, the word and the bit.
\<close>

definition inject :: "nat \<Rightarrow> nat \<times> nat \<times> nat \<Rightarrow> u32 list \<Rightarrow> u32 list \<times> injected" where
  "inject cw_byte rnd data_i = (case rnd of (kind, a, b) \<Rightarrow>
     let a = a mod (cw_byte - 1); b = b mod 8 in
     if kind mod 10 = 0 then (data_i[a := data_i ! a XOR push_bit b 1], \<lparr>single_error = True, parity_error = False, double_error = False\<rparr>)
     else if kind mod 10 = 1 then (data_i[cw_byte - 1 := data_i ! (cw_byte - 1) XOR 0x80], \<lparr>single_error = False, parity_error = True, double_error = False\<rparr>)
     else if kind mod 10 = 2 then (data_i[a := data_i ! a XOR push_bit b 3], \<lparr>single_error = False, parity_error = False, double_error = True\<rparr>)
     else (data_i, \<lparr>single_error = False, parity_error = False, double_error = False\<rparr>))"

definition cw_bytes :: "nat \<Rightarrow> nat" where
  "cw_bytes bits = (bits + 31) div 32"

text \<open>
  One iteration on the arrays \<open>codeword\<close> and \<open>encoded_word\<close> and the input port; the arrays are
  returned.  The result of the output comparison is on the bits of the data output.
\<close>

definition decode_step ::
    "u64 \<Rightarrow> nat \<times> nat \<times> nat \<Rightarrow> u8 list \<Rightarrow> u8 list \<Rightarrow> u32 list \<Rightarrow> (u8 list \<times> u8 list \<times> u32 list) res" where
  "decode_step word rnd codeword encoded_word data_i = (let
     d = 64; p = calcParityLen d; cw_byte = cw_bytes (d + p + 1) in
     res_bind (ecc_encode word d codeword) (\<lambda>(_, codeword).
     res_bind (clear_loop cw_byte encoded_word) (\<lambda>encoded_word.
     res_bind (toByte encoded_word codeword (d + p + 1)) (\<lambda>encoded_word.
     res_bind (apply_loop encoded_word cw_byte data_i) (\<lambda>data_i.
     let (data_i, e) = inject cw_byte rnd data_i;
         dut = ecc_decode_sv d (port_vector data_i (d + p + 1)) in
     res_bind (require (double_error e \<or> data_o dut = word_bits d word) AssertFailed) (\<lambda>_.
     res_bind (require (single_error_o dut = single_error e) AssertFailed) (\<lambda>_.
     res_bind (require (parity_error_o dut = parity_error e) AssertFailed) (\<lambda>_.
     res_bind (require (double_error_o dut = double_error e) AssertFailed) (\<lambda>_.
     Inr (codeword, encoded_word, data_i))))))))))"

function decode_loop ::
    "(nat \<Rightarrow> (nat \<times> nat \<times> nat) \<times> u64 \<times> u64) \<Rightarrow> nat \<Rightarrow> u64 \<Rightarrow> u8 list \<Rightarrow> u8 list \<Rightarrow> u32 list \<Rightarrow> unit res" where
  "decode_loop random time word codeword encoded_word data_i = (case random time of (rnd, r1, r2) \<Rightarrow>
     res_bind (decode_step word rnd codeword encoded_word data_i) (\<lambda>(codeword, encoded_word, data_i).
     if 100000 < time + 1 then Inr ()
     else decode_loop random (time + 1) (next_word r1 r2) codeword encoded_word data_i))"
  by pat_completeness auto
termination
  by (relation "measure (\<lambda>(_, t, _). 100001 - t)") auto

declare decode_loop.simps [simp del]

text \<open>The program, with \<open>len\<close> elements of \<open>encoded_word\<close>; the source declares \<^verbatim>\<open>cw_byte\<close>.\<close>

definition decode_main_with ::
    "nat \<Rightarrow> (nat \<Rightarrow> u8) \<Rightarrow> (nat \<Rightarrow> u8) \<Rightarrow> (nat \<Rightarrow> (nat \<times> nat \<times> nat) \<times> u64 \<times> u64) \<Rightarrow> unit res" where
  "decode_main_with len junk junk' random = (let d = 64; p = calcParityLen d in
     decode_loop random 0 0x55555555 (map junk [0..<d + p + 1]) (map junk' [0..<len])
       (replicate (cw_bytes (d + p + 1)) 0))"

definition decode_main ::
    "(nat \<Rightarrow> u8) \<Rightarrow> (nat \<Rightarrow> u8) \<Rightarrow> (nat \<Rightarrow> (nat \<times> nat \<times> nat) \<times> u64 \<times> u64) \<Rightarrow> unit res" where
  "decode_main = (let d = 64; p = calcParityLen d in decode_main_with (cw_bytes (d + p + 1)))"

section \<open>Widths of the tests\<close>

lemma parity_len_64 [simp]: "calcParityLen 64 = 7"
  by (simp add: calcParityLen_def cw_loop.simps [of 64 2] cw_loop.simps [of 64 3] cw_loop.simps [of 64 4]
      cw_loop.simps [of 64 5] cw_loop.simps [of 64 6] cw_loop.simps [of 64 7])

lemma cw_width_64 [simp]: "get_cw_width 64 = 71"
  using parity_len_64 by (simp add: get_cw_width_def get_parity_width_def calcParityLen_def)

lemma golden_64:
  assumes "72 = length cw"
  shows "\<exists>gm. ecc_encode w 64 cw = Inr (gm, as_bytes (ecc_encode_sv 64 (word_bits 64 w)))"
  using golden_model_is_encoder [of 64 cw w] assms by simp

text \<open>A value of \<^verbatim>\<open>random()\<close> has no bit 31, so neither bit 31 nor bit 63 of a word is ever set.\<close>

lemma next_word_never_full:
  assumes "unat r1 < 2 ^ 31" "unat r2 < 2 ^ 31"
  shows "\<not> bit (next_word r1 r2) 31" "\<not> bit (next_word r1 r2) 63"
proof -
  have small: "\<not> bit r k" if "unat r < 2 ^ 31" "31 \<le> k" for r :: u64 and k
  proof -
    have "unat r < 2 ^ k"
      using that power_increasing [of 31 k "2::nat"] by simp
    then show ?thesis
      using take_bit_nat_eq_self [of "unat r" k] bit_take_bit_iff [of k "unat r" k]
      by (auto simp: bit_unsigned_iff dest: bit_imp_le_length)
  qed
  show "\<not> bit (next_word r1 r2) 31" "\<not> bit (next_word r1 r2) 63"
    using small [OF assms(1)] small [OF assms(2)]
    by (simp_all add: next_word_def bit_or_iff bit_push_bit_iff)
qed

section \<open>The encoder's test never fails\<close>

lemma bit_port_word:
  "bit (port_word v i) k \<longleftrightarrow> k < 32 \<and> 32 * i + k < length v \<and> v ! (32 * i + k)"
  by (auto simp: port_word_def bit_horner_sum_bit_word_iff)

lemma assert_bits_ok:
  "(\<And>j. j < n \<Longrightarrow> j + i * 32 < len \<Longrightarrow> info ! j = codeword ! (j + i * 32)) \<Longrightarrow>
     assert_bits info codeword len i n = Inr ()"
  by (induction n) auto

lemma check_words_ok:
  assumes "length info = 64" "length v = len"
  shows "\<exists>info'. check_words v (as_bytes v) len n info = Inr info' \<and> length info' = 64"
proof (induction n)
  case (Suc n)
  then obtain inf where inf: "check_words v (as_bytes v) len n info = Inr inf" "length inf = 64"
    by blast
  let ?inf = "as_bytes (map (bit (ucast (port_word v n) :: u64)) [0..<32]) @ drop 32 inf"
  have "toBin inf (ucast (port_word v n)) 32 = Inr ?inf"
    using inf(2) by (simp add: toBin_def toBin_loop_eq del: map_map)
  moreover have "assert_bits ?inf (as_bytes v) len n 32 = Inr ()"
    using assms(2)
    by (intro assert_bits_ok) (auto simp: nth_append bit_ucast_iff bit_port_word ac_simps)
  ultimately show ?case
    using inf by simp
qed (use assms in simp)

definition encode_arrays :: "encode_test \<Rightarrow> bool" where
  "encode_arrays t \<longleftrightarrow> length (enc_info t) = 64 \<and> length (enc_codeword t) = 72"

lemma encode_step_ok:
  assumes "encode_arrays t"
  shows "\<exists>t'. encode_step r1 r2 t = Inr t' \<and> encode_arrays t' \<and> main_time t' = Suc (main_time t)"
proof -
  let ?v = "ecc_encode_sv 64 (word_bits 64 (enc_word t))"
  obtain gm where "ecc_encode (enc_word t) 64 (enc_codeword t) = Inr (gm, as_bytes ?v)"
    using golden_64 assms by (metis encode_arrays_def)
  moreover obtain inf where "check_words ?v (as_bytes ?v) 72 3 (enc_info t) = Inr inf" "length inf = 64"
    using check_words_ok [of "enc_info t" ?v 72 3] assms by (auto simp: encode_arrays_def)
  ultimately show ?thesis
    by (simp add: encode_step_def encode_arrays_def)
qed

lemma encode_loop_ok:
  "encode_arrays t \<Longrightarrow> main_time t \<le> 100000 \<Longrightarrow>
     \<exists>t'. encode_loop random t = Inr t' \<and> main_time t' = 100001"
proof (induction random t rule: encode_loop.induct)
  case (1 random t)
  let ?r = "random (main_time t)"
  obtain t' where t': "encode_step (fst ?r) (snd ?r) t = Inr t'" "encode_arrays t'"
      "main_time t' = Suc (main_time t)"
    using encode_step_ok [OF "1.prems"(1)] by blast
  show ?case
  proof (cases "100000 < main_time t'")
    case True
    with t' "1.prems"(2) show ?thesis by (simp add: encode_loop.simps [of random t])
  next
    case False
    with "1.IH" [OF t'(1) False] t' show ?thesis by (simp add: encode_loop.simps [of random t])
  qed
qed

text \<open>C28:
  The encoder's test passes: whatever the uninitialised arrays hold and whatever \<^verbatim>\<open>random()\<close> returns,
  every one of its 100001 iterations encodes the word with the golden model without an access
  outside an array, every bit of the module's output equals the golden codeword, and the program
  ends.
\<close>

theorem encode_test_passes:
  "\<exists>t. encode_main junk junk' random = Inr t \<and> main_time t = 100001"
proof -
  have "encode_arrays \<lparr>enc_word = 0x55555555, enc_info = map junk [0..<64],
      enc_codeword = map junk' [0..<72], main_time = 0\<rparr>"
    by (simp add: encode_arrays_def)
  then show ?thesis
    using encode_loop_ok [of _ random] by (simp add: encode_main_def del: upt_Suc)
qed

section \<open>The decoder's test\<close>

lemma byte_from_as_bytes:
  assumes "j + 8 \<le> length v"
  shows "byte_from (as_bytes v) j = Inr (horner_sum of_bool 2 (take 8 (drop j v)))"
proof -
  have "take 8 (drop j v) = map (\<lambda>i. v ! (j + i)) [0..<8]"
    using assms by (intro nth_equalityI) simp_all
  then show ?thesis
    using assms by (simp add: byte_from_def upt_rec push_bit_eq_mult algebra_simps)
qed

definition packed_byte :: "bool list \<Rightarrow> nat \<Rightarrow> u8" where
  "packed_byte v m = horner_sum of_bool 2 (take 8 (drop (8 * m) v))"

lemma bit_packed_byte: "8 * m + 8 \<le> length v \<Longrightarrow> bit (packed_byte v m) k \<longleftrightarrow> k < 8 \<and> v ! (8 * m + k)"
  by (auto simp: packed_byte_def bit_horner_sum_bit_word_iff)

text \<open>A codeword of whole bytes is packed completely, if the array has room for it.\<close>

lemma toByte_loop_eq:
  "q \<le> m \<Longrightarrow> 8 * m \<le> length v \<Longrightarrow> q \<le> length data \<Longrightarrow>
     toByte_loop (as_bytes v) (8 * m) (8 * int q - 8) data = Inr (map (packed_byte v) [0..<q] @ drop q data)"
proof (induction q arbitrary: data)
  case 0
  show ?case by (simp add: toByte_loop.simps [of _ _ "- 8"])
next
  case (Suc q)
  have "toByte_loop (as_bytes v) (8 * m) (8 * int (Suc q) - 8) data =
      toByte_loop (as_bytes v) (8 * m) (8 * int q - 8) (data[q := packed_byte v q])"
    using Suc.prems
    by (subst toByte_loop.simps) (simp add: byte_from_as_bytes packed_byte_def nat_mult_distrib)
  then show ?case
    using Suc by (simp add: Cons_nth_drop_Suc [symmetric] drop_update_swap)
qed

lemma toByte_eq:
  assumes "8 * m \<le> length v"
  shows "toByte data (as_bytes v) (8 * m) =
    (if m \<le> length data then Inr (map (packed_byte v) [0..<m] @ drop m data) else Inl OutOfBounds)"
proof -
  have first: "toByte data (as_bytes v) (8 * m) = toByte_loop (as_bytes v) (8 * m) (8 * int m - 8) data"
    unfolding toByte_def by (subst toByte_loop.simps) simp
  show ?thesis
  proof (cases "m \<le> length data")
    case True
    then show ?thesis using first toByte_loop_eq [of m m v data] assms by simp
  next
    case False
    then obtain q where q: "m = Suc q" "length data \<le> q" by (cases m) auto
    then have "toByte_loop (as_bytes v) (8 * m) (8 * int q) data = Inl OutOfBounds"
      using assms by (subst toByte_loop.simps) (simp add: byte_from_as_bytes nat_mult_distrib)
    then show ?thesis using first q by simp
  qed
qed

text \<open>Of a codeword that is not whole bytes the lowest bits are never packed.\<close>

lemma toByte_drops_low_bits:
  "toByte [0, 0] (as_bytes (replicate 4 b @ replicate 8 False)) 12 = Inr [0, 0]"
proof -
  let ?v = "replicate 4 b @ replicate 8 False"
  have "byte_from (as_bytes ?v) 4 = Inr 0"
    by (subst byte_from_as_bytes) (simp_all add: numeral_eq_Suc)
  then show ?thesis
    unfolding toByte_def
    by (simp add: toByte_loop.simps [of _ _ 12] toByte_loop.simps [of _ _ 4] toByte_loop.simps [of _ _ "- 4"]
        del: map_append map_replicate)
qed

lemma clear_loop_eq: "n \<le> length buf \<Longrightarrow> clear_loop n buf = Inr (replicate n 0 @ drop n buf)"
  by (induction n)
    (simp_all add: Cons_nth_drop_Suc [symmetric] list_update_append replicate_append_same [symmetric])

lemma apply_loop_eq:
  "4 * n \<le> length buf \<Longrightarrow> n \<le> length data_i \<Longrightarrow>
     apply_loop buf n data_i = Inr (map (\<lambda>i. le_word (take 4 (drop (4 * i) buf))) [0..<n] @ drop n data_i)"
  by (induction n) (simp_all add: load_word_def Cons_nth_drop_Suc [symmetric] list_update_append)

text \<open>Packing the codeword into bytes and reading them as words applies the codeword.\<close>

lemma port_vector_packed:
  assumes "length v = 8 * m" "m \<le> length buf" "4 * n \<le> length buf" "8 * m \<le> 32 * n"
    and "\<And>i. i < m \<Longrightarrow> buf ! i = packed_byte v i"
  shows "port_vector (map (\<lambda>i. le_word (take 4 (drop (4 * i) buf))) [0..<n]) (8 * m) = v"
proof (rule nth_equalityI)
  fix k assume "k < length (port_vector (map (\<lambda>i. le_word (take 4 (drop (4 * i) buf))) [0..<n]) (8 * m))"
  then have k: "k < 8 * m" by (simp add: port_vector_def)
  have "k mod 32 div 8 = k div 8 mod 4" "k div 32 = k div 8 div 4"
    using mod_mult2_eq [of k 8 4] div_mult2_eq [of k 8 4] by simp_all
  then have "4 * (k div 32) + k mod 32 div 8 = k div 8" by simp
  then have idx: "4 * (k div 32) + k mod 32 div 8 = k div 8" "k mod 32 mod 8 = k mod 8" "k mod 32 div 8 < 4"
    "8 * (k div 8) + k mod 8 = k" "k div 8 < m" "k div 32 < n"
    using k assms(4) by (auto simp: mod_mod_cancel less_mult_imp_div_less)
  then have "bit (le_word (take 4 (drop (4 * (k div 32)) buf)) :: u32) (k mod 32) \<longleftrightarrow> bit (buf ! (k div 8)) (k mod 8)"
    using assms(2) by (simp add: bit_le_word less_diff_conv add.commute [of "k mod 32 div 8"])
  also have "\<dots> \<longleftrightarrow> v ! k"
    using idx assms(1,5) by (simp add: bit_packed_byte)
  finally show "port_vector (map (\<lambda>i. le_word (take 4 (drop (4 * i) buf))) [0..<n]) (8 * m) ! k = v ! k"
    using k idx by (simp add: port_vector_def)
qed (simp add: port_vector_def assms(1))

lemma port_vector_flip:
  assumes "a < length ws" "b < 32" "32 * a + b < n"
  shows "port_vector (ws[a := ws ! a XOR push_bit b 1]) n = flip_at (32 * a + b) (port_vector ws n)"
proof (rule nth_equalityI)
  fix k assume "k < length (port_vector (ws[a := ws ! a XOR push_bit b 1]) n)"
  then have "k < n" by (simp add: port_vector_def)
  moreover have "k = 32 * a + b \<longleftrightarrow> k div 32 = a \<and> k mod 32 = b"
    using assms(2) by auto
  ultimately show "port_vector (ws[a := ws ! a XOR push_bit b 1]) n ! k = flip_at (32 * a + b) (port_vector ws n) ! k"
    using assms
    by (auto simp: port_vector_def flip_at_def nth_list_update bit_xor_iff bit_push_bit_iff bit_exp_iff)
qed (simp add: port_vector_def)

lemma push_bit_3: "push_bit b 3 = push_bit b 1 XOR push_bit (Suc b) (1 :: u32)"
proof -
  have "(3 :: u32) = 1 XOR push_bit 1 1" by simp
  then show ?thesis
    by (metis push_bit_xor push_bit_push_bit add.commute plus_1_eq_Suc)
qed

text \<open>What is applied: the codeword with no, one or two bits flipped, as the expected flags say.\<close>

lemma inject_vector:
  assumes "length ws = 3" "inject 3 rnd ws = (ws', e)"
  obtains
    j where "j < 71" "port_vector ws' 72 = flip_at j (port_vector ws 72)"
      "e = \<lparr>single_error = True, parity_error = False, double_error = False\<rparr>"
  | "port_vector ws' 72 = flip_at 71 (port_vector ws 72)"
      "e = \<lparr>single_error = False, parity_error = True, double_error = False\<rparr>"
  | j where "j < 70" "port_vector ws' 72 = flip_at j (flip_at (Suc j) (port_vector ws 72))"
      "e = \<lparr>single_error = False, parity_error = False, double_error = True\<rparr>"
  | "port_vector ws' 72 = port_vector ws 72"
      "e = \<lparr>single_error = False, parity_error = False, double_error = False\<rparr>"
proof -
  obtain kind a b where rnd: "rnd = (kind, a, b)" by (cases rnd)
  define a' b' where "a' = a mod 2" and "b' = b mod 8"
  have ab: "a' < 2" "b' < 8" by (simp_all add: a'_def b'_def)
  then have idx: "a' < length ws" "b' < 32" "Suc b' < 32" "32 * a' + b' < 70"
    using assms(1) by simp_all
  note inj = assms(2) [unfolded rnd inject_def, simplified, folded a'_def b'_def]
  consider "kind mod 10 = 0" | "kind mod 10 = 1" | "kind mod 10 = 2" | "2 < kind mod 10"
    by linarith
  then show ?thesis
  proof cases
    case 1
    with inj have "ws' = ws[a' := ws ! a' XOR push_bit b' 1]"
      "e = \<lparr>single_error = True, parity_error = False, double_error = False\<rparr>" by simp_all
    then show ?thesis
      using port_vector_flip [OF idx(1,2), of 72] idx(4) that(1) [of "32 * a' + b'"] by simp
  next
    case 2
    have "ws ! 2 XOR 128 = ws ! 2 XOR push_bit 7 (1 :: u32)" by simp
    moreover from 2 inj have "ws' = ws[2 := ws ! 2 XOR 128]"
      "e = \<lparr>single_error = False, parity_error = True, double_error = False\<rparr>" by simp_all
    ultimately show ?thesis
      using port_vector_flip [of 2 ws 7 72] assms(1) that(2) by simp
  next
    case 3
    with inj have ws': "ws' = ws[a' := ws ! a' XOR push_bit b' 3]"
      and e: "e = \<lparr>single_error = False, parity_error = False, double_error = True\<rparr>" by simp_all
    let ?ws = "ws[a' := ws ! a' XOR push_bit (Suc b') 1]"
    have "ws' = ?ws[a' := ?ws ! a' XOR push_bit b' 1]"
      using idx(1) unfolding ws' push_bit_3 by (simp add: ac_simps)
    then have "port_vector ws' 72 = flip_at (32 * a' + b') (port_vector ?ws 72)"
      using port_vector_flip [of a' ?ws b' 72] idx by simp
    also have "port_vector ?ws 72 = flip_at (Suc (32 * a' + b')) (port_vector ws 72)"
      using port_vector_flip [OF idx(1,3), of 72] idx(4) by simp
    finally show ?thesis
      using idx(4) e that(3) [of "32 * a' + b'"] by simp
  next
    case 4
    with inj have "ws' = ws" "e = \<lparr>single_error = False, parity_error = False, double_error = False\<rparr>"
      by simp_all
    then show ?thesis using that(4) by simp
  qed
qed

text \<open>Every injected error is one the decoder answers with the flag the test expects.\<close>

lemma inject_answered:
  assumes "length ws = 3" "port_vector ws 72 = ecc_encode_sv 64 (word_bits 64 w)"
    and "inject 3 rnd ws = (ws', e)"
  defines "dut \<equiv> ecc_decode_sv 64 (port_vector ws' 72)"
  shows "(double_error e \<or> data_o dut = word_bits 64 w) \<and>
    single_error_o dut = single_error e \<and> parity_error_o dut = parity_error e \<and>
    double_error_o dut = double_error e"
  using assms(1,3)
proof (cases rule: inject_vector)
  case (1 j)
  then show ?thesis using assms(2) by (simp add: dut_def ham.one_error)
next
  case 2
  then show ?thesis using assms(2) ham.parity_error [of "word_bits 64 w" 64] by (simp add: dut_def)
next
  case (3 j)
  then show ?thesis
    using assms(2) ham.two_errors [of "word_bits 64 w" 64 j "Suc j"] by (auto simp: dut_def)
next
  case 4
  then show ?thesis using assms(2) by (simp add: dut_def ham.no_error)
qed

lemma length_inject: "length (fst (inject n rnd ws)) = length ws"
  by (simp add: inject_def Let_def split: prod.splits)

text \<open>With room for the bytes of three words, no assertion of an iteration fails.\<close>

lemma decode_step_ok:
  assumes "length cw = 72" "12 \<le> length buf" "length ws = 3"
  shows "\<exists>cw' buf' ws'. decode_step w rnd cw buf ws = Inr (cw', buf', ws') \<and>
    length cw' = 72 \<and> length buf' = length buf \<and> length ws' = 3"
proof -
  let ?v = "ecc_encode_sv 64 (word_bits 64 w)"
  obtain gm where gm: "ecc_encode w 64 cw = Inr (gm, as_bytes ?v)"
    using golden_64 assms(1) by metis
  define buf' where "buf' = map (packed_byte ?v) [0..<9] @ drop 9 (replicate 3 0 @ drop 3 buf)"
  have clear: "clear_loop 3 buf = Inr (replicate 3 0 @ drop 3 buf)"
    using assms(2) by (intro clear_loop_eq) simp
  have pack: "toByte (replicate 3 0 @ drop 3 buf) (as_bytes ?v) 72 = Inr buf'"
    using toByte_eq [of 9 ?v "replicate 3 0 @ drop 3 buf"] assms(2) by (simp add: buf'_def)
  define ws1 :: "u32 list" where "ws1 = map (\<lambda>i. le_word (take 4 (drop (4 * i) buf'))) [0..<3]"
  have lbuf: "length buf' = length buf" using assms(2) by (simp add: buf'_def)
  have load: "apply_loop buf' 3 ws = Inr ws1"
    using apply_loop_eq [of 3 buf' ws] assms(2,3) lbuf by (simp add: ws1_def)
  have "port_vector ws1 (8 * 9) = ?v"
    unfolding ws1_def
    using assms(2) lbuf by (intro port_vector_packed) (simp_all add: buf'_def nth_append)
  then have vec: "port_vector ws1 72 = ?v" by simp
  have lws: "length ws1 = 3" by (simp add: ws1_def)
  obtain ws' e where inj: "inject 3 rnd ws1 = (ws', e)" by fastforce
  have "length ws' = 3" using length_inject [of 3 rnd ws1] inj lws by simp
  then show ?thesis
    using inject_answered [OF lws vec inj] gm clear pack load inj lbuf
    by (simp add: decode_step_def cw_bytes_def Let_def)
qed

lemma decode_loop_ok:
  "length cw = 72 \<Longrightarrow> 12 \<le> length buf \<Longrightarrow> length ws = 3 \<Longrightarrow> decode_loop random t w cw buf ws = Inr ()"
proof (induction random t w cw buf ws rule: decode_loop.induct)
  case (1 random t w cw buf ws)
  obtain rnd r1 r2 where r: "random t = (rnd, r1, r2)" by (cases "random t") auto
  obtain cw' buf' ws' where step: "decode_step w rnd cw buf ws = Inr (cw', buf', ws')"
      "length cw' = 72" "length buf' = length buf" "length ws' = 3"
    using decode_step_ok "1.prems" by blast
  show ?case
  proof (cases "100000 < t + 1")
    case True
    then show ?thesis using step r by (simp add: decode_loop.simps [of random t])
  next
    case False
    have "decode_loop random (t + 1) (next_word r1 r2) cw' buf' ws' = Inr ()"
      using step "1.prems"(2) False r by (intro "1.IH") simp_all
    then show ?thesis using step r by (simp add: decode_loop.simps [of random t])
  qed
qed

text \<open>C29:
  The decoder's test as it is written always leaves its array: \<open>encoded_word\<close> is declared with the
  number of 32-bit words, and packing the first codeword writes its ninth byte.  With the twelve
  bytes of three words the test passes for all values of \<^verbatim>\<open>random()\<close>: every injected error is
  answered with exactly the expected flag, and single and parity errors are corrected.
\<close>

theorem decode_test_verdict:
  "decode_main junk junk' random = Inl OutOfBounds \<and> decode_main_with 12 junk junk' random = Inr ()"
proof
  show "decode_main_with 12 junk junk' random = Inr ()"
    unfolding decode_main_with_def by (simp add: cw_bytes_def decode_loop_ok del: upt_Suc)
next
  obtain rnd r1 r2 where r: "random 0 = (rnd, r1, r2)" by (cases "random 0") auto
  let ?v = "ecc_encode_sv 64 (word_bits 64 0x55555555)"
  obtain gm where gm: "ecc_encode 0x55555555 64 (map junk [0..<72]) = Inr (gm, as_bytes ?v)"
    using golden_64 [of "map junk [0..<72]" "0x55555555"] by auto
  have "toByte buf (as_bytes ?v) 72 = Inl OutOfBounds" if "length buf = 3" for buf
    using toByte_eq [of 9 ?v buf] that by simp
  then have "decode_step 0x55555555 rnd (map junk [0..<72]) (map junk' [0..<3]) ws = Inl OutOfBounds" for ws
    using gm clear_loop_eq [of 3 "map junk' [0..<3]"] by (simp add: decode_step_def cw_bytes_def Let_def)
  then show "decode_main junk junk' random = Inl OutOfBounds"
    by (simp add: decode_main_def decode_main_with_def cw_bytes_def r decode_loop.simps [of random 0] del: upt_Suc)
qed

end
