(* ===== verification/Spec2Isabelle.thy ===== *)
theory Spec2Isabelle
  imports Prelude Perfect_Memory Elf_Loader Host Rename_Checking Checkpoint Ostream Konata Commit_Log Remote_Bitbang
    Cache_Directory Mem_Model Ram_Model Transaction Amo Mem_Resp
    Test_Sequence Sequence_Lib Sequence_Dist Handshake Driver Mem_Timing Scoreboard Scoreboard_Check Scoreboard_Ref
    Scoreboard_Sound Testbench Tb_Main Wiring Cache_Data Logger
    Ecc Ecc_Test
begin

text \<open>
  \<^bold>\<open>The C++ side of the Sargantana core tile.\<close>

  The repository is a RISC-V core tile. The hardware is SystemVerilog; what is written in C++ is what runs
  beside it: the models that the simulator calls over the DPI (\<^verbatim>\<open>src/simulator\<close>), the SystemC
  testbench of the data cache (\<^verbatim>\<open>src/rtl/dcache/rtl/tb\<close>) and the tests of the error-correcting code of the common
  cells (\<^verbatim>\<open>common_cells/test/ecc\<close>). This development models that code, one theory per
  component, and proves what makes it correct.

  \<^bold>\<open>Conventions.\<close> Integers of the code are words of their width (\<open>u8\<close>, \<open>u32\<close>, \<open>u64\<close>, \<open>49 word\<close>, ...), so
  that additions wrap as they do there. Classes and structs are records, enumerations datatypes, a
  \<^verbatim>\<open>std::map\<close> is a list of pairs sorted by key (\<open>std_map\<close> of \<open>Prelude\<close>). An operation that can fail returns
  \<open>sim_error + 'a\<close> (\<open>'a res\<close>): failed assertions, aborts, indices out of range, undefined shifts, null
  pointers, stack overflows and loops that never end are values. What uninitialised memory holds, the results of system
  calls, the values of \<^verbatim>\<open>rand()\<close> and of the SCV distributions, Spike's disassembler, Verilator's serialisation
  and the SystemC kernel are arguments of the definitions that use them. Threads of the testbench are steps:
  one step is what a thread does between two waits, or with one element of its input FIFO; theorems about
  several threads quantify over all interleavings of their steps.

  \<^bold>\<open>The simulator.\<close>
  \<^item> \<open>Perfect_Memory\<close> (\<^verbatim>\<open>dpi_perfect_memory.cpp\<close>): the word memory with masked writes, block writes, and the bus
    reads, writes and atomic operations on lines of 16 words. Lemmas: a block write stores its bytes and nothing
    else for every alignment, except for the overrun that is stated as a property of its own; a read after a
    write returns the merge; an atomic operation replaces exactly the addressed word or double word, and fails
    exactly in the listed cases.
  \<^item> \<open>Elf_Loader\<close> (\<^verbatim>\<open>loadelf.cpp\<close>, \<^verbatim>\<open>elf.h\<close>, \<^verbatim>\<open>memory_init\<close>): the file is its list of bytes. A well-formed file gives
    exactly the bytes of its loadable segments, zero filled, and the symbols of its symbol table, read off the file
    entry by entry. The loader is proved over the locale \<open>byte_store\<close> of what a write callback promises, interpreted on \<open>write_block\<close>.
  \<^item> \<open>Host\<close> (\<^verbatim>\<open>dpi_host.cpp\<close>): requests of the design to the host. The loop that copies the design's buffer has a 32-bit
    counter and a 64-bit bound, so it is a partial function; the size of the host's stack, on which the buffer lies, is an
    argument. Two theorems give the outcome of every request, the whole state of a served one included.
  \<^item> \<open>Rename_Checking\<close> (\<^verbatim>\<open>dpi_rename_checking.cpp\<close>): the check of the free list, which compares one entry only.
  \<^item> \<open>Checkpoint\<close> (\<^verbatim>\<open>dpi_checkpoint.cpp\<close>): save and restore are inverse; the reset sequence and the clock of the
    main program.
  \<^item> \<open>Ostream\<close>: the formatting state of a C++ stream, which \<open>Konata\<close> (\<^verbatim>\<open>dpi_konata.cpp\<close>, the pipeline trace) and
    \<open>Commit_Log\<close> (\<^verbatim>\<open>dpi_commit_log.cpp\<close>, the log of retired instructions) print through. The queue that the
    trace keeps is characterised by the signals of the whole run: who entered and has not left.
  \<^item> \<open>Remote_Bitbang\<close> (\<^verbatim>\<open>remote_bitbang.cc\<close>, \<^verbatim>\<open>SimJTAG.cc\<close>): the socket to the JTAG pins. Pins, replies and
    exit code are functions of the commands received so far, one command for each tick.

  \<^bold>\<open>The cache testbench.\<close> A sequence creates requests (\<open>Test_Sequence\<close>, \<open>Sequence_Lib\<close>), the driver packs them and
  presents them to the cache (\<open>Driver\<close>), the memory model answers the cache (\<open>Mem_Resp\<close> over \<open>Mem_Model\<close> and \<open>Amo\<close>),
  and the scoreboard watches both sides (\<open>Scoreboard\<close> over \<open>Ram_Model\<close> and \<open>Amo\<close>). \<open>Wiring\<close> is the netlist that connects
  them to the cache.
  \<^item> \<open>Transaction\<close> (\<^verbatim>\<open>hpdcache_test_transaction.h\<close>, \<^verbatim>\<open>hpdcache_test_defs.h\<close>): requests and responses, their classes and
    their text; the classes partition the operation codes.
  \<^item> \<open>Amo\<close>: the two computations of an atomic operation, of the scoreboard and of the memory model, agree, and
    agree with the simulator's on double words.
  \<^item> \<open>Cache_Directory\<close> (\<^verbatim>\<open>generic_cache_directory_base.h\<close>, \<^verbatim>\<open>generic_cache_directory_plru.h\<close>): a set of cached lines is the
    abstract state; allocation and invalidation refine insertion and removal, and the line used last is never
    the next victim. \<open>Cache_Data\<close> (\<^verbatim>\<open>generic_cache_data.h\<close>) is the array of the data words: a write is read back from
    its place, with the byte masks that the code really computes.
  \<^item> \<open>Mem_Model\<close>, \<open>Ram_Model\<close>: masked writes to words, and bytes with a map of the written ones.
  \<^item> \<open>Mem_Resp\<close> (\<^verbatim>\<open>hpdcache_test_mem_resp_model.h\<close> and its base class): reads, writes, atomic operations, error
    segments. The reservation buffers refine one optional range per identifier, over any sequence of requests. A
    write is characterised for every word, also for those whose first access draws a random value.
    \<open>Mem_Timing\<close> has the same processes clock edge by clock edge, with the distributions of the delays: a request that is
    held is accepted, and every response is delivered, within a bound, to a cache that sees only the pins.
  \<^item> \<open>Handshake\<close>: the locale \<open>handshake\<close> of a process that holds its request until it sees ready, interpreted on the driver
    and on the response processes of the memory model; the bounds of both rest on it.
  \<^item> \<open>Test_Sequence\<close> (\<^verbatim>\<open>hpdcache_test_sequence.h\<close>, \<^verbatim>\<open>transaction_pool.h\<close>): the pool of objects and the identifiers. The locale
    \<open>id_pool\<close> is the contract of the identifiers; it is interpreted on \<open>allocate_id\<close> and \<open>deallocate_id\<close> and used by
    \<open>Testbench\<close>. The search for an identifier is a partial function; that it ends is proved.
  \<^item> \<open>Sequence_Lib\<close> (\<^verbatim>\<open>sequence_lib/\<close>): the requests of the sequences are well formed, the
    store-conditionals that follow a load-reserved included; the random sequence waits only for an identifier, and ends. \<open>Sequence_Dist\<close> has the
    weighted bags that the constructors fill, which operations they can give, and that the read and the write sequence
    send well-formed loads and stores only.
  \<^item> \<open>Driver\<close> (\<^verbatim>\<open>hpdcache_test_driver.h\<close>): packing loses nothing, the order of the requests is kept, and with a cache that
    is ready again and again every request gets through and the simulation ends.
  \<^item> \<open>Scoreboard\<close> (\<^verbatim>\<open>hpdcache_test_scoreboard.h\<close>): one definition per process. \<open>Scoreboard_Check\<close> has what it checks: a load is
    compared with the bytes known when it was issued, the reservation buffer refines one optional double word,
    the error counter is exact. \<open>Scoreboard_Ref\<close> and \<open>Scoreboard_Sound\<close> have the converse: \<open>ref_step\<close> is a reference cache
    with a memory, a reservation and at most one atomic request of its own, which never looks at the scoreboard; beside it
    the scoreboard never raises an alarm, however answers, memory traffic and clock edges interleave, and the requests of the random sequence meet the condition of that theorem.
  \<^item> \<open>Testbench\<close>: sequence, FIFO and scoreboard together, with an unconstrained cache: an identifier is never used by
    two outstanding requests.
  \<^item> \<open>Tb_Main\<close> (\<^verbatim>\<open>hpdcache_tb.cpp\<close>): options and clock of the main program.
  \<^item> \<open>Wiring\<close> (\<^verbatim>\<open>build\<close> of \<^verbatim>\<open>hpdcache_tb.cpp\<close>, \<^verbatim>\<open>hpdcache_test_agent.h\<close>, \<^verbatim>\<open>agent.h\<close>, the ports of all modules): elaboration
    succeeds, every channel has one driver and every port is on the channel of its name.
  \<^item> \<open>Logger\<close> (\<^verbatim>\<open>logger.h\<close>): the levels of the messages.

  \<^bold>\<open>The error-correcting code.\<close>
  \<^item> \<open>Ecc\<close> (\<^verbatim>\<open>ecc.cpp\<close>, \<^verbatim>\<open>ecc_pkg.sv\<close>, \<^verbatim>\<open>ecc_encode.sv\<close>, \<^verbatim>\<open>ecc_decode.sv\<close>): the golden model on arrays of bytes and the two modules
    on vectors of bits. The golden model computes what the encoder does, and the code corrects one error and detects
    two, for every data width. The locale \<open>secded\<close> is the contract of such a code, with its minimum distance as a
    consequence; it is interpreted on the modules for every width.
  \<^item> \<open>Ecc_Test\<close> (\<^verbatim>\<open>ecc_encode.cpp\<close>, \<^verbatim>\<open>ecc_decode.cpp\<close>): the encoder's test always passes; the decoder's test writes past an array
    that is declared too small, and with room for the codeword it always passes too. Both rest on the contract. Widths and
    loop counters, which the source keeps in \<^verbatim>\<open>int\<close>, are natural numbers here: the tests use at most 72 bits and
    100001 iterations.

  \<^bold>\<open>Bounds.\<close> No fuel is used. Loops with a counter are folds over their range (\<open>for_upto\<close>, \<open>for_res\<close>), loops that wait are
  functions with a measure or partial functions into \<open>option\<close> whose termination is a theorem. The scoreboard's memory
  has a size \<open>N\<close> that is only assumed to be a positive multiple of eight; the requests are of one 64-bit word, as in
  the default configuration, with 6-bit identifiers, hence the bound of 64 outstanding requests.

  Liveness is stated with the number of cycles: a bound \<open>B\<close> on how long the cache keeps its ready signal low is an
  assumption, the bounds of the random delays (32 and 64 cycles) are those of the distributions.

  \<^bold>\<open>Not modelled.\<close> The hardware itself, which is not C++, the modules of the error-correcting code apart; \<^verbatim>\<open>svdpi.h\<close>, a standard header; the delays between the
  requests of a sequence, which only decide when a step happens; debug and statistics output, waveform and coverage
  files; the cache directory checks of the scoreboard, which are compiled out and cannot be compiled in, because they
  name enumerators that the transactions do not have (the directory itself is modelled); and the OpenPiton fields of the
  transactions, which the default configuration compiles out (the OpenPiton ports are in the netlist).
\<close>

end
